(* ===== verification/Prelude.thy ===== *)
theory Prelude
  imports "HOL-Library.Word" "HOL-Library.Sublist" "HOL-Library.Monad_Syntax"
begin

text \<open>
  Shared vocabulary of the development.  A Rust \<open>u8\<close> is a \<open>char\<close> (Isabelle's \<open>char\<close> is exactly an
  8-bit value), so that \<open>&[u8]\<close>, \<open>Vec<u8>\<close>, \<open>&str\<close> and \<open>String\<close> (UTF-8 bytes) are all \<open>string\<close> and
  source literals are written as they are in the code.  Byte arithmetic goes through \<open>u8_of\<close> and
  \<open>u8_char\<close>, the bijection with \<open>8 word\<close>.  The theory also has the generic list lemmas and the
  collections (\<open>byte_simps\<close>, \<open>std_simps\<close>) the components' proofs use.
\<close>

unbundle bit_operations_syntax

named_theorems byte_simps \<open>byte classes and their conversions\<close>
named_theorems std_simps \<open>unfolding rules for the modelled part of the Rust standard library\<close>

type_synonym byte = char
type_synonym bytes = "char list"
type_synonym usize = "64 word"
type_synonym u64 = "64 word"

section \<open>Bytes\<close>

definition u8_of :: "byte \<Rightarrow> 8 word" where
  "u8_of c = of_char c"

definition u8_char :: "8 word \<Rightarrow> byte" where
  "u8_char w = char_of (unat w)"

lemma of_char_lt_256 [simp]: "of_char c < (256::nat)"
  by (rule nat_of_char_less_256)

lemma u8_of_word_of_nat: "u8_of c = word_of_nat (of_char c)"
  by (simp only: u8_of_def of_nat_of_char)

lemma unat_u8_of [byte_simps]: "unat (u8_of c) = of_char c"
proof -
  have "of_char c < (2::nat) ^ LENGTH(8)"
    by simp
  then show ?thesis
    by (simp add: u8_of_word_of_nat unsigned_of_nat take_bit_nat_eq_self)
qed

lemma u8_char_of [simp]: "u8_char (u8_of c) = c"
  by (simp add: u8_char_def unat_u8_of)

lemma u8_of_char [simp]: "u8_of (u8_char w) = w"
proof -
  have "unat w < 256"
    using unsigned_less [of w] by simp
  then have "unat (u8_of (u8_char w)) = unat w"
    by (simp add: unat_u8_of u8_char_def)
  then show ?thesis
    by (simp only: word_unat_eq_iff)
qed

lemma u8_of_inject [simp]: "u8_of a = u8_of b \<longleftrightarrow> a = b"
  by (metis u8_char_of)

lemma inj_u8_of: "inj u8_of"
  by (rule injI) simp

lemma bit_one_zero [byte_simps]: "bit (Suc 0) 0"
  by (simp add: bit_0)

lemma of_char_char_of_small [byte_simps]: "n < 256 \<Longrightarrow> of_char (char_of n) = (n::nat)"
  by simp

lemma byte_eq_iff: "a = b \<longleftrightarrow> (of_char a :: nat) = of_char b"
  by simp

section \<open>ASCII case\<close>

text \<open>\<open>u8::to_ascii_lowercase\<close> and \<open>u8::eq_ignore_ascii_case\<close>.\<close>

definition ascii_upper :: "byte \<Rightarrow> bool" where
  "ascii_upper c = (65 \<le> (of_char c :: nat) \<and> (of_char c :: nat) \<le> 90)"

definition ascii_lower :: "byte \<Rightarrow> byte" where
  "ascii_lower c = (if ascii_upper c then char_of ((of_char c :: nat) + 32) else c)"

abbreviation str_lower :: "bytes \<Rightarrow> bytes" where
  "str_lower s \<equiv> map ascii_lower s"

definition eq_icase :: "bytes \<Rightarrow> bytes \<Rightarrow> bool" where
  "eq_icase a b = (length a = length b \<and> list_all2 (\<lambda>x y. ascii_lower x = ascii_lower y) a b)"

lemma eq_icase_lower: "eq_icase a b \<longleftrightarrow> str_lower a = str_lower b"
  by (auto simp: eq_icase_def list_all2_conv_all_nth list_eq_iff_nth_eq)

lemma of_char_ascii_lower:
  "(of_char (ascii_lower c) :: nat) = (if ascii_upper c then of_char c + 32 else of_char c)"
  by (simp add: ascii_lower_def ascii_upper_def)

lemma ascii_lower_not_upper [simp]: "\<not> ascii_upper (ascii_lower c)"
  by (simp add: ascii_upper_def of_char_ascii_lower)

lemma ascii_lower_fixed: "\<not> ascii_upper c \<Longrightarrow> ascii_lower c = c"
  by (simp add: ascii_lower_def)

lemma ascii_lower_idem [simp]: "ascii_lower (ascii_lower c) = ascii_lower c"
  by (simp add: ascii_lower_fixed)

lemma str_lower_idem: "str_lower (str_lower s) = str_lower s"
  by simp

lemma eq_icase_refl [simp]: "eq_icase a a"
  by (simp add: eq_icase_lower)

lemma eq_icase_sym: "eq_icase a b \<longleftrightarrow> eq_icase b a"
  by (auto simp: eq_icase_lower)

lemma eq_icase_trans: "eq_icase a b \<Longrightarrow> eq_icase b c \<Longrightarrow> eq_icase a c"
  by (simp add: eq_icase_lower)

lemmas ascii_eval [byte_simps] = ascii_lower_def ascii_upper_def char_of_def

section \<open>Indexing\<close>

text \<open>Rust's \<open>xs[i]\<close>, with the out-of-range panic as \<open>None\<close>.\<close>

definition index_opt :: "'a list \<Rightarrow> nat \<Rightarrow> 'a option" where
  "index_opt xs i = (if i < length xs then Some (xs ! i) else None)"

lemma index_opt_in [simp]: "i < length xs \<Longrightarrow> index_opt xs i = Some (xs ! i)"
  by (simp add: index_opt_def)

lemma index_opt_Some_iff: "index_opt xs i = Some x \<longleftrightarrow> i < length xs \<and> xs ! i = x"
  by (simp add: index_opt_def)

section \<open>First success\<close>

fun first_some :: "'a option list \<Rightarrow> 'a option" where
  "first_some [] = None"
| "first_some (x # xs) = (case x of Some v \<Rightarrow> Some v | None \<Rightarrow> first_some xs)"

lemma first_some_append:
  "first_some (xs @ ys) = (case first_some xs of Some v \<Rightarrow> Some v | None \<Rightarrow> first_some ys)"
  by (induction xs) (auto split: option.split)

lemma first_some_None: "first_some xs = None \<longleftrightarrow> (\<forall>x\<in>set xs. x = None)"
  by (induction xs) (auto split: option.split)

lemma first_some_const_None [simp]: "first_some (map (\<lambda>x. None) xs) = None"
  by (induction xs) auto

lemma first_some_single:
  "(\<And>x. x \<in> set xs \<Longrightarrow> x = None \<or> x = Some a) \<Longrightarrow>
     first_some xs = (if Some a \<in> set xs then Some a else None)"
  by (induction xs) (auto split: option.split)

section \<open>Transition systems\<close>

inductive reachable :: "('s \<Rightarrow> bool) \<Rightarrow> ('s \<Rightarrow> 's \<Rightarrow> bool) \<Rightarrow> 's \<Rightarrow> bool"
  for init :: "'s \<Rightarrow> bool" and step :: "'s \<Rightarrow> 's \<Rightarrow> bool" where
  start: "init s \<Longrightarrow> reachable init step s"
| extend: "reachable init step s \<Longrightarrow> step s t \<Longrightarrow> reachable init step t"

text \<open>What a component owes to have an invariant: it holds at the start and every step keeps it.\<close>

locale step_invariant =
  fixes init :: "'s \<Rightarrow> bool" and step :: "'s \<Rightarrow> 's \<Rightarrow> bool" and inv :: "'s \<Rightarrow> bool"
  assumes inv_init: "init s \<Longrightarrow> inv s"
    and inv_step: "inv s \<Longrightarrow> step s t \<Longrightarrow> inv t"
begin

lemma inv_reachable: "reachable init step s \<Longrightarrow> inv s"
  by (induction rule: reachable.induct) (auto intro: inv_init inv_step)

end

lemma unat_of_nat_small: "n < 2 ^ 64 \<Longrightarrow> unat (of_nat n :: u64) = n"
  using unat_of_nat [of n, where 'a = 64] by (simp only: mod_less len_num0 len_num1 len_bit0 mult_1_right nat_mult_1_right) simp

end
