(* ===== verification/Simd.thy ===== *)
theory Simd
  imports Prelude
begin

text \<open>
  \<open>src/crates/core/src/simd.rs\<close>: the byte primitives of the request path.  The vector routines are
  modelled lane by lane on lists of \<open>8 word\<close>, one definition per intrinsic the code uses; the
  strided loops \<open>while i + W <= len\<close> are the functions \<open>chunk_eq_loop\<close> and \<open>chunk_map_loop\<close>, run by
  the NEON, AVX2 and SSE2 routines with their own lane step.  The locales \<open>lane_compare\<close> and
  \<open>lane_fold\<close> state what a lane step has to do; each routine's step is an interpretation, so that
  its loop equals the scalar routine.  \<open>memchr\<close> and \<open>simdutf8\<close> are third-party crates: parameters.
  Slice lengths are at most \<open>isize::MAX\<close>, so the index arithmetic \<open>i + 32\<close> cannot wrap and indices
  are naturals.
\<close>

section \<open>Third-party byte searches\<close>

text \<open>
  \<open>memchr::memchr\<close> and \<open>simdutf8::basic::from_utf8\<close>, as parameters.  \<open>memchr_spec\<close> is the documented
  behaviour of \<open>memchr\<close>: the least index that holds the needle, or nothing.
\<close>

type_synonym memchr = "byte \<Rightarrow> bytes \<Rightarrow> nat option"

definition memchr_spec :: "memchr \<Rightarrow> bool" where
  "memchr_spec m = (\<forall>n h. (case m n h of
      None \<Rightarrow> n \<notin> set h
    | Some i \<Rightarrow> i < length h \<and> h ! i = n \<and> n \<notin> set (take i h)))"

text \<open>A concrete \<open>memchr\<close>, for evaluation.\<close>

fun memchr_scan :: "byte \<Rightarrow> bytes \<Rightarrow> nat option" where
  "memchr_scan n [] = None"
| "memchr_scan n (x # xs) = (if x = n then Some 0 else map_option Suc (memchr_scan n xs))"

definition find_byte :: "memchr \<Rightarrow> byte \<Rightarrow> bytes \<Rightarrow> nat option" where
  "find_byte memchr needle haystack = memchr needle haystack"

definition validate_utf8 :: "(bytes \<Rightarrow> bool) \<Rightarrow> bytes \<Rightarrow> bytes option" where
  "validate_utf8 from_utf8 bs = (if from_utf8 bs then Some bs else None)"

definition host_without_port :: "memchr \<Rightarrow> bytes \<Rightarrow> bytes" where
  "host_without_port memchr host =
     (if host \<noteq> [] \<and> hd host = CHR ''['' then
        (case find_byte memchr (CHR '']'') host of
           Some close \<Rightarrow> take (close + 1) host
         | None \<Rightarrow> host)
      else
        (case find_byte memchr (CHR '':'') host of
           Some pos \<Rightarrow> take pos host
         | None \<Rightarrow> host))"

lemma memchr_scan_spec: "memchr_spec memchr_scan"
proof -
  have "case memchr_scan n h of
      None \<Rightarrow> n \<notin> set h
    | Some i \<Rightarrow> i < length h \<and> h ! i = n \<and> n \<notin> set (take i h)" for n h
    by (induction h) (auto split: option.splits)
  then show ?thesis by (simp add: memchr_spec_def)
qed

text \<open>The law determines the function: any \<open>memchr\<close> agrees with the scan.\<close>

lemma memchr_spec_scan:
  assumes "memchr_spec m"
  shows "m n h = memchr_scan n h"
proof (cases "m n h")
  case None
  moreover have "case m n h of None \<Rightarrow> n \<notin> set h
    | Some i \<Rightarrow> i < length h \<and> h ! i = n \<and> n \<notin> set (take i h)"
    using assms by (simp add: memchr_spec_def)
  ultimately have "n \<notin> set h"
    by simp
  then have "memchr_scan n h = None"
    by (induction h) auto
  with None show ?thesis by simp
next
  case (Some i)
  then have i: "i < length h" "h ! i = n" "n \<notin> set (take i h)"
    using assms by (auto simp: memchr_spec_def split: option.splits)
  then have "memchr_scan n h = Some i"
  proof (induction h arbitrary: i)
    case (Cons x xs)
    then show ?case by (cases i) auto
  qed simp
  with Some show ?thesis by simp
qed

lemma memchr_scan_takeWhile:
  "memchr_scan n h = (if n \<in> set h then Some (length (takeWhile (\<lambda>c. c \<noteq> n) h)) else None)"
  by (induction h) auto

lemma take_takeWhile_length: "take (length (takeWhile P xs)) xs = takeWhile P xs"
  by (metis append_eq_conv_conj takeWhile_dropWhile_id)

lemma take_takeWhile_Suc:
  "n \<in> set xs \<Longrightarrow>
     take (Suc (length (takeWhile (\<lambda>c. c \<noteq> n) xs))) xs = takeWhile (\<lambda>c. c \<noteq> n) xs @ [n]"
  by (induction xs) auto

lemma takeWhile_absent: "n \<notin> set xs \<Longrightarrow> takeWhile (\<lambda>c. c \<noteq> n) xs = xs"
  by (induction xs) auto

section \<open>Scalar routines\<close>

definition eq_ignore_ascii_case_scalar :: "bytes \<Rightarrow> bytes \<Rightarrow> bool" where
  "eq_ignore_ascii_case_scalar a b =
     (length a = length b \<and> list_all (\<lambda>(x, y). ascii_lower x = ascii_lower y) (zip a b))"

lemma eq_scalar_lower: "eq_ignore_ascii_case_scalar a b \<longleftrightarrow> str_lower a = str_lower b"
  by (auto simp: eq_ignore_ascii_case_scalar_def list_all_length list_eq_iff_nth_eq)

section \<open>Strided loops\<close>

text \<open>
  \<open>chunk_eq_loop w step a b i\<close>: compare \<open>w\<close> bytes per round while they last, leave with \<open>false\<close> at the
  first differing round, and finish with the scalar routine on the tails \<open>&a[i..]\<close>, \<open>&b[i..]\<close>.
\<close>

function chunk_eq_loop ::
  "nat \<Rightarrow> (8 word list \<Rightarrow> 8 word list \<Rightarrow> bool) \<Rightarrow> bytes \<Rightarrow> bytes \<Rightarrow> nat \<Rightarrow> bool" where
  "chunk_eq_loop w step a b i =
     (if 0 < w \<and> i + w \<le> length a then
        (let va = map u8_of (take w (drop i a));
             vb = map u8_of (take w (drop i b))
         in if \<not> step va vb then False else chunk_eq_loop w step a b (i + w))
      else eq_ignore_ascii_case_scalar (drop i a) (drop i b))"
  by pat_completeness auto
termination
  by (relation "measure (\<lambda>(w, step, a, b, i). length a - i)") auto

text \<open>
  \<open>chunk_map_loop w step buf i\<close>: load \<open>w\<close> bytes, store the stepped lanes back in place, advance; the
  tail \<open>buf[i..]\<close> goes through \<open>make_ascii_lowercase\<close>.
\<close>

definition store_lanes :: "bytes \<Rightarrow> nat \<Rightarrow> 8 word list \<Rightarrow> bytes" where
  "store_lanes buf i v =
     map (\<lambda>j. if i \<le> j \<and> j < i + length v then u8_char (v ! (j - i)) else buf ! j) [0..<length buf]"

lemma length_store_lanes [simp]: "length (store_lanes buf i v) = length buf"
  by (simp add: store_lanes_def)

function chunk_map_loop :: "nat \<Rightarrow> (8 word list \<Rightarrow> 8 word list) \<Rightarrow> bytes \<Rightarrow> nat \<Rightarrow> bytes" where
  "chunk_map_loop w step buf i =
     (if 0 < w \<and> i + w \<le> length buf then
        chunk_map_loop w step
          (store_lanes buf i (step (map u8_of (take w (drop i buf))))) (i + w)
      else take i buf @ map ascii_lower (drop i buf))"
  by pat_completeness auto
termination
  by (relation "measure (\<lambda>(w, step, buf, i). length buf - i)") auto

declare chunk_eq_loop.simps [simp del] chunk_map_loop.simps [simp del]

text \<open>What a lane step owes the loops.\<close>

definition lane_lower :: "8 word \<Rightarrow> 8 word" where
  "lane_lower v = u8_of (ascii_lower (u8_char v))"

lemma map_lane_lower: "map lane_lower (map u8_of xs) = map u8_of (str_lower xs)"
  by (simp add: lane_lower_def)

lemma map_u8_of_inject [simp]: "map u8_of xs = map u8_of ys \<longleftrightarrow> xs = ys"
  by (rule inj_map_eq_map [OF inj_u8_of])

lemma chunk_split: "(take w xs = take w ys \<and> drop w xs = drop w ys) \<longleftrightarrow> xs = ys"
  by (metis append_take_drop_id)

lemma store_lanes_append:
  assumes "i + length v \<le> length buf"
  shows "store_lanes buf i v = take i buf @ map u8_char v @ drop (i + length v) buf"
  using assms by (intro nth_equalityI) (auto simp: store_lanes_def nth_append)

locale lane_compare =
  fixes w :: nat and step :: "8 word list \<Rightarrow> 8 word list \<Rightarrow> bool"
  assumes width: "0 < w"
    and step_iff: "\<And>va vb. length va = w \<Longrightarrow> length vb = w \<Longrightarrow>
      step va vb \<longleftrightarrow> map lane_lower va = map lane_lower vb"
begin

lemma loop_eq:
  assumes "length a = length b"
  shows "chunk_eq_loop w step a b i \<longleftrightarrow> str_lower (drop i a) = str_lower (drop i b)"
proof (induction "length a - i" arbitrary: i rule: less_induct)
  case less
  show ?case
  proof (cases "i + w \<le> length a")
    case True
    let ?va = "map u8_of (take w (drop i a))" and ?vb = "map u8_of (take w (drop i b))"
    have len: "length ?va = w" "length ?vb = w"
      using True assms by auto
    have "length a - (i + w) < length a - i"
      using True width by simp
    then have IH: "chunk_eq_loop w step a b (i + w)
        \<longleftrightarrow> str_lower (drop (i + w) a) = str_lower (drop (i + w) b)"
      by (rule less)
    have step: "step ?va ?vb \<longleftrightarrow> str_lower (take w (drop i a)) = str_lower (take w (drop i b))"
      using step_iff [OF len] by (simp only: map_lane_lower map_u8_of_inject)
    have "chunk_eq_loop w step a b i \<longleftrightarrow> step ?va ?vb \<and> chunk_eq_loop w step a b (i + w)"
      using True width by (subst chunk_eq_loop.simps) (simp add: Let_def)
    also have "\<dots> \<longleftrightarrow> str_lower (drop i a) = str_lower (drop i b)"
      unfolding step IH
      using chunk_split [of w "str_lower (drop i a)" "str_lower (drop i b)"]
      by (simp add: take_map drop_map add.commute)
    finally show ?thesis .
  next
    case False
    then show ?thesis
      by (subst chunk_eq_loop.simps) (simp add: eq_scalar_lower)
  qed
qed

end

locale lane_fold =
  fixes w :: nat and step :: "8 word list \<Rightarrow> 8 word list"
  assumes width: "0 < w"
    and step_map: "\<And>v. length v = w \<Longrightarrow> step v = map lane_lower v"
begin

lemma loop_map: "chunk_map_loop w step buf i = take i buf @ str_lower (drop i buf)"
proof (induction "length buf - i" arbitrary: buf i rule: less_induct)
  case less
  show ?case
  proof (cases "i + w \<le> length buf")
    case True
    define v where "v = map u8_of (take w (drop i buf))"
    define buf' where "buf' = store_lanes buf i (step v)"
    have len: "length v = w"
      using True by (simp add: v_def)
    have buf': "buf' = take i buf @ str_lower (take w (drop i buf)) @ drop (i + w) buf"
      using True len step_map [OF len]
      by (simp add: buf'_def store_lanes_append v_def lane_lower_def o_def)
    have "length buf' - (i + w) < length buf - i"
      using True width by (simp add: buf'_def)
    then have "chunk_map_loop w step buf' (i + w) = take (i + w) buf' @ str_lower (drop (i + w) buf')"
      by (rule less)
    also have "\<dots> = take i buf @ str_lower (take w (drop i buf)) @ str_lower (drop (i + w) buf)"
      using True by (simp add: buf' min_def)
    also have "\<dots> = take i buf @ str_lower (drop i buf)"
      by (metis append_take_drop_id drop_drop map_append add.commute)
    finally show ?thesis
      using True width by (subst chunk_map_loop.simps) (simp add: buf'_def v_def)
  next
    case False
    then show ?thesis
      by (subst chunk_map_loop.simps) simp
  qed
qed

end

section \<open>Intrinsics\<close>

text \<open>
  The vector intrinsics, lane by lane.  A comparison yields all-ones or zero in each lane; the
  x86 compare is signed; \<open>movemask\<close> collects the top bit of each lane into an \<open>i32\<close>.
\<close>

definition lane_mask :: "bool \<Rightarrow> 8 word" where
  "lane_mask b = (if b then 0xFF else 0)"

definition v_dup :: "nat \<Rightarrow> 8 word \<Rightarrow> 8 word list" where
  "v_dup w n = replicate w n"

definition v_and :: "8 word list \<Rightarrow> 8 word list \<Rightarrow> 8 word list" where
  "v_and a b = map2 (\<lambda>x y. x AND y) a b"

definition v_or :: "8 word list \<Rightarrow> 8 word list \<Rightarrow> 8 word list" where
  "v_or a b = map2 (\<lambda>x y. x OR y) a b"

definition v_xor :: "8 word list \<Rightarrow> 8 word list \<Rightarrow> 8 word list" where
  "v_xor a b = map2 (\<lambda>x y. x XOR y) a b"

definition v_ceq :: "8 word list \<Rightarrow> 8 word list \<Rightarrow> 8 word list" where
  "v_ceq a b = map2 (\<lambda>x y. lane_mask (x = y)) a b"

definition vcgeq_u8 :: "8 word list \<Rightarrow> 8 word list \<Rightarrow> 8 word list" where
  "vcgeq_u8 a b = map2 (\<lambda>x y. lane_mask (y \<le> x)) a b"

definition vcleq_u8 :: "8 word list \<Rightarrow> 8 word list \<Rightarrow> 8 word list" where
  "vcleq_u8 a b = map2 (\<lambda>x y. lane_mask (x \<le> y)) a b"

definition vminvq_u8 :: "8 word list \<Rightarrow> 8 word" where
  "vminvq_u8 v = foldr min v 0xFF"

definition mm_cmpgt_epi8 :: "8 word list \<Rightarrow> 8 word list \<Rightarrow> 8 word list" where
  "mm_cmpgt_epi8 a b = map2 (\<lambda>x y. lane_mask (sint y < sint x)) a b"

definition mm_movemask_epi8 :: "8 word list \<Rightarrow> 32 word" where
  "mm_movemask_epi8 v = horner_sum of_bool 2 (map (\<lambda>x. bit x 7) v)"

section \<open>Vector routines\<close>

definition neon_lower :: "8 word list \<Rightarrow> 8 word list" where
  "neon_lower v =
     (let upper_lo = v_dup 16 65; upper_hi = v_dup 16 90; case_bit = v_dup 16 0x20;
          is_upper = v_and (vcgeq_u8 v upper_lo) (vcleq_u8 v upper_hi)
      in v_or v (v_and is_upper case_bit))"

definition neon_lanes_eq :: "8 word list \<Rightarrow> 8 word list \<Rightarrow> bool" where
  "neon_lanes_eq va vb = (vminvq_u8 (v_ceq (neon_lower va) (neon_lower vb)) = 0xFF)"

definition eq_ignore_ascii_case_neon :: "bytes \<Rightarrow> bytes \<Rightarrow> bool" where
  "eq_ignore_ascii_case_neon a b = chunk_eq_loop 16 neon_lanes_eq a b 0"

definition lowercase_ascii_neon :: "bytes \<Rightarrow> bytes" where
  "lowercase_ascii_neon buf = chunk_map_loop 16 neon_lower buf 0"

definition x86_lower :: "nat \<Rightarrow> 8 word list \<Rightarrow> 8 word list" where
  "x86_lower w v =
     (let bias = v_dup w 0x80;
          lo = v_dup w ((65 XOR 0x80) - 1);
          hi = v_dup w ((90 XOR 0x80) + 1);
          case_bit = v_dup w 0x20;
          s = v_xor v bias;
          is_up = v_and (mm_cmpgt_epi8 s lo) (mm_cmpgt_epi8 hi s)
      in v_or v (v_and is_up case_bit))"

definition avx2_lanes_eq :: "8 word list \<Rightarrow> 8 word list \<Rightarrow> bool" where
  "avx2_lanes_eq va vb =
     (mm_movemask_epi8 (v_ceq (x86_lower 32 va) (x86_lower 32 vb)) = -1)"

definition sse2_lanes_eq :: "8 word list \<Rightarrow> 8 word list \<Rightarrow> bool" where
  "sse2_lanes_eq va vb =
     (mm_movemask_epi8 (v_ceq (x86_lower 16 va) (x86_lower 16 vb)) = 0xFFFF)"

definition eq_ignore_ascii_case_avx2 :: "bytes \<Rightarrow> bytes \<Rightarrow> bool" where
  "eq_ignore_ascii_case_avx2 a b = chunk_eq_loop 32 avx2_lanes_eq a b 0"

definition eq_ignore_ascii_case_sse2 :: "bytes \<Rightarrow> bytes \<Rightarrow> bool" where
  "eq_ignore_ascii_case_sse2 a b = chunk_eq_loop 16 sse2_lanes_eq a b 0"

definition lowercase_ascii_sse2 :: "bytes \<Rightarrow> bytes" where
  "lowercase_ascii_sse2 buf = chunk_map_loop 16 (x86_lower 16) buf 0"

text \<open>
  \<open>has_avx2\<close>: the probe \<open>is_x86_feature_detected!\<close> is the processor's answer, cached in an atomic byte
  that is threaded through: 0 unprobed, 1 absent, 2 present.
\<close>

definition has_avx2 :: "bool \<Rightarrow> 8 word \<Rightarrow> bool \<times> 8 word" where
  "has_avx2 probe cache =
     (if cache = 1 then (False, cache)
      else if cache = 2 then (True, cache)
      else (probe, if probe then 2 else 1))"

datatype arch = AArch64 | X86_64 | Other_Arch

definition eq_ignore_ascii_case ::
  "arch \<Rightarrow> bool \<Rightarrow> 8 word \<Rightarrow> bytes \<Rightarrow> bytes \<Rightarrow> bool \<times> 8 word" where
  "eq_ignore_ascii_case arch probe cache a b =
     (if length a \<noteq> length b then (False, cache)
      else case arch of
        AArch64 \<Rightarrow> (eq_ignore_ascii_case_neon a b, cache)
      | X86_64 \<Rightarrow>
          (let (avx2, cache') = has_avx2 probe cache
           in (if avx2 then eq_ignore_ascii_case_avx2 a b
               else eq_ignore_ascii_case_sse2 a b, cache'))
      | Other_Arch \<Rightarrow> (eq_ignore_ascii_case_scalar a b, cache))"

definition lowercase_ascii_into :: "arch \<Rightarrow> bytes \<Rightarrow> bytes \<Rightarrow> bytes option" where
  "lowercase_ascii_into arch src dst =
     (if length dst < length src then None
      else Some (case arch of
          AArch64 \<Rightarrow> lowercase_ascii_neon src
        | X86_64 \<Rightarrow> lowercase_ascii_sse2 src
        | Other_Arch \<Rightarrow> map ascii_lower src))"

section \<open>The lane steps meet their contract\<close>

lemma word8_all:
  assumes "list_all P (map word_of_nat [0..<256])"
  shows "P (w :: 8 word)"
proof -
  have "unat w < 256" using unsigned_less [of w] by simp
  then have "\<exists>n\<in>{0..<256}. w = word_of_nat n"
    by (intro bexI [where x = "unat w"]) auto
  then show ?thesis using assms by (auto simp: list_all_iff)
qed

lemma sint_bias: "sint (v XOR 0x80 :: 8 word) = uint v - 128"
  by (rule word8_all) code_simp

lemma or_case_bit:
  assumes "65 \<le> (v :: 8 word)" "v \<le> 90"
  shows "v OR 0x20 = v + 0x20"
proof -
  have "65 \<le> unat v" "unat v \<le> 90"
    using assms by (simp_all add: word_le_nat_alt)
  then have "unat v \<in> set [65..<91]" by (simp only: set_upt atLeastLessThan_iff) simp
  moreover have "list_all (\<lambda>n. (word_of_nat n OR 0x20 :: 8 word) = word_of_nat n + 0x20) [65..<91]"
    by code_simp
  ultimately have "word_of_nat (unat v) OR 0x20 = word_of_nat (unat v) + (0x20 :: 8 word)"
    unfolding list_all_iff by (rule bspec [rotated])
  then show ?thesis by simp
qed

lemma lane_lower_alt: "lane_lower v = (if 65 \<le> v \<and> v \<le> 90 then v OR 0x20 else v)"
proof -
  have nat: "of_char (u8_char v) = unat v"
    using unat_u8_of [of "u8_char v"] by simp
  have "unat (lane_lower v) = unat (if 65 \<le> v \<and> v \<le> 90 then v + 0x20 else v)"
    by (auto simp: lane_lower_def unat_u8_of of_char_ascii_lower ascii_upper_def nat
        word_le_nat_alt unat_word_ariths)
  then show ?thesis
    by (simp only: word_unat_eq_iff [symmetric]) (auto simp: or_case_bit)
qed

lemmas lane_op_defs = v_dup_def v_and_def v_or_def v_xor_def v_ceq_def vcgeq_u8_def vcleq_u8_def
  mm_cmpgt_epi8_def

lemma neon_lower_map: "length v = 16 \<Longrightarrow> neon_lower v = map lane_lower v"
  by (intro nth_equalityI)
    (auto simp: neon_lower_def lane_op_defs lane_lower_alt lane_mask_def Let_def)

lemma x86_lower_map: "length v = w \<Longrightarrow> x86_lower w v = map lane_lower v"
  by (intro nth_equalityI)
    (auto simp: x86_lower_def lane_op_defs Let_def lane_lower_alt lane_mask_def sint_bias word_le_def)

lemma vminvq_all: "vminvq_u8 v = 0xFF \<longleftrightarrow> (\<forall>x\<in>set v. x = 0xFF)"
proof (induction v)
  case (Cons x xs)
  have "y \<le> (0xFF :: 8 word)" for y
    using unsigned_less [of y, where 'a = nat] by (simp add: word_le_nat_alt)
  then show ?case
    using Cons by (auto simp: vminvq_u8_def min_def order_antisym)
qed (simp add: vminvq_u8_def)

lemma movemask_all:
  assumes "length v \<le> 32"
  shows "mm_movemask_epi8 v = mask (length v) \<longleftrightarrow> (\<forall>x\<in>set v. bit x 7)"
proof -
  have "mm_movemask_epi8 v = mask (length v) \<longleftrightarrow>
      (\<forall>n<32. (n < length v \<and> bit (v ! n) 7) = (n < length v))"
    by (auto simp: mm_movemask_epi8_def bit_eq_iff bit_horner_sum_bit_word_iff bit_mask_iff
        cong: conj_cong)
  also have "\<dots> \<longleftrightarrow> (\<forall>x\<in>set v. bit x 7)"
    using assms by (auto simp: all_set_conv_all_nth dest: less_le_trans)
  finally show ?thesis .
qed

lemma v_ceq_all:
  assumes "length a = length b" "\<And>x. f (lane_mask x) = x"
  shows "(\<forall>x\<in>set (v_ceq a b). f x) \<longleftrightarrow> a = b"
  using assms by (auto simp: v_ceq_def all_set_conv_all_nth list_eq_iff_nth_eq)

lemma lane_mask_ff: "lane_mask x = 0xFF \<longleftrightarrow> x"
  by (simp add: lane_mask_def)

lemma lane_mask_top: "bit (lane_mask x) 7 \<longleftrightarrow> x"
  by (simp add: lane_mask_def)

interpretation neon_cmp: lane_compare 16 neon_lanes_eq
  by unfold_locales
    (simp_all add: neon_lanes_eq_def vminvq_all neon_lower_map v_ceq_all [where f = "\<lambda>x. x = 0xFF"]
      lane_mask_ff)

lemma movemask_ceq:
  assumes "length a = n" "length b = n" "n \<le> 32"
  shows "mm_movemask_epi8 (v_ceq a b) = mask n \<longleftrightarrow> a = b"
proof -
  have "length (v_ceq a b) = n"
    using assms by (simp add: v_ceq_def)
  then show ?thesis
    using movemask_all [of "v_ceq a b"] assms v_ceq_all [of a b "\<lambda>x. bit x 7"]
    by (simp add: lane_mask_top)
qed

lemma minus_one_word32: "(-1 :: 32 word) = 0xFFFFFFFF"
  by simp

interpretation avx2_cmp: lane_compare 32 avx2_lanes_eq
proof unfold_locales
  fix va vb :: "8 word list"
  assume "length va = 32" "length vb = 32"
  then show "avx2_lanes_eq va vb \<longleftrightarrow> map lane_lower va = map lane_lower vb"
    using movemask_ceq [of "map lane_lower va" 32 "map lane_lower vb"]
    by (simp add: avx2_lanes_eq_def x86_lower_map mask_eq_exp_minus_1 minus_one_word32)
qed simp

interpretation sse2_cmp: lane_compare 16 sse2_lanes_eq
proof unfold_locales
  fix va vb :: "8 word list"
  assume "length va = 16" "length vb = 16"
  then show "sse2_lanes_eq va vb \<longleftrightarrow> map lane_lower va = map lane_lower vb"
    using movemask_ceq [of "map lane_lower va" 16 "map lane_lower vb"]
    by (simp add: sse2_lanes_eq_def x86_lower_map mask_eq_exp_minus_1)
qed simp

interpretation neon_map: lane_fold 16 neon_lower
  by unfold_locales (simp_all add: neon_lower_map)

interpretation sse2_map: lane_fold 16 "x86_lower 16"
  by unfold_locales (simp_all add: x86_lower_map)

lemma lowercase_ascii_into_simps:
  "lowercase_ascii_into arch src dst =
     (if length dst < length src then None else Some (str_lower src))"
  by (simp add: lowercase_ascii_into_def lowercase_ascii_neon_def lowercase_ascii_sse2_def
      neon_map.loop_map sse2_map.loop_map split: arch.split)

lemmas vector_eq = neon_cmp.loop_eq avx2_cmp.loop_eq sse2_cmp.loop_eq

lemmas vector_eq_defs = eq_ignore_ascii_case_neon_def eq_ignore_ascii_case_avx2_def
  eq_ignore_ascii_case_sse2_def

section \<open>Properties\<close>

text \<open>
  C26: on every architecture, whatever the AVX2 probe answers and whatever the probe cache holds, the
  vectorised \<open>eq_ignore_ascii_case\<close> returns what the scalar reference routine returns.
\<close>

theorem eq_ignore_ascii_case_scalar_equiv:
  "fst (eq_ignore_ascii_case arch probe cache a b) = eq_ignore_ascii_case_scalar a b"
proof (cases "length a = length b")
  case True
  then show ?thesis
    by (auto simp: eq_ignore_ascii_case_def eq_scalar_lower vector_eq_defs vector_eq Let_def
        split: arch.split prod.split)
next
  case False
  then show ?thesis
    by (simp add: eq_ignore_ascii_case_def eq_ignore_ascii_case_scalar_def)
qed

text \<open>
  \<open>lowercase_ascii_into\<close> fails exactly when the destination is shorter than the source, and
  otherwise writes the source with \<open>A-Z\<close> lowered and every other byte unchanged, on every
  architecture.
\<close>

theorem lowercase_ascii_into_correct:
  "lowercase_ascii_into arch src dst =
     (if length dst < length src then None else Some (str_lower src))"
  by (rule lowercase_ascii_into_simps)

text \<open>
  whenever \<open>memchr\<close> finds the first occurrence, \<open>host_without_port\<close> keeps everything up to the
  first colon, and of a bracketed IPv6 literal with a closing bracket everything up to and including
  that bracket; so a port never survives and a literal keeps its colons.
\<close>

theorem host_without_port_correct:
  assumes "memchr_spec m"
  shows "host_without_port m host =
     (if prefix ''['' host then
        (if CHR '']'' \<in> set host then takeWhile (\<lambda>c. c \<noteq> CHR '']'') host @ '']'' else host)
      else takeWhile (\<lambda>c. c \<noteq> CHR '':'') host)"
proof -
  have "prefix ''['' host \<longleftrightarrow> host \<noteq> [] \<and> hd host = CHR ''[''"
    by (cases host) auto
  then show ?thesis
    by (simp add: host_without_port_def find_byte_def memchr_spec_scan [OF assms]
        memchr_scan_takeWhile take_takeWhile_length take_takeWhile_Suc takeWhile_absent)
qed

theorem host_without_port_correct_witness:
  "memchr_spec memchr_scan \<and>
   host_without_port memchr_scan ''[::1]:80'' = ''[::1]'' \<and>
   host_without_port memchr_scan ''api.x:8443'' = ''api.x''"
  using host_without_port_correct [OF memchr_scan_spec, of "''[::1]:80''"]
    host_without_port_correct [OF memchr_scan_spec, of "''api.x:8443''"]
  by (simp add: memchr_scan_spec)

end
