(* ===== verification/Fx_Hash.thy ===== *)
theory Fx_Hash
  imports Prelude
begin

text \<open>
  \<open>src/crates/core/src/hash.rs\<close>: the multiply-rotate hasher of the routing maps, on \<open>64 word\<close> with
  its wrap-around.  \<open>from_ne_bytes\<close> reads in the target's byte order, which is the parameter \<open>be\<close>
  (big endian).  The lemmas show that one round is a bijection of the input word, so that two inputs
  of equal length that differ in a single chunk never collide.
\<close>

record FxHasher =
  hash :: u64

definition SEED :: u64 where
  "SEED = 0x517cc1b727220a95"

definition ROTATE :: nat where
  "ROTATE = 5"

definition fx_default :: FxHasher where
  "fx_default = \<lparr>hash = SEED\<rparr>"

definition add_to_hash :: "FxHasher \<Rightarrow> u64 \<Rightarrow> FxHasher" where
  "add_to_hash self word = self\<lparr>hash := (word_rotl ROTATE (hash self) XOR word) * SEED\<rparr>"

text \<open>\<open>uN::from_ne_bytes\<close>, widened to 64 bits.\<close>

definition from_ne_bytes :: "bool \<Rightarrow> bytes \<Rightarrow> u64" where
  "from_ne_bytes be bs =
     word_of_nat (horner_sum of_char 256 (if be then rev bs else bs))"

text \<open>The words \<open>write\<close> feeds in, in order: whole 8-byte chunks, then at most a 4, a 2 and a 1.\<close>

fun write_tail :: "bool \<Rightarrow> FxHasher \<Rightarrow> bytes \<Rightarrow> FxHasher" where
  "write_tail be self rest =
     (let (self, rest) = (if 4 \<le> length rest
            then (add_to_hash self (from_ne_bytes be (take 4 rest)), drop 4 rest) else (self, rest));
          (self, rest) = (if 2 \<le> length rest
            then (add_to_hash self (from_ne_bytes be (take 2 rest)), drop 2 rest) else (self, rest))
      in case rest of [] \<Rightarrow> self | b # _ \<Rightarrow> add_to_hash self (word_of_nat (of_char b)))"

fun write_chunks :: "bool \<Rightarrow> FxHasher \<Rightarrow> bytes \<Rightarrow> FxHasher \<times> bytes" where
  "write_chunks be self rest =
     (if 8 \<le> length rest
      then write_chunks be (add_to_hash self (from_ne_bytes be (take 8 rest))) (drop 8 rest)
      else (self, rest))"

declare write_chunks.simps [simp del] write_tail.simps [simp del]

definition fx_write :: "bool \<Rightarrow> FxHasher \<Rightarrow> bytes \<Rightarrow> FxHasher" where
  "fx_write be self bs =
     (let self = add_to_hash self (word_of_nat (length bs));
          (self, rest) = write_chunks be self bs
      in write_tail be self rest)"

definition write_u8 :: "FxHasher \<Rightarrow> 8 word \<Rightarrow> FxHasher" where
  "write_u8 self i = add_to_hash self (ucast i)"

definition write_u64 :: "FxHasher \<Rightarrow> u64 \<Rightarrow> FxHasher" where
  "write_u64 self i = add_to_hash self i"

definition write_usize :: "FxHasher \<Rightarrow> usize \<Rightarrow> FxHasher" where
  "write_usize self i = add_to_hash self i"

definition fx_finish :: "FxHasher \<Rightarrow> u64" where
  "fx_finish self = hash self"

text \<open>\<open><str as Hash>::hash\<close> writes the bytes and then the byte \<open>0xff\<close>.\<close>

definition hash_str :: "bool \<Rightarrow> bytes \<Rightarrow> u64" where
  "hash_str be s = fx_finish (write_u8 (fx_write be fx_default s) 0xff)"

section \<open>One round is a bijection\<close>

definition SEED_INV :: u64 where
  "SEED_INV = 0x2040003d780970bd"

lemma SEED_inverse: "SEED * SEED_INV = 1"
  unfolding SEED_def SEED_INV_def by code_simp

lemma left_inverse_inject: "(\<And>x. g (f x) = x) \<Longrightarrow> f a = f b \<longleftrightarrow> a = b"
  by metis

lemma mult_SEED_inject [simp]: "a * SEED = b * SEED \<longleftrightarrow> a = b"
  by (rule left_inverse_inject [where f = "\<lambda>x. x * SEED" and g = "\<lambda>x. x * SEED_INV"])
    (simp add: mult.assoc SEED_inverse)

lemma rotl_inject [simp]: "word_rotl n a = word_rotl n b \<longleftrightarrow> a = (b :: u64)"
  by (rule left_inverse_inject [where g = "word_rotr n"]) (rule word_rot_lr)

lemma xor_left_inject: "(a XOR c = b XOR c) \<longleftrightarrow> a = (b :: u64)"
  by (rule left_inverse_inject [where f = "\<lambda>x. x XOR c" and g = "\<lambda>x. x XOR c"])
    (simp add: xor.assoc)

lemma hash_eqI: "hash (h :: FxHasher) = hash h' \<Longrightarrow> h = h'"
  by (cases h, cases h') simp

lemma add_to_hash_inject_word [simp]: "add_to_hash h v = add_to_hash h w \<longleftrightarrow> v = w"
proof
  assume "add_to_hash h v = add_to_hash h w"
  then have "hash (add_to_hash h v) = hash (add_to_hash h w)" by simp
  then show "v = w"
    by (simp add: add_to_hash_def xor.commute xor_left_inject)
qed simp

lemma add_to_hash_inject_state [simp]: "add_to_hash h v = add_to_hash h' v \<longleftrightarrow> h = h'"
proof
  assume "add_to_hash h v = add_to_hash h' v"
  then have "hash (add_to_hash h v) = hash (add_to_hash h' v)" by simp
  then show "h = h'"
    by (simp add: add_to_hash_def xor_left_inject hash_eqI)
qed simp

section \<open>Reading a chunk loses nothing\<close>

lemma horner_less: "horner_sum of_char 256 bs < (256::nat) ^ length bs"
proof (induction bs)
  case (Cons c bs)
  have "of_char c + 256 * horner_sum of_char 256 bs < (256::nat) * (1 + horner_sum of_char 256 bs)"
    by simp
  also have "\<dots> \<le> 256 * 256 ^ length bs"
    using Cons by simp
  finally show ?case by simp
qed simp

lemma horner_inject:
  "length a = length b \<Longrightarrow> horner_sum of_char (256::nat) a = horner_sum of_char 256 b \<longleftrightarrow> a = b"
proof (induction a b rule: list_induct2)
  case (Cons x xs y ys)
  have "x = y \<and> horner_sum of_char (256::nat) xs = horner_sum of_char 256 ys"
    if eq: "of_char x + 256 * horner_sum of_char (256::nat) xs = of_char y + 256 * horner_sum of_char 256 ys"
  proof -
    have "of_char x = (of_char x + 256 * horner_sum of_char (256::nat) xs) mod 256"
      "of_char y = (of_char y + 256 * horner_sum of_char (256::nat) ys) mod 256" by simp_all
    then have "(of_char x :: nat) = of_char y" using eq by metis
    then show ?thesis using eq by simp
  qed
  then show ?case using Cons by auto
qed simp

lemma from_ne_bytes_inject:
  assumes "length a = length b" "length a \<le> 8"
  shows "from_ne_bytes be a = from_ne_bytes be b \<longleftrightarrow> a = b"
proof -
  have bound: "horner_sum of_char 256 bs < (2::nat) ^ LENGTH(64)" if "length bs \<le> 8" for bs
  proof -
    have "(256::nat) ^ length bs \<le> 256 ^ 8"
      using that by (intro power_increasing) simp_all
    then show ?thesis using horner_less [of bs] by simp
  qed
  have unat: "unat (word_of_nat (horner_sum of_char 256 bs) :: u64) = horner_sum of_char 256 bs"
    if "length bs \<le> 8" for bs
    using bound [OF that] by (simp add: unat_of_nat)
  have inj: "word_of_nat (horner_sum of_char 256 a) = (word_of_nat (horner_sum of_char 256 b) :: u64)
      \<longleftrightarrow> a = b" if "length a = length b" "length a \<le> 8" for a b
    using that unat [of a] unat [of b] horner_inject [of a b] by fastforce
  show ?thesis
    using assms inj [of a b] inj [of "rev a" "rev b"]
    by (cases be) (simp_all add: from_ne_bytes_def)
qed

section \<open>A changed byte changes the hash\<close>

definition fx_body :: "bool \<Rightarrow> FxHasher \<Rightarrow> bytes \<Rightarrow> FxHasher" where
  "fx_body be h bs = (case write_chunks be h bs of (h, rest) \<Rightarrow> write_tail be h rest)"

lemma fx_body_long:
  "8 \<le> length bs \<Longrightarrow>
     fx_body be h bs = fx_body be (add_to_hash h (from_ne_bytes be (take 8 bs))) (drop 8 bs)"
  by (simp add: fx_body_def write_chunks.simps [of be h bs])

lemma fx_body_short: "length bs < 8 \<Longrightarrow> fx_body be h bs = write_tail be h bs"
  by (simp add: fx_body_def write_chunks.simps [of be h bs])

lemma write_tail_inject: "write_tail be h bs = write_tail be h' bs \<longleftrightarrow> h = h'"
  by (auto simp: write_tail.simps Let_def split: list.splits if_splits)

lemma fx_body_inject: "fx_body be h bs = fx_body be h' bs \<longleftrightarrow> h = h'"
proof (induction "length bs" arbitrary: bs h h' rule: less_induct)
  case less
  then show ?case
    by (cases "8 \<le> length bs") (simp_all add: fx_body_long fx_body_short write_tail_inject)
qed

lemma list_update_neq: "i < length bs \<Longrightarrow> c \<noteq> bs ! i \<Longrightarrow> bs[i := c] \<noteq> bs"
  by (metis nth_list_update_eq)

lemma from_ne_bytes_update:
  assumes "i < k" "k \<le> 8" "k \<le> length bs" "c \<noteq> bs ! i"
  shows "from_ne_bytes be (take k (bs[i := c])) \<noteq> from_ne_bytes be (take k bs)"
  using assms list_update_neq [of i "take k bs" c]
  by (simp add: from_ne_bytes_inject take_update_swap)

text \<open>
  Two hasher states with their remaining input are one byte apart: same hash and one byte of the
  input changed, or different hashes and the same input.  Absorbing a chunk keeps that.
\<close>

definition absorb :: "bool \<Rightarrow> nat \<Rightarrow> FxHasher \<times> bytes \<Rightarrow> FxHasher \<times> bytes" where
  "absorb be k = (\<lambda>(h, r). if k \<le> length r
     then (add_to_hash h (from_ne_bytes be (take k r)), drop k r) else (h, r))"

definition one_apart :: "FxHasher \<times> bytes \<Rightarrow> FxHasher \<times> bytes \<Rightarrow> bool" where
  "one_apart = (\<lambda>(h, r) (h', r'). h \<noteq> h' \<and> r = r'
     \<or> h = h' \<and> (\<exists>i c. i < length r \<and> c \<noteq> r ! i \<and> r' = r[i := c]))"

lemma absorb_one_apart:
  assumes "k \<le> 8" "one_apart s t"
  shows "one_apart (absorb be k s) (absorb be k t)"
proof -
  obtain h r h' r' where st: "s = (h, r)" "t = (h', r')" by fastforce
  show ?thesis
  proof (cases "h = h'")
    case False
    then show ?thesis using assms(2) by (simp add: st one_apart_def absorb_def)
  next
    case True
    then obtain i c where i: "i < length r" "c \<noteq> r ! i" "r' = r[i := c]"
      using assms(2) by (auto simp: st one_apart_def)
    consider "length r < k" | "k \<le> length r" "i < k" | "k \<le> length r" "k \<le> i" by linarith
    then show ?thesis
    proof cases
      case 3
      then show ?thesis
        using i True
        by (auto simp: st one_apart_def absorb_def drop_update_swap intro!: exI [of _ "i - k"] exI [of _ c])
    qed (use i True assms(1) from_ne_bytes_update [of i k r c be] in
        \<open>auto simp: st one_apart_def absorb_def drop_update_cancel\<close>)
  qed
qed

lemma from_ne_bytes_single: "from_ne_bytes be [b] = word_of_nat (of_char b)"
  by (simp add: from_ne_bytes_def)

lemma last_byte_absorb:
  "(case r of [] \<Rightarrow> h | b # _ \<Rightarrow> add_to_hash h (word_of_nat (of_char b))) = fst (absorb be 1 (h, r))"
  by (cases r) (simp_all add: absorb_def from_ne_bytes_single)

lemma write_tail_absorb:
  "write_tail be h bs = fst (absorb be 1 (absorb be 2 (absorb be 4 (h, bs))))"
  unfolding write_tail.simps last_byte_absorb [of _ _ be]
  by (simp add: absorb_def Let_def)

lemma snd_absorb_tail:
  "length bs < 8 \<Longrightarrow> length (snd (absorb be 1 (absorb be 2 (absorb be 4 (h, bs))))) = 0"
  by (auto simp: absorb_def Suc_le_eq)

lemma write_tail_update:
  assumes "i < length bs" "length bs < 8" "c \<noteq> bs ! i"
  shows "write_tail be h (bs[i := c]) \<noteq> write_tail be h bs"
proof -
  have "one_apart (h, bs) (h, bs[i := c])"
    using assms by (auto simp: one_apart_def)
  then have "one_apart (absorb be 1 (absorb be 2 (absorb be 4 (h, bs))))
      (absorb be 1 (absorb be 2 (absorb be 4 (h, bs[i := c]))))"
    by (intro absorb_one_apart) simp_all
  then show ?thesis
    using snd_absorb_tail [of bs be h] assms(2)
    by (simp add: write_tail_absorb one_apart_def split: prod.splits)
qed

lemma fx_body_update:
  assumes "i < length bs" "c \<noteq> bs ! i"
  shows "fx_body be h (bs[i := c]) \<noteq> fx_body be h bs"
  using assms
proof (induction "length bs" arbitrary: bs i h rule: less_induct)
  case less
  consider "length bs < 8" | "8 \<le> length bs" "i < 8" | "8 \<le> length bs" "8 \<le> i"
    by linarith
  then show ?case
  proof cases
    case 1
    then show ?thesis using less.prems by (simp add: fx_body_short write_tail_update)
  next
    case 2
    then show ?thesis
      using from_ne_bytes_update [of i 8 bs c be] less.prems
      by (simp add: fx_body_long fx_body_inject drop_update_cancel)
  next
    case 3
    then show ?thesis
      using less.hyps [of "drop 8 bs" "i - 8"] less.prems
      by (simp add: fx_body_long drop_update_swap)
  qed
qed

lemma fx_write_body: "fx_write be h bs = fx_body be (add_to_hash h (word_of_nat (length bs))) bs"
  by (simp add: fx_write_def fx_body_def Let_def)

text \<open>
  changing any single byte of a key changes its hash, in either byte order; so two route
  hostnames of equal length that differ in one character are never in the same full-hash class.
\<close>

theorem hash_str_single_byte:
  assumes "i < length s" "c \<noteq> s ! i"
  shows "hash_str be (s[i := c]) \<noteq> hash_str be s"
proof
  assume "hash_str be (s[i := c]) = hash_str be s"
  then have "write_u8 (fx_write be fx_default (s[i := c])) 0xff = write_u8 (fx_write be fx_default s) 0xff"
    by (simp add: hash_str_def fx_finish_def hash_eqI)
  then show False
    using fx_body_update [OF assms] by (simp add: write_u8_def fx_write_body)
qed

theorem hash_str_single_byte_witness:
  "hash_str False (''api.a''[4 := CHR ''b'']) \<noteq> hash_str False ''api.a''"
  using hash_str_single_byte [of 4 "''api.a''" "CHR ''b''" False] by simp

end
