(* ===== verification/F64.thy ===== *)
theory F64
  imports Prelude "HOL-Library.Log_Nat"
begin

text \<open>
  The part of Rust's \<open>f64\<close> the program uses: IEEE 754 binary64 on non-negative finite values,
  represented by the rational they denote.  \<open>f64_round\<close> is round to nearest, ties to even, at 53
  significant bits (with the subnormal exponent floor); every arithmetic operation rounds its exact
  result once.  \<open>.round()\<close> rounds half away from zero and \<open>as i64\<close> truncates and saturates.  Values
  in the program stay far below the overflow threshold, which is not modelled.
\<close>

definition f64_exp :: "rat \<Rightarrow> int" where
  "f64_exp q = (let (a, b) = quotient_of q; e = bitlen a - bitlen b
                in if 2 powi e \<le> q then e else e - 1)"

definition round_half_even :: "rat \<Rightarrow> int" where
  "round_half_even q =
     (let f = \<lfloor>q\<rfloor>; d = q - of_int f
      in if d < 1 / 2 then f else if d > 1 / 2 then f + 1 else if even f then f else f + 1)"

definition f64_round :: "rat \<Rightarrow> rat" where
  "f64_round q =
     (if q \<le> 0 then 0
      else let u = 2 powi (max (f64_exp q) (-1022) - 52) in of_int (round_half_even (q / u)) * u)"

definition f64_of_nat :: "nat \<Rightarrow> rat" where
  "f64_of_nat n = f64_round (of_nat n)"

definition f64_mul :: "rat \<Rightarrow> rat \<Rightarrow> rat" where
  "f64_mul a b = f64_round (a * b)"

definition f64_div :: "rat \<Rightarrow> rat \<Rightarrow> rat" where
  "f64_div a b = f64_round (a / b)"

definition f64_add :: "rat \<Rightarrow> rat \<Rightarrow> rat" where
  "f64_add a b = f64_round (a + b)"

definition f64_nearest :: "rat \<Rightarrow> rat" where
  "f64_nearest q = of_int \<lfloor>q + 1 / 2\<rfloor>"

definition f64_to_i64 :: "rat \<Rightarrow> int" where
  "f64_to_i64 q = min \<lfloor>q\<rfloor> (2 ^ 63 - 1)"

definition f64_to_u64 :: "rat \<Rightarrow> nat" where
  "f64_to_u64 q = min (nat \<lfloor>q\<rfloor>) (2 ^ 64 - 1)"

text \<open>\<open>Duration::from_secs_f64\<close>: of a sign and a magnitude, nanoseconds, rounded to nearest; a negative or too large value panics (\<open>None\<close>).\<close>

definition from_secs_f64 :: "bool \<times> rat \<Rightarrow> nat option" where
  "from_secs_f64 = (\<lambda>(neg, v). if neg \<and> 0 < v \<or> 2 ^ 64 \<le> v then None else Some (nat (round_half_even (v * 1000000000))))"

section \<open>Rounding\<close>

lemma powi_two_less: "(2::rat) powi a < 2 powi b \<Longrightarrow> a < b"
  by (metis linorder_not_le one_le_numeral power_int_increasing)

lemma bitlen_bounds_rat:
  assumes "0 < a"
  shows "2 powi (bitlen a - 1) \<le> (of_int a :: rat)" "of_int a < (2 powi bitlen a :: rat)"
proof -
  have pos: "0 < bitlen a"
    using assms bitlen_eq_zero_iff [of a] bitlen_nonneg [of a] by linarith
  have b: "2 ^ nat (bitlen a - 1) \<le> a" "a < 2 ^ nat (bitlen a)"
    using bitlen_bounds [OF assms] by auto
  have "(2 powi (bitlen a - 1) :: rat) = of_int (2 ^ nat (bitlen a - 1))"
    using pos by (simp add: power_int_def)
  also have "\<dots> \<le> of_int a"
    using b(1) by (simp only: of_int_le_iff)
  finally show "2 powi (bitlen a - 1) \<le> (of_int a :: rat)" .
  have "of_int a < (of_int (2 ^ nat (bitlen a)) :: rat)"
    using b(2) by (simp only: of_int_less_iff)
  also have "\<dots> = 2 powi bitlen a"
    using pos by (simp add: power_int_def)
  finally show "of_int a < (2 powi bitlen a :: rat)" .
qed

lemma f64_exp_bounds:
  assumes "0 < q"
  shows "2 powi f64_exp q \<le> q" "q < 2 powi (f64_exp q + 1)"
proof -
  obtain a b where ab: "quotient_of q = (a, b)" by fastforce
  have b: "0 < b" and q: "q = of_int a / of_int b"
    using quotient_of_denom_pos [OF ab] quotient_of_div [OF ab] by simp_all
  have a: "0 < a" using assms b q by (simp add: zero_less_divide_iff)
  define e where "e = bitlen a - bitlen b"
  have lo: "2 powi (e - 1) \<le> q"
  proof -
    have "2 powi (e - 1) * of_int b \<le> (2 powi (e - 1) * 2 powi bitlen b :: rat)"
      using bitlen_bounds_rat (2) [OF b] by simp
    also have "\<dots> = 2 powi (bitlen a - 1)"
      by (simp add: e_def flip: power_int_add)
    also have "\<dots> \<le> of_int a" by (rule bitlen_bounds_rat [OF a])
    finally show ?thesis using b by (simp add: q field_simps)
  qed
  have hi: "q < 2 powi (e + 1)"
  proof -
    have "of_int a < (2 powi bitlen a :: rat)" by (rule bitlen_bounds_rat [OF a])
    also have "\<dots> = 2 powi (e + 1) * 2 powi (bitlen b - 1)"
      by (simp add: e_def flip: power_int_add)
    also have "\<dots> \<le> 2 powi (e + 1) * of_int b"
      using bitlen_bounds_rat (1) [OF b] by simp
    finally show ?thesis using b by (simp add: q field_simps)
  qed
  have "f64_exp q = (if 2 powi e \<le> q then e else e - 1)"
    by (simp add: f64_exp_def ab e_def)
  then show "2 powi f64_exp q \<le> q" "q < 2 powi (f64_exp q + 1)"
    using lo hi by auto
qed

lemma round_half_even_error: "\<bar>of_int (round_half_even q) - q\<bar> \<le> 1 / 2"
proof -
  have "of_int \<lfloor>q\<rfloor> \<le> q" "q < of_int \<lfloor>q\<rfloor> + 1" by linarith+
  then show ?thesis
    unfolding round_half_even_def Let_def abs_le_iff by (auto simp del: of_int_floor_le)
qed

lemma round_half_even_int [simp]: "round_half_even (of_int n) = n"
  by (simp add: round_half_even_def)

lemma round_half_even_nonneg: "0 \<le> q \<Longrightarrow> 0 \<le> round_half_even q"
  by (auto simp: round_half_even_def Let_def)

lemma f64_round_nonneg [simp]: "0 \<le> f64_round q"
  by (auto simp: f64_round_def Let_def intro!: mult_nonneg_nonneg round_half_even_nonneg divide_nonneg_nonneg)

text \<open>Relative error of one rounding in the normal range: half a unit in the last place.\<close>

lemma f64_round_error:
  assumes "2 powi (-1022) \<le> q"
  shows "\<bar>f64_round q - q\<bar> \<le> q / 2 ^ 53"
proof -
  have q: "0 < q" using assms by (rule less_le_trans [rotated]) simp
  note e = f64_exp_bounds [OF q]
  have "2 powi (-1022) < (2 powi (f64_exp q + 1) :: rat)" using assms e(2) by linarith
  then have "-1022 < f64_exp q + 1" by (rule powi_two_less)
  then have max: "max (f64_exp q) (-1022) = f64_exp q" by simp
  define u :: rat where "u = 2 powi (f64_exp q - 52)"
  have u: "0 < u" by (simp add: u_def)
  have "\<bar>f64_round q - q\<bar> = \<bar>of_int (round_half_even (q / u)) - q / u\<bar> * u"
  proof -
    have "f64_round q - q = (of_int (round_half_even (q / u)) - q / u) * u"
      using q u by (simp add: f64_round_def max u_def [symmetric] Let_def left_diff_distrib)
    then show ?thesis using u by (simp add: abs_mult)
  qed
  also have "\<dots> \<le> 1 / 2 * u"
    using round_half_even_error u by (intro mult_right_mono) auto
  also have "\<dots> = 2 powi f64_exp q / 2 ^ 53"
    by (simp add: u_def power_int_diff)
  also have "\<dots> \<le> q / 2 ^ 53" using e(1) by simp
  finally show ?thesis .
qed

text \<open>Dyadic fractions with at most 53 significant bits are represented exactly.\<close>

lemma f64_round_dyadic:
  assumes "n < 2 ^ 53" "k \<le> 1000"
  shows "f64_round (of_nat n / 2 ^ k) = of_nat n / 2 ^ k"
proof (cases "n = 0")
  case False
  define q :: rat where "q = of_nat n / 2 ^ k"
  have "of_nat n < (of_nat (2 ^ 53) :: rat)"
    using assms(1) by (simp only: of_nat_less_iff)
  then have "q < 2 ^ 53 / 2 ^ k" by (simp add: q_def divide_strict_right_mono)
  also have "(2::rat) ^ 53 / 2 ^ k = 2 powi (53 - int k)"
    by (simp add: power_int_diff)
  finally have hi: "q < 2 powi (53 - int k)" .
  have "1 / 2 ^ k \<le> q"
    using False unfolding q_def by (intro divide_right_mono) simp_all
  moreover have "1 / (2::rat) ^ k = 2 powi (- int k)" by (simp add: power_int_minus_divide)
  ultimately have lo: "2 powi (- int k) \<le> q" by simp
  then have q: "0 < q" by (rule less_le_trans [rotated]) simp
  note e = f64_exp_bounds [OF q]
  have "2 powi (- int k) < (2 powi (f64_exp q + 1) :: rat)" using lo e(2) by (rule le_less_trans)
  then have "- int k < f64_exp q + 1" by (rule powi_two_less)
  then have max: "max (f64_exp q) (-1022) = f64_exp q" using assms(2) by simp
  have "2 powi f64_exp q < (2 powi (53 - int k) :: rat)" using e(1) hi by (rule le_less_trans)
  then have "f64_exp q < 53 - int k" by (rule powi_two_less)
  then have exp: "0 \<le> 52 - f64_exp q - int k" by simp
  define u :: rat where "u = 2 powi (f64_exp q - 52)"
  have "q / u = of_nat n * 2 powi (52 - f64_exp q - int k)"
    by (simp add: q_def u_def power_int_diff)
  also have "(2::rat) powi (52 - f64_exp q - int k) = 2 ^ nat (52 - f64_exp q - int k)"
    using exp by (simp add: power_int_def)
  finally have "q / u = of_int (int n * 2 ^ nat (52 - f64_exp q - int k))" by simp
  then have "of_int (round_half_even (q / u)) * u = q / u * u"
    by (simp only: round_half_even_int)
  also have "\<dots> = q" by (simp add: u_def)
  finally have "f64_round q = q"
    using q unfolding f64_round_def u_def Let_def max by simp
  then show ?thesis by (simp add: q_def)
qed (simp add: f64_round_def)

lemma f64_of_nat_exact: "n < 2 ^ 53 \<Longrightarrow> f64_round (of_nat n) = of_nat n"
  using f64_round_dyadic [of n 0] by simp

text \<open>An integer below \<open>2^53\<close> survives a multiplication by \<open>1.0\<close> and the way back.\<close>

lemma f64_int_round_trip:
  assumes "n < 2 ^ 53"
  shows "f64_to_i64 (f64_nearest (f64_mul (f64_of_nat n) 1)) = int n"
proof -
  have "f64_mul (f64_of_nat n) 1 = of_nat n"
    by (simp add: f64_mul_def f64_of_nat_def f64_of_nat_exact [OF assms])
  moreover have "\<lfloor>rat_of_nat n + 1 / 2\<rfloor> = int n" by linarith
  ultimately show ?thesis
    using assms by (simp add: f64_nearest_def f64_to_i64_def)
qed

lemma f64_round_upper:
  assumes "2 powi (-1022) \<le> q"
  shows "f64_round q \<le> q * (1 + 1 / 2 ^ 53)" "q * (1 - 1 / 2 ^ 53) \<le> f64_round q"
proof -
  have "f64_round q - q \<le> q / 2 ^ 53" "q - f64_round q \<le> q / 2 ^ 53"
    using f64_round_error [OF assms] by linarith+
  then show "f64_round q \<le> q * (1 + 1 / 2 ^ 53)" "q * (1 - 1 / 2 ^ 53) \<le> f64_round q"
    by (simp_all add: field_simps)
qed

lemma f64_nearest_le: "of_int (f64_to_i64 (f64_nearest q)) \<le> q + 1 / 2"
proof -
  have "f64_to_i64 (f64_nearest q) \<le> \<lfloor>q + 1 / 2\<rfloor>"
    by (simp add: f64_to_i64_def f64_nearest_def)
  also have "of_int \<lfloor>q + 1 / 2\<rfloor> \<le> q + 1 / 2" by simp
  finally show ?thesis by simp
qed

lemma powi_small: "1 / 2 ^ 64 \<le> q \<Longrightarrow> 2 powi (-1022) \<le> (q :: rat)"
proof -
  assume "1 / 2 ^ 64 \<le> q"
  moreover have "2 powi (-1022) \<le> (2 powi (-64) :: rat)"
    by (rule power_int_increasing) simp_all
  moreover have "(2 powi (-64) :: rat) = 1 / 2 ^ 64"
    by (simp add: power_int_def field_simps)
  ultimately show ?thesis by linarith
qed

section \<open>Rounding is monotone\<close>

lemma round_half_even_mono: "q \<le> r \<Longrightarrow> round_half_even q \<le> round_half_even r"
proof -
  assume le: "q \<le> r"
  have fl: "\<lfloor>q\<rfloor> \<le> \<lfloor>r\<rfloor>" using le by (rule floor_mono)
  have b: "\<lfloor>x\<rfloor> \<le> round_half_even x" "round_half_even x \<le> \<lfloor>x\<rfloor> + 1" for x
    by (simp_all add: round_half_even_def Let_def)
  show ?thesis
  proof (cases "\<lfloor>q\<rfloor> = \<lfloor>r\<rfloor>")
    case True
    then show ?thesis using le by (simp add: round_half_even_def Let_def)
  next
    case False
    then show ?thesis using fl b [of q] b [of r] by linarith
  qed
qed

lemma f64_round_at:
  assumes "0 < q" "E = max (f64_exp q) (-1022)"
  shows "f64_round q = of_int (round_half_even (q / 2 powi (E - 52))) * 2 powi (E - 52)"
    and "f64_round q \<le> 2 powi (E + 1)" and "f64_exp q = E \<Longrightarrow> 2 powi E \<le> f64_round q"
proof -
  define u :: rat where "u = 2 powi (E - 52)"
  have u: "0 < u" by (simp add: u_def)
  show eq: "f64_round q = of_int (round_half_even (q / 2 powi (E - 52))) * 2 powi (E - 52)"
    using assms by (simp add: f64_round_def Let_def)
  have pow: "of_int (2 ^ n) * u = 2 powi (E - 52 + int n)" for n
    by (simp add: u_def power_int_add)
  have p53: "of_int (2 ^ 53) * u = 2 powi (E + 1)" and p52: "of_int (2 ^ 52) * u = 2 powi E"
    using pow [of 53] pow [of 52] by (simp_all add: add.commute)
  have "q < 2 powi (f64_exp q + 1)" using f64_exp_bounds [OF assms(1)] by simp
  also have "\<dots> \<le> 2 powi (E + 1)" using assms(2) by (intro power_int_increasing) simp_all
  also have "\<dots> = of_int (2 ^ 53) * u" by (rule p53 [symmetric])
  finally have "q / u \<le> of_int (2 ^ 53)" using u by (simp add: divide_le_eq)
  from round_half_even_mono [OF this] have "round_half_even (q / u) \<le> 2 ^ 53" by (simp only: round_half_even_int)
  then have "of_int (round_half_even (q / u)) * u \<le> of_int (2 ^ 53) * u"
    using u by (intro mult_right_mono) (simp_all only: of_int_le_iff less_imp_le)
  then show "f64_round q \<le> 2 powi (E + 1)" unfolding eq u_def [symmetric] p53 .
  assume "f64_exp q = E"
  then have "of_int (2 ^ 52) * u \<le> q" using f64_exp_bounds(1) [OF assms(1)] unfolding p52 by simp
  then have "of_int (2 ^ 52) \<le> q / u" using u by (simp add: le_divide_eq)
  from round_half_even_mono [OF this] have "2 ^ 52 \<le> round_half_even (q / u)" by (simp only: round_half_even_int)
  then have "of_int (2 ^ 52) * u \<le> of_int (round_half_even (q / u)) * u"
    using u by (intro mult_right_mono) (simp_all only: of_int_le_iff less_imp_le)
  then show "2 powi E \<le> f64_round q" unfolding eq u_def [symmetric] p52 .
qed

lemma f64_round_mono:
  assumes "q \<le> r"
  shows "f64_round q \<le> f64_round r"
proof (cases "0 < q")
  case True
  then have r: "0 < r" using assms by simp
  define E where "E = max (f64_exp q) (-1022)"
  define E' where "E' = max (f64_exp r) (-1022)"
  have "2 powi f64_exp q < (2 powi (f64_exp r + 1) :: rat)"
    using f64_exp_bounds(1) [OF True] f64_exp_bounds(2) [OF r] assms by linarith
  then have "f64_exp q < f64_exp r + 1" by (rule powi_two_less)
  then have le: "E \<le> E'" by (simp add: E_def E'_def)
  show ?thesis
  proof (cases "E = E'")
    case True
    have "round_half_even (q / 2 powi (E - 52)) \<le> round_half_even (r / 2 powi (E - 52))"
      using assms by (intro round_half_even_mono divide_right_mono) simp_all
    then show ?thesis
      unfolding f64_round_at(1) [OF \<open>0 < q\<close> E_def] f64_round_at(1) [OF r E'_def] True by (simp add: mult_right_mono)
  next
    case False
    with le have lt: "E < E'" by simp
    then have "f64_exp r = E'" by (simp add: E_def E'_def split: if_splits) linarith
    have "f64_round q \<le> 2 powi (E + 1)" by (rule f64_round_at(2) [OF True E_def])
    also have "\<dots> \<le> (2 powi E' :: rat)" using lt by (intro power_int_increasing) simp_all
    also have "\<dots> \<le> f64_round r" by (rule f64_round_at(3) [OF r E'_def \<open>f64_exp r = E'\<close>])
    finally show ?thesis .
  qed
next
  case False
  then have "f64_round q = 0" by (simp add: f64_round_def)
  then show ?thesis by simp
qed

end
