(* ===== verification/Target.thy ===== *)
theory Target
  imports F64 "HOL-Library.Multiset"
begin

text \<open>
  \<open>src/crates/core/src/target.rs\<close>: upstream endpoints and the load-balancing policies.  The group's
  cursor is a 64-bit atomic that wraps; \<open>select\<close> threads the policy through, and yields \<open>None\<close> where
  the code would panic on an index.  Endpoint lists are far shorter than \<open>2^32\<close> entries, so sums of
  \<open>u32\<close> weights in a \<open>u64\<close> and the \<open>i64\<close> credits do not wrap: they are \<open>nat\<close> and \<open>int\<close>, with the bound
  on the credits proved.
\<close>

section \<open>Endpoints\<close>

text \<open>
  The \<open>http::uri::Authority\<close> an address parses to is third-party: represented by its text, produced by
  the parameter \<open>try_from\<close>.  \<open>authority_cell\<close> is the \<open>OnceLock\<close>: empty, or the cached parse.
\<close>

record BackendEndpoint =
  address :: bytes
  weight :: "32 word"
  authority_cell :: "bytes option option"

definition ep_new :: "bytes \<Rightarrow> 32 word \<Rightarrow> BackendEndpoint" where
  "ep_new addr w = \<lparr>address = addr, weight = w, authority_cell = None\<rparr>"

definition ep_authority ::
  "(bytes \<Rightarrow> bytes option) \<Rightarrow> BackendEndpoint \<Rightarrow> bytes option \<times> BackendEndpoint" where
  "ep_authority try_from self =
     (case authority_cell self of
        Some r \<Rightarrow> (r, self)
      | None \<Rightarrow> (let r = try_from (address self) in (r, self\<lparr>authority_cell := Some r\<rparr>)))"

definition ep_socket_addr :: "(bytes \<Rightarrow> 'sa option) \<Rightarrow> BackendEndpoint \<Rightarrow> 'sa option" where
  "ep_socket_addr parse self = parse (address self)"

definition ep_eq :: "BackendEndpoint \<Rightarrow> BackendEndpoint \<Rightarrow> bool" where
  "ep_eq self other = (address self = address other \<and> weight self = weight other)"

section \<open>Policies\<close>

datatype Policy =
  Single BackendEndpoint
| RoundRobin "BackendEndpoint list" usize
| Weighted "BackendEndpoint list" "16 word list" usize

type_synonym TargetGroup = Policy

definition MAX_WEIGHT_TABLE :: nat where
  "MAX_WEIGHT_TABLE = 4096"

text \<open>The inner loop of \<open>expand_weights\<close>: credit every backend and remember the first highest.\<close>

function credit_loop :: "int list \<Rightarrow> int list \<Rightarrow> nat \<Rightarrow> nat \<Rightarrow> int list \<times> nat" where
  "credit_loop scaled current best i =
     (if i < length current then
        (let current' = current[i := current ! i + scaled ! i]
         in credit_loop scaled current' (if current' ! i > current' ! best then i else best) (i + 1))
      else (current, best))"
  by pat_completeness auto
termination
  by (relation "measure (\<lambda>(scaled, current, best, i). length current - i)") auto

declare credit_loop.simps [simp del]

text \<open>\<open>u16::try_from(best).unwrap_or(0)\<close>.\<close>

definition slot_u16 :: "nat \<Rightarrow> 16 word" where
  "slot_u16 best = (if best < 2 ^ 16 then word_of_nat best else 0)"

text \<open>The outer loop, \<open>for _ in 0..total_scaled\<close>, over the credits and the table built so far.\<close>

fun expand_loop :: "int list \<Rightarrow> int \<Rightarrow> nat \<Rightarrow> int list \<Rightarrow> 16 word list \<Rightarrow> 16 word list" where
  "expand_loop scaled total_scaled 0 current table = table"
| "expand_loop scaled total_scaled (Suc k) current table =
     (let (current, best) = credit_loop scaled current 0 0;
          current = current[best := current ! best - total_scaled]
      in expand_loop scaled total_scaled k current (table @ [slot_u16 best]))"

definition weight_scale :: "BackendEndpoint list \<Rightarrow> rat" where
  "weight_scale endpoints =
     (let total = sum_list (map (\<lambda>e. unat (weight e)) endpoints)
      in if total > MAX_WEIGHT_TABLE
         then f64_div (f64_of_nat MAX_WEIGHT_TABLE) (f64_of_nat total)
         else 1)"

definition scaled_weights :: "BackendEndpoint list \<Rightarrow> int list" where
  "scaled_weights endpoints =
     map (\<lambda>e. max (f64_to_i64 (f64_nearest
              (f64_mul (f64_of_nat (unat (weight e))) (weight_scale endpoints)))) 1) endpoints"

definition expand_weights :: "BackendEndpoint list \<Rightarrow> 16 word list" where
  "expand_weights endpoints =
     (let scaled = scaled_weights endpoints;
          total_scaled = sum_list scaled;
          current = replicate (length endpoints) 0
      in expand_loop scaled total_scaled (nat total_scaled) current [])"

definition uniform_weights :: "BackendEndpoint list \<Rightarrow> bool" where
  "uniform_weights endpoints =
     list_all (\<lambda>i. weight (endpoints ! i) = weight (endpoints ! (i + 1))) [0..<length endpoints - 1]"

definition from_endpoints :: "BackendEndpoint list \<Rightarrow> TargetGroup" where
  "from_endpoints endpoints0 =
     (let endpoints = filter (\<lambda>e. weight e > 0) endpoints0
      in case endpoints of
           [] \<Rightarrow> Single (ep_new ''127.0.0.1:80'' 1)
         | [e] \<Rightarrow> Single e
         | _ \<Rightarrow> if uniform_weights endpoints then RoundRobin endpoints 0
                else Weighted endpoints (expand_weights endpoints) 0)"

definition select :: "TargetGroup \<Rightarrow> BackendEndpoint option \<times> TargetGroup" where
  "select self =
     (case self of
        Single ep \<Rightarrow> (Some ep, self)
      | RoundRobin endpoints cursor \<Rightarrow>
          (index_opt endpoints (unat cursor mod length endpoints), RoundRobin endpoints (cursor + 1))
      | Weighted endpoints table cursor \<Rightarrow>
          (Option.bind (index_opt table (unat cursor mod length table))
             (\<lambda>slot. index_opt endpoints (unat slot)), Weighted endpoints table (cursor + 1)))"

definition group_endpoints :: "TargetGroup \<Rightarrow> BackendEndpoint list" where
  "group_endpoints self =
     (case self of Single ep \<Rightarrow> [ep] | RoundRobin endpoints _ \<Rightarrow> endpoints
      | Weighted endpoints _ _ \<Rightarrow> endpoints)"

definition group_len :: "TargetGroup \<Rightarrow> nat" where
  "group_len self = length (group_endpoints self)"

definition group_is_empty :: "TargetGroup \<Rightarrow> bool" where
  "group_is_empty self = False"

section \<open>One credit round\<close>

lemma sum_list_replicate_zero [simp]: "sum_list (replicate n (0::int)) = 0"
  by (induction n) auto

lemma sum_list_update_int:
  "i < length xs \<Longrightarrow> sum_list (xs[i := (x::int)]) = sum_list xs - xs ! i + x"
  by (induction xs arbitrary: i) (auto split: nat.split)

lemma sum_list_map2_add:
  "length xs = length ys \<Longrightarrow> sum_list (map2 (+) xs ys) = sum_list xs + sum_list (ys :: int list)"
  by (induction xs ys rule: list_induct2) auto

text \<open>
  The loop credits the positions from \<open>i\<close> on; the best position it returns holds a maximum of all
  credited values, given that the best so far does.
\<close>

lemma credit_loop_correct:
  assumes "length scaled = length current" "best < length current" "i \<le> length current"
    "i = 0 \<Longrightarrow> best = 0" "0 < i \<Longrightarrow> best < i" "\<And>j. j < i \<Longrightarrow> current ! j \<le> current ! best"
    "credit_loop scaled current best i = (c, b)"
  shows "c = take i current @ map2 (+) (drop i current) (drop i scaled)
    \<and> b < length current \<and> (\<forall>j<length current. c ! j \<le> c ! b)"
  using assms
proof (induction scaled current best i rule: credit_loop.induct)
  case (1 scaled current best i)
  show ?case
  proof (cases "i < length current")
    case True
    define current' where "current' = current[i := current ! i + scaled ! i]"
    define best' where "best' = (if current' ! i > current' ! best then i else best)"
    have len: "length current' = length current" by (simp add: current'_def)
    have run: "credit_loop scaled current' best' (i + 1) = (c, b)"
      using 1(8) True
      by (subst (asm) credit_loop.simps) (simp add: Let_def current'_def best'_def)
    have same: "current' ! j = current ! j" if "j < i" for j
      using that by (simp add: current'_def)
    have max: "current' ! j \<le> current' ! best'" if "j < i + 1" for j
    proof (cases "i = 0")
      case True
      then have "j = 0" "best = 0" using that 1(5) by auto
      then show ?thesis using True by (simp add: best'_def)
    next
      case False
      then have b: "best < i" using 1(6) by simp
      show ?thesis
        using 1(7) [of j] that b same by (cases "j = i") (auto simp: best'_def less_Suc_eq)
    qed
    have best': "best' < i + 1"
      using 1(5,6) by (cases "i = 0") (auto simp: best'_def)
    then have "c = take (i + 1) current' @ map2 (+) (drop (i + 1) current') (drop (i + 1) scaled)
        \<and> b < length current' \<and> (\<forall>j<length current'. c ! j \<le> c ! b)"
      using max run 1(2) True
      by (intro 1(1) [OF True current'_def, folded best'_def]) (auto simp: len)
    moreover have "take (i + 1) current' @ map2 (+) (drop (i + 1) current') (drop (i + 1) scaled)
        = take i current @ map2 (+) (drop i current) (drop i scaled)"
      using True 1(2)
      by (simp add: current'_def take_Suc_conv_app_nth Cons_nth_drop_Suc [symmetric])
    ultimately show ?thesis unfolding len by metis
  next
    case False
    then have "c = current" "b = best" "i = length current"
      using 1(4,8) by (subst (asm) credit_loop.simps, simp)+
    then show ?thesis using 1(3,7) by simp
  qed
qed

lemma credit_round:
  assumes "length scaled = length current" "current \<noteq> []"
    "credit_loop scaled current 0 0 = (c, b)"
  shows "c = map2 (+) current scaled" "b < length current"
    "\<And>j. j < length current \<Longrightarrow> c ! j \<le> c ! b"
  using credit_loop_correct [OF assms(1), of 0 0 c b] assms(2,3) by auto

section \<open>Smooth weighted round robin\<close>

text \<open>The picks of \<open>k\<close> rounds as indices, before they are narrowed to \<open>u16\<close>.\<close>

fun wrr_picks :: "int list \<Rightarrow> int \<Rightarrow> nat \<Rightarrow> int list \<Rightarrow> nat list" where
  "wrr_picks s T 0 cur = []"
| "wrr_picks s T (Suc k) cur =
     (let (c, b) = credit_loop s cur 0 0 in b # wrr_picks s T k (c[b := c ! b - T]))"

lemma expand_loop_picks:
  "expand_loop s T k cur table = table @ map slot_u16 (wrr_picks s T k cur)"
  by (induction s T k cur table rule: expand_loop.induct) (auto split: prod.split)

lemma length_wrr_picks [simp]: "length (wrr_picks s T k cur) = k"
  by (induction s T k cur rule: wrr_picks.induct) (auto split: prod.split)

lemma take_wrr_picks: "k \<le> m \<Longrightarrow> take k (wrr_picks s T m cur) = wrr_picks s T k cur"
proof (induction k arbitrary: m cur)
  case (Suc k)
  then show ?case by (cases m) (auto split: prod.split)
qed simp

text \<open>
  The credits of the code: no backend is ever more than one full table in debt, and debts and
  credits cancel.  A round keeps that.
\<close>

definition credits_ok :: "int list \<Rightarrow> int \<Rightarrow> int list \<Rightarrow> bool" where
  "credits_ok s T cur = (length cur = length s \<and> sum_list cur = 0 \<and> (\<forall>x\<in>set cur. - T < x))"

lemma sum_list_max_pos:
  assumes "0 < sum_list (xs :: int list)" "\<And>j. j < length xs \<Longrightarrow> xs ! j \<le> m"
  shows "0 < m"
proof (rule ccontr)
  assume "\<not> 0 < m"
  then have "x \<le> 0" if "x \<in> set xs" for x
    using assms(2) that by (fastforce simp: in_set_conv_nth)
  then have "sum_list xs \<le> 0"
    by (simp add: sum_list_nonpos)
  then show False using assms(1) by simp
qed

lemma sum_list_ge_length: "\<forall>x\<in>set s. 1 \<le> x \<Longrightarrow> int (length s) \<le> sum_list s"
  by (induction s) auto

lemma sum_list_pos_int:
  assumes "s \<noteq> []" "\<forall>x\<in>set s. (1::int) \<le> x"
  shows "0 < sum_list s"
proof -
  have "0 < int (length s)" using assms(1) by simp
  then show ?thesis using sum_list_ge_length [OF assms(2)] by linarith
qed

lemma credits_ok_round:
  assumes "credits_ok s T cur" "T = sum_list s" "s \<noteq> []" "\<forall>x\<in>set s. 1 \<le> x"
    "credit_loop s cur 0 0 = (c, b)"
  shows "credits_ok s T (c[b := c ! b - T])" "b < length s"
    "\<And>i. i < length s \<Longrightarrow> c[b := c ! b - T] ! i = cur ! i + s ! i - (if i = b then T else 0)"
proof -
  have len: "length s = length cur" "cur \<noteq> []" and sum: "sum_list cur = 0"
    and low: "\<And>i. i < length cur \<Longrightarrow> - T < cur ! i"
    using assms(1,3) by (auto simp: credits_ok_def)
  note r = credit_round [OF len assms(5)]
  have nth: "c ! i = cur ! i + s ! i" if "i < length s" for i
    using that len by (simp add: r(1))
  have sumc: "sum_list c = T"
    using sum_list_map2_add [of cur s] len sum assms(2) by (simp add: r(1))
  have T: "0 < T" using sum_list_pos_int [OF assms(3,4)] assms(2) by simp
  have len_c: "length c = length cur" using len by (simp add: r(1))
  have "0 < c ! b"
    using sum_list_max_pos [of c "c ! b"] r(3) T sumc len_c by simp
  moreover have "- T < c ! i" if "i < length s" for i
  proof -
    have "1 \<le> s ! i" using that assms(4) by simp
    then show ?thesis using low [of i] that len nth [of i] by simp
  qed
  ultimately have "\<forall>x\<in>set (c[b := c ! b - T]). - T < x"
    using len_c len r(2) by (auto simp: all_set_conv_all_nth nth_list_update)
  then show "credits_ok s T (c[b := c ! b - T])"
    using sum_list_update_int [of b c "c ! b - T"] r(2) len_c len sumc
    by (simp add: credits_ok_def)
  show "b < length s" using r(2) len by simp
  show "c[b := c ! b - T] ! i = cur ! i + s ! i - (if i = b then T else 0)" if "i < length s" for i
    using that nth len len_c by (simp add: nth_list_update)
qed

lemma wrr_picks_inv:
  assumes "credits_ok s T cur" "T = sum_list s" "s \<noteq> []" "\<forall>x\<in>set s. 1 \<le> x"
  shows "set (wrr_picks s T k cur) \<subseteq> {..<length s}
    \<and> (\<forall>i<length s. T * int (count_list (wrr_picks s T k cur) i) - int k * s ! i - cur ! i < T)"
  using assms(1)
proof (induction k arbitrary: cur)
  case 0
  then have "- T < cur ! i" if "i < length s" for i
    using that by (auto simp: credits_ok_def)
  then show ?case by (simp add: minus_less_iff)
next
  case (Suc k)
  obtain c b where cb: "credit_loop s cur 0 0 = (c, b)" by fastforce
  note round = credits_ok_round [OF Suc.prems assms(2-4) cb]
  let ?cur = "c[b := c ! b - T]"
  note IH = Suc.IH [OF round(1)]
  have "T * int (count_list (wrr_picks s T (Suc k) cur) i) - int (Suc k) * s ! i - cur ! i < T"
    if "i < length s" for i
  proof -
    have "T * int (count_list (wrr_picks s T k ?cur) i) - int k * s ! i - ?cur ! i < T"
      using IH that by blast
    then show ?thesis
      using round(3) [OF that] cb by (auto simp: algebra_simps split: if_splits)
  qed
  then show ?case
    using IH round(2) cb by auto
qed

lemma sum_le_eq_imp:
  fixes f g :: "nat \<Rightarrow> int"
  assumes "\<And>i. i < n \<Longrightarrow> f i \<le> g i" "(\<Sum>i<n. f i) = (\<Sum>i<n. g i)" "i < n"
  shows "f i = g i"
proof -
  have "(\<Sum>i<n. g i - f i) = 0" using assms(2) by (simp add: sum_subtractf)
  moreover have "\<forall>i\<in>{..<n}. 0 \<le> g i - f i" using assms(1) by simp
  ultimately have "\<forall>i\<in>{..<n}. g i - f i = 0"
    using sum_nonneg_eq_0_iff [of "{..<n}" "\<lambda>i. g i - f i"] by blast
  then show ?thesis using assms(3) by simp
qed

text \<open>The credits the loop starts with.\<close>

lemma credits_ok_init:
  assumes "s \<noteq> []" "\<forall>x\<in>set s. 1 \<le> x"
  shows "credits_ok s (sum_list s) (replicate (length s) 0)"
  using sum_list_pos_int [OF assms] by (simp add: credits_ok_def)

text \<open>After a full table every backend has had exactly its scaled weight.\<close>

lemma wrr_picks_exact:
  assumes "s \<noteq> []" "\<forall>x\<in>set s. 1 \<le> x" "T = sum_list s" "i < length s"
  shows "int (count_list (wrr_picks s T (nat T) (replicate (length s) 0)) i) = s ! i"
proof -
  define p where "p = wrr_picks s T (nat T) (replicate (length s) 0)"
  have T: "0 < T" using sum_list_pos_int [OF assms(1,2)] assms(3) by simp
  have inv: "set p \<subseteq> {..<length s}"
      "\<And>i. i < length s \<Longrightarrow> T * int (count_list p i) - T * s ! i < T"
    using wrr_picks_inv [of s T "replicate (length s) 0" "nat T"] credits_ok_init [OF assms(1,2)] assms T
    by (simp_all add: p_def)
  have le: "int (count_list p i) \<le> s ! i" if "i < length s" for i
  proof -
    have "T * (int (count_list p i) - s ! i) < T * 1"
      using inv(2) [OF that] by (simp add: right_diff_distrib)
    then show ?thesis using T by (simp only: mult_less_cancel_left_pos)
  qed
  have "(\<Sum>i<length s. int (count_list p i)) = int (\<Sum>i<length s. count_list p i)" by simp
  also have "\<dots> = T" using sum_count_set [OF inv(1)] T by (simp add: p_def)
  also have "\<dots> = (\<Sum>i<length s. s ! i)"
    by (simp add: assms(3) sum_list_sum_nth atLeast0LessThan)
  finally have sums: "(\<Sum>i<length s. int (count_list p i)) = (\<Sum>i<length s. s ! i)" .
  have "int (count_list p i) = s ! i"
    by (rule sum_le_eq_imp [OF le sums assms(4)])
  then show ?thesis by (simp only: p_def)
qed

section \<open>The index table\<close>

lemma length_scaled_weights [simp]: "length (scaled_weights eps) = length eps"
  by (simp add: scaled_weights_def)

lemma scaled_weights_ge_1: "\<forall>x\<in>set (scaled_weights eps). 1 \<le> x"
  by (auto simp: scaled_weights_def)

lemma unat_slot_u16: "unat (slot_u16 b) = (if b < 2 ^ 16 then b else 0)"
  by (simp add: slot_u16_def unat_of_nat)

lemma expand_weights_picks:
  "expand_weights eps =
     map slot_u16 (wrr_picks (scaled_weights eps) (sum_list (scaled_weights eps))
       (nat (sum_list (scaled_weights eps))) (replicate (length eps) 0))"
  by (simp add: expand_weights_def expand_loop_picks Let_def)

lemma expand_weights_slots:
  assumes "eps \<noteq> []" "slot \<in> set (expand_weights eps)"
  shows "unat slot < length eps"
proof -
  let ?s = "scaled_weights eps"
  have s: "?s \<noteq> []" using assms(1) by (metis length_0_conv length_scaled_weights)
  have "set (wrr_picks ?s (sum_list ?s) (nat (sum_list ?s)) (replicate (length eps) 0)) \<subseteq> {..<length eps}"
    using wrr_picks_inv [OF credits_ok_init [OF s scaled_weights_ge_1] refl s scaled_weights_ge_1] by simp
  then show ?thesis
    using assms by (auto simp: expand_weights_picks unat_slot_u16)
qed

lemma length_expand_weights: "length (expand_weights eps) = nat (sum_list (scaled_weights eps))"
  by (simp add: expand_weights_picks)

lemma expand_weights_nonempty:
  assumes "eps \<noteq> []"
  shows "expand_weights eps \<noteq> []"
proof -
  have "scaled_weights eps \<noteq> []" using assms by (metis length_0_conv length_scaled_weights)
  then have "0 < sum_list (scaled_weights eps)" by (rule sum_list_pos_int [OF _ scaled_weights_ge_1])
  then show ?thesis using length_expand_weights [of eps] by auto
qed

lemma count_list_map_inj_on:
  "inj_on f (insert x (set xs)) \<Longrightarrow> count_list (map f xs) (f x) = count_list xs x"
  by (induction xs) (auto simp: inj_on_def)

lemma expand_weights_count:
  assumes "i < length eps" "length eps \<le> 2 ^ 16"
  shows "int (count_list (expand_weights eps) (word_of_nat i)) = scaled_weights eps ! i"
proof -
  define s where "s = scaled_weights eps"
  define p where "p = wrr_picks s (sum_list s) (nat (sum_list s)) (replicate (length s) 0)"
  have ne: "s \<noteq> []" and len: "length s = length eps"
    using assms(1) by (auto simp: s_def scaled_weights_def)
  have ge: "\<forall>x\<in>set s. 1 \<le> x" by (simp add: s_def scaled_weights_ge_1)
  have set: "set p \<subseteq> {..<length eps}"
    using wrr_picks_inv [OF credits_ok_init [OF ne ge] refl ne ge] by (simp add: p_def len)
  have slot: "slot_u16 b = word_of_nat b" if "b < length eps" for b
    using that assms(2) by (simp add: slot_u16_def)
  have "inj_on slot_u16 {..<length eps}"
    using assms(2) by (intro inj_on_inverseI [where g = unat]) (simp add: unat_slot_u16)
  then have "inj_on slot_u16 (insert i (set p))"
    using set assms(1) by (rule_tac inj_on_subset) auto
  then have "count_list (map slot_u16 p) (slot_u16 i) = count_list p i"
    by (rule count_list_map_inj_on)
  moreover have "int (count_list p i) = s ! i"
    unfolding p_def using assms(1) len by (intro wrr_picks_exact [OF ne ge refl]) simp
  ultimately show ?thesis
    using slot [OF assms(1)] by (simp add: expand_weights_picks p_def s_def)
qed

lemma expand_weights_prefix:
  assumes "i < length eps" "length eps \<le> 2 ^ 16"
  shows "sum_list (scaled_weights eps) * int (count_list (take k (expand_weights eps)) (word_of_nat i))
      < int k * scaled_weights eps ! i + sum_list (scaled_weights eps)"
proof -
  define s where "s = scaled_weights eps"
  define T where "T = sum_list s"
  define m where "m = min k (nat T)"
  define p where "p = wrr_picks s T m (replicate (length s) 0)"
  have ne: "s \<noteq> []" and len: "length s = length eps"
    using assms(1) by (auto simp: s_def scaled_weights_def)
  have ge: "\<forall>x\<in>set s. 1 \<le> x" by (simp add: s_def scaled_weights_ge_1)
  have p: "set p \<subseteq> {..<length eps}" "T * int (count_list p i) < int m * s ! i + T"
    using wrr_picks_inv [OF credits_ok_init [OF ne ge] refl ne ge, of m] assms(1)
    by (simp_all add: p_def len T_def algebra_simps)
  have "take k (expand_weights eps) = map slot_u16 p"
    by (simp add: expand_weights_picks p_def m_def T_def s_def take_map flip: take_wrr_picks [OF min.cobounded2])
      (metis length_wrr_picks take_all_iff nle_le min_def)
  moreover have "count_list (map slot_u16 p) (slot_u16 i) = count_list p i"
    using p(1) assms by (intro count_list_map_inj_on inj_on_inverseI [where g = unat]) (auto simp: unat_slot_u16)
  moreover have "slot_u16 i = word_of_nat i" using assms by (simp add: slot_u16_def)
  moreover have "int m * s ! i \<le> int k * s ! i"
    using ge assms(1) len by (intro mult_right_mono) (auto simp: m_def dest!: bspec [OF _ nth_mem])
  ultimately show ?thesis using p(2) by (simp add: T_def s_def)
qed

section \<open>Scaling\<close>

lemma unat32_less: "unat (w :: 32 word) < 2 ^ 32"
  using unsigned_less [of w, where 'a = nat] by simp

lemma f64_weight_exact: "f64_of_nat (unat (w :: 32 word)) = of_nat (unat w)"
  unfolding f64_of_nat_def by (rule f64_of_nat_exact) (use unat32_less [of w] in simp)

lemma scaled_weights_exact:
  assumes "sum_list (map (\<lambda>e. unat (weight e)) eps) \<le> MAX_WEIGHT_TABLE" "i < length eps"
    "0 < weight (eps ! i)"
  shows "scaled_weights eps ! i = int (unat (weight (eps ! i)))"
proof -
  let ?n = "unat (weight (eps ! i))"
  have n: "?n < 2 ^ 32" "0 < ?n"
    using unat32_less assms(3) by (simp_all add: unat_gt_0 word_gt_0)
  have "f64_to_i64 (f64_nearest (f64_mul (f64_of_nat ?n) 1)) = int ?n"
    by (rule f64_int_round_trip) (use n in simp)
  moreover have "1 \<le> int ?n" using n(2) by linarith
  ultimately show ?thesis
    using assms by (simp add: scaled_weights_def weight_scale_def)
qed

text \<open>
  A scaled weight is at most its proportional share of 4096 entries plus one, up to the three
  roundings of the \<open>f64\<close> computation.
\<close>

definition total_weight :: "BackendEndpoint list \<Rightarrow> nat" where
  "total_weight eps = sum_list (map (\<lambda>e. unat (weight e)) eps)"

lemma scale_upper:
  assumes "MAX_WEIGHT_TABLE < total_weight eps" "total_weight eps < 2 ^ 64"
  shows "weight_scale eps \<le> 4096 / of_nat (total_weight eps) * (1 + 1 / 2 ^ 51)"
    "1 / 2 ^ 54 \<le> weight_scale eps"
proof -
  define T where "T = rat_of_nat (total_weight eps)"
  define r where "r = f64_of_nat (total_weight eps)"
  define q where "q = 4096 / r"
  have "rat_of_nat (total_weight eps) < of_nat (2 ^ 64)"
    using assms(2) by (simp only: of_nat_less_iff)
  then have T: "4096 < T" "T < 2 ^ 64"
    using assms(1) by (simp_all add: T_def MAX_WEIGHT_TABLE_def)
  have r: "r \<le> T * (1 + 1 / 2 ^ 53)" "T * (1 - 1 / 2 ^ 53) \<le> r"
    using T f64_round_upper [OF powi_small, of T] by (simp_all add: r_def f64_of_nat_def T_def)
  have r0: "4000 < r" "r < 2 ^ 65" using r T by (simp_all add: field_simps)
  have q: "1 / 2 ^ 53 \<le> q" "q \<le> 4096 / (T * (1 - 1 / 2 ^ 53))"
    using r r0 T by (simp_all add: q_def field_simps)
  have scale: "weight_scale eps = f64_round q"
    using assms(1) f64_of_nat_exact [of 4096]
    by (simp add: weight_scale_def total_weight_def f64_div_def q_def r_def f64_of_nat_def
        MAX_WEIGHT_TABLE_def)
  note round = f64_round_upper [OF powi_small, of q]
  have qs: "1 / 2 ^ 64 \<le> q" using q(1) by simp
  have "weight_scale eps \<le> q * (1 + 1 / 2 ^ 53)" using round(1) [OF qs] scale by simp
  also have "\<dots> \<le> 4096 / (T * (1 - 1 / 2 ^ 53)) * (1 + 1 / 2 ^ 53)"
    using q(2) by (intro mult_right_mono) simp_all
  also have "\<dots> \<le> 4096 / T * (1 + 1 / 2 ^ 51)"
    using T(1) by (simp add: field_simps)
  finally show "weight_scale eps \<le> 4096 / of_nat (total_weight eps) * (1 + 1 / 2 ^ 51)"
    by (simp only: T_def)
  have "1 / 2 ^ 54 \<le> q * (1 - 1 / 2 ^ 53)" using q(1) by simp
  then show "1 / 2 ^ 54 \<le> weight_scale eps" using round(2) [OF qs] scale by simp
qed

lemma unat_pos_rat:
  assumes "0 < (w :: 32 word)"
  shows "1 \<le> rat_of_nat (unat w)"
proof -
  have "1 \<le> unat w" using assms by (simp add: word_less_nat_alt)
  then show ?thesis by (simp only: of_nat_le_iff [of 1, unfolded of_nat_1])
qed

lemma scaled_share_upper:
  assumes "MAX_WEIGHT_TABLE < total_weight eps" "total_weight eps < 2 ^ 64" "1 \<le> w"
  shows "f64_round (w * weight_scale eps) \<le> w * (4096 / of_nat (total_weight eps)) * (1 + 1 / 2 ^ 50)"
proof -
  define c where "c = 4096 / rat_of_nat (total_weight eps)"
  define s where "s = weight_scale eps"
  have c: "0 \<le> c" by (simp add: c_def)
  have s: "s \<le> c * (1 + 1 / 2 ^ 51)" "1 / 2 ^ 54 \<le> s"
    using scale_upper [OF assms(1,2)] by (simp_all only: s_def c_def)
  have "1 * (1 / 2 ^ 54) \<le> w * s" using assms(3) s(2) by (intro mult_mono) simp_all
  then have "f64_round (w * s) \<le> w * s * (1 + 1 / 2 ^ 53)"
    by (intro f64_round_upper(1) powi_small) simp
  also have "\<dots> \<le> w * (c * (1 + 1 / 2 ^ 51)) * (1 + 1 / 2 ^ 53)"
    using s(1) assms(3) by (intro mult_right_mono mult_left_mono) simp_all
  also have "\<dots> = w * c * ((1 + 1 / 2 ^ 51) * (1 + 1 / 2 ^ 53))"
    by (simp only: mult.assoc)
  also have "\<dots> \<le> w * c * (1 + 1 / 2 ^ 50)"
    using assms(3) c by (intro mult_left_mono) simp_all
  finally show ?thesis by (simp only: s_def c_def)
qed

lemma scaled_weight_upper:
  assumes "MAX_WEIGHT_TABLE < total_weight eps" "total_weight eps < 2 ^ 64" "0 < weight e"
  shows "of_int (max (f64_to_i64 (f64_nearest (f64_mul (f64_of_nat (unat (weight e))) (weight_scale eps)))) 1)
    \<le> of_nat (unat (weight e)) * (4096 / of_nat (total_weight eps)) * (1 + 1 / 2 ^ 50) + (1 :: rat)"
proof -
  define y where "y = f64_round (of_nat (unat (weight e)) * weight_scale eps)"
  have y: "y \<le> of_nat (unat (weight e)) * (4096 / of_nat (total_weight eps)) * (1 + 1 / 2 ^ 50)"
    unfolding y_def by (rule scaled_share_upper [OF assms(1,2) unat_pos_rat [OF assms(3)]])
  have "of_int (f64_to_i64 (f64_nearest y)) \<le> y + 1 / 2" "0 \<le> y"
    by (simp_all only: f64_nearest_le y_def f64_round_nonneg)
  then have "of_int (max (f64_to_i64 (f64_nearest y)) 1) \<le> y + 1" by (simp add: max_def)
  also have "\<dots> \<le> of_nat (unat (weight e)) * (4096 / of_nat (total_weight eps)) * (1 + 1 / 2 ^ 50) + 1"
    using y by (rule add_right_mono)
  finally show ?thesis by (simp only: y_def f64_mul_def f64_weight_exact)
qed

lemma total_weight_rat:
  "(\<Sum>e\<leftarrow>eps. rat_of_nat (unat (weight e))) = rat_of_nat (total_weight eps)"
  by (induction eps) (simp_all add: total_weight_def)

lemma of_int_sum_list_map: "of_int (sum_list (map f xs)) = (\<Sum>x\<leftarrow>xs. of_int (f x))"
  by (induction xs) simp_all

lemma sum_scaled_upper:
  assumes "MAX_WEIGHT_TABLE < total_weight eps" "total_weight eps < 2 ^ 64" "\<forall>e\<in>set eps. 0 < weight e"
  shows "sum_list (scaled_weights eps) \<le> 4096 + int (length eps)"
proof -
  define k where "k = 4096 / rat_of_nat (total_weight eps) * (1 + 1 / 2 ^ 50)"
  have "rat_of_int (sum_list (scaled_weights eps)) = (\<Sum>e\<leftarrow>eps. of_int (max (f64_to_i64
      (f64_nearest (f64_mul (f64_of_nat (unat (weight e))) (weight_scale eps)))) 1))"
    unfolding scaled_weights_def by (rule of_int_sum_list_map)
  also have "\<dots> \<le> (\<Sum>e\<leftarrow>eps. of_nat (unat (weight e)) * k + 1)"
    using scaled_weight_upper [OF assms(1,2) bspec [OF assms(3)]]
    by (intro sum_list_mono) (simp only: k_def mult.assoc)
  also have "\<dots> = rat_of_nat (total_weight eps) * k + of_nat (length eps)"
    unfolding total_weight_rat [symmetric]
    by (induction eps) (simp_all only: list.map sum_list.Cons sum_list.Nil list.size of_nat_add, simp_all add: algebra_simps)
  also have "\<dots> = 4096 + 4096 / 2 ^ 50 + of_nat (length eps)"
    using assms(1) by (simp add: k_def field_simps)
  also have "\<dots> < of_int (4096 + int (length eps) + 1)" by simp
  finally have "sum_list (scaled_weights eps) < 4096 + int (length eps) + 1" by (simp only: of_int_less_iff)
  then show ?thesis by simp
qed

section \<open>Selection\<close>

lemma mset_rotate1_id [simp]: "mset (rotate1 xs) = mset xs"
  by (cases xs) simp_all

lemma mset_rotate_id [simp]: "mset (rotate n xs) = mset xs"
  by (induction n) simp_all

text \<open>
  What a balancer owes its callers: behind every well-formed group there is a fixed, non-empty
  schedule of endpoints and a position in it; a pick returns the endpoint at the position and moves
  on by one, until the 64-bit cursor wraps.
\<close>

fun pick_run :: "('g \<Rightarrow> 'e option \<times> 'g) \<Rightarrow> nat \<Rightarrow> 'g \<Rightarrow> 'e option list" where
  "pick_run pick 0 g = []"
| "pick_run pick (Suc k) g = (case pick g of (e, g') \<Rightarrow> e # pick_run pick k g')"

locale balancer =
  fixes pick :: "'g \<Rightarrow> 'e option \<times> 'g"
    and ok :: "'g \<Rightarrow> bool"
    and schedule :: "'g \<Rightarrow> 'e list"
    and pos :: "'g \<Rightarrow> nat"
  assumes schedule_nonempty: "ok g \<Longrightarrow> schedule g \<noteq> []"
    and pick_at: "ok g \<Longrightarrow> fst (pick g) = Some (schedule g ! (pos g mod length (schedule g)))"
    and pick_ok: "ok g \<Longrightarrow> ok (snd (pick g))"
    and pick_schedule: "ok g \<Longrightarrow> schedule (snd (pick g)) = schedule g"
    and pick_pos: "ok g \<Longrightarrow> pos g + 1 < 2 ^ 64 \<Longrightarrow>
      pos (snd (pick g)) mod length (schedule g) = (pos g + 1) mod length (schedule g)
      \<and> pos (snd (pick g)) \<le> pos g + 1"
begin

lemma pick_member: "ok g \<Longrightarrow> \<exists>e. fst (pick g) = Some e \<and> e \<in> set (schedule g)"
  using pick_at schedule_nonempty by simp

lemma run_members: "ok g \<Longrightarrow> set (pick_run pick k g) \<subseteq> Some ` set (schedule g)"
proof (induction k arbitrary: g)
  case (Suc k)
  obtain e g' where p: "pick g = (e, g')" by fastforce
  have "ok g'" "schedule g' = schedule g"
    using pick_ok [OF Suc.prems] pick_schedule [OF Suc.prems] p by simp_all
  then show ?case
    using Suc.IH [of g'] pick_member [OF Suc.prems] p by auto
qed simp

lemma run_at:
  assumes "ok g" "pos g + k \<le> 2 ^ 64"
  shows "pick_run pick k g =
    map (\<lambda>j. Some (schedule g ! ((pos g + j) mod length (schedule g)))) [0..<k]"
  using assms
proof (induction k arbitrary: g)
  case (Suc k)
  obtain e g' where p: "pick g = (e, g')" by fastforce
  have g': "ok g'" "schedule g' = schedule g"
    using pick_ok [OF Suc.prems(1)] pick_schedule [OF Suc.prems(1)] p by simp_all
  have e: "e = Some (schedule g ! (pos g mod length (schedule g)))"
    using pick_at [OF Suc.prems(1)] p by simp
  show ?case
  proof (cases "k = 0")
    case True
    then show ?thesis using p e by simp
  next
    case False
    then have "pos g + 1 < 2 ^ 64" using Suc.prems(2) by linarith
    then have pos: "pos g' mod length (schedule g) = (pos g + 1) mod length (schedule g)"
        "pos g' \<le> pos g + 1"
      using pick_pos [OF Suc.prems(1)] p by simp_all
    have "(pos g' + j) mod length (schedule g) = (pos g + 1 + j) mod length (schedule g)" for j
      using pos(1) by (metis mod_add_left_eq)
    then have "pick_run pick k g' =
        map (\<lambda>j. Some (schedule g ! ((pos g + 1 + j) mod length (schedule g)))) [0..<k]"
      using Suc.IH [OF g'(1)] pos(2) Suc.prems(2) g'(2) by simp
    then show ?thesis
      using p e by (simp add: upt_conv_Cons map_Suc_upt [symmetric] del: upt_Suc)
  qed
qed simp

text \<open>Any full turns of the schedule serve every entry exactly as often as the schedule has it.\<close>

lemma map_upt_add: "map f [m..<m + n] = map (\<lambda>j. f (m + j)) [0..<n]"
  by (induction n) simp_all

lemma run_turns:
  assumes "ok g" "pos g + k * length (schedule g) \<le> 2 ^ 64"
  shows "mset (pick_run pick (k * length (schedule g)) g) = repeat_mset k (mset (map Some (schedule g)))"
proof -
  let ?n = "length (schedule g)" and ?f = "\<lambda>j. Some (schedule g ! ((pos g + j) mod length (schedule g)))"
  have turn: "map (\<lambda>j. ?f (m * ?n + j)) [0..<?n] = map Some (rotate (pos g) (schedule g))" for m
  proof (rule nth_equalityI)
    fix j assume "j < length (map (\<lambda>j. ?f (m * ?n + j)) [0..<?n])"
    moreover have "(pos g + (m * ?n + j)) mod ?n = (pos g + j) mod ?n"
      by (metis add.commute add.left_commute mod_mult_self3)
    ultimately show "map (\<lambda>j. ?f (m * ?n + j)) [0..<?n] ! j = map Some (rotate (pos g) (schedule g)) ! j"
      by (simp add: nth_rotate)
  qed simp
  have "mset (map ?f [0..<k * ?n]) = repeat_mset k (mset (map Some (schedule g)))"
  proof (induction k)
    case (Suc k)
    have "[0..<Suc k * ?n] = [0..<k * ?n] @ [k * ?n..<k * ?n + ?n]"
      by (metis add.commute le0 mult_Suc upt_add_eq_append)
    then have "map ?f [0..<Suc k * ?n] = map ?f [0..<k * ?n] @ map Some (rotate (pos g) (schedule g))"
      by (simp only: map_append map_upt_add turn)
    then show ?case using Suc by (simp del: mult_Suc)
  qed simp
  then show ?thesis by (simp only: run_at [OF assms])
qed

end

text \<open>The groups the code builds, their schedule and their position in it.\<close>

definition group_ok :: "TargetGroup \<Rightarrow> bool" where
  "group_ok g = (case g of
      Single ep \<Rightarrow> True
    | RoundRobin eps c \<Rightarrow> eps \<noteq> []
    | Weighted eps table c \<Rightarrow> table \<noteq> [] \<and> (\<forall>slot\<in>set table. unat slot < length eps))"

definition group_schedule :: "TargetGroup \<Rightarrow> BackendEndpoint list" where
  "group_schedule g = (case g of
      Single ep \<Rightarrow> [ep]
    | RoundRobin eps c \<Rightarrow> eps
    | Weighted eps table c \<Rightarrow> map (\<lambda>slot. eps ! unat slot) table)"

definition group_pos :: "TargetGroup \<Rightarrow> nat" where
  "group_pos g = (case g of Single ep \<Rightarrow> 0 | RoundRobin eps c \<Rightarrow> unat c | Weighted eps table c \<Rightarrow> unat c)"

lemmas group_defs = group_ok_def group_schedule_def group_pos_def

lemma unat_inc: "unat c + 1 < 2 ^ 64 \<Longrightarrow> unat (c + 1 :: usize) = unat c + 1"
  by (simp add: unat_word_ariths)

interpretation target: balancer select group_ok group_schedule group_pos
proof
  fix g assume ok: "group_ok g"
  then show "group_schedule g \<noteq> []"
    by (cases g) (simp_all add: group_defs)
  from ok show "fst (select g) = Some (group_schedule g ! (group_pos g mod length (group_schedule g)))"
    by (cases g) (auto simp: group_defs select_def index_opt_def)
  from ok show "group_ok (snd (select g))"
    by (cases g) (simp_all add: group_defs select_def)
  from ok show "group_schedule (snd (select g)) = group_schedule g"
    by (cases g) (simp_all add: group_defs select_def)
  assume "group_pos g + 1 < 2 ^ 64"
  with ok show "group_pos (snd (select g)) mod length (group_schedule g)
      = (group_pos g + 1) mod length (group_schedule g) \<and> group_pos (snd (select g)) \<le> group_pos g + 1"
    using unat_inc by (cases g) (auto simp: group_defs select_def)
qed

lemma from_endpoints_cases:
  fixes es defines "eps \<equiv> filter (\<lambda>e. weight e > 0) es"
  obtains "eps = []" "from_endpoints es = Single (ep_new ''127.0.0.1:80'' 1)"
  | e where "eps = [e]" "from_endpoints es = Single e"
  | "2 \<le> length eps" "uniform_weights eps" "from_endpoints es = RoundRobin eps 0"
  | "2 \<le> length eps" "\<not> uniform_weights eps"
    "from_endpoints es = Weighted eps (expand_weights eps) 0"
proof -
  consider "eps = []" | e where "eps = [e]" | a b r where "eps = a # b # r"
    by (cases eps rule: remdups_adj.cases) auto
  then show ?thesis
    using that by cases (auto simp: from_endpoints_def eps_def [symmetric] Let_def split: if_splits)
qed

lemma from_endpoints_ok: "group_ok (from_endpoints es)"
proof (cases es rule: from_endpoints_cases)
  case 4
  then have "filter (\<lambda>e. weight e > 0) es \<noteq> []" by auto
  then show ?thesis
    using 4 expand_weights_slots expand_weights_nonempty by (auto simp: group_ok_def)
qed (auto simp: group_ok_def)

lemma from_endpoints_schedule:
  "set (group_schedule (from_endpoints es)) \<subseteq>
     (if \<exists>e\<in>set es. weight e > 0 then {e \<in> set es. weight e > 0} else {ep_new ''127.0.0.1:80'' 1})"
proof (cases es rule: from_endpoints_cases)
  case 4
  let ?eps = "filter (\<lambda>e. weight e > 0) es"
  have "?eps \<noteq> []" using 4 by auto
  then have "?eps ! unat slot \<in> set ?eps" if "slot \<in> set (expand_weights ?eps)" for slot
    using expand_weights_slots [OF _ that] by (intro nth_mem)
  then have "set (group_schedule (from_endpoints es)) \<subseteq> set ?eps"
    unfolding 4(3) group_schedule_def by auto
  then show ?thesis by (auto simp: filter_empty_conv)
next
  case 1
  then show ?thesis by (auto simp: group_schedule_def filter_empty_conv)
next
  case (2 e)
  then have "e \<in> set (filter (\<lambda>e. weight e > 0) es)" by simp
  then have "e \<in> set es" "0 < weight e" by (simp_all only: set_filter mem_Collect_eq)
  then show ?thesis using 2 by (auto simp: group_schedule_def)
next
  case 3
  then show ?thesis by (auto simp: group_schedule_def filter_empty_conv)
qed

lemma weights_filter_pos: "\<forall>e\<in>set (filter (\<lambda>e. weight e > 0) es). 0 < weight e"
  by simp

lemma uniform_weights_all:
  assumes "uniform_weights eps" "i < length eps"
  shows "weight (eps ! i) = weight (eps ! 0)"
  using assms(2)
proof (induction i)
  case (Suc i)
  then have "weight (eps ! i) = weight (eps ! (i + 1))"
    using assms(1) by (simp add: uniform_weights_def list_all_length)
  then show ?case using Suc by simp
qed simp

text \<open>The endpoints, each repeated as often as its weight says.\<close>

definition by_weight :: "BackendEndpoint list \<Rightarrow> BackendEndpoint list" where
  "by_weight eps = concat (map (\<lambda>e. replicate (unat (weight e)) e) eps)"

lemma length_by_weight: "length (by_weight eps) = total_weight eps"
  by (induction eps) (simp_all add: by_weight_def total_weight_def)

lemma mset_by_weight:
  "mset (by_weight eps) = (\<Sum>i<length eps. replicate_mset (unat (weight (eps ! i))) (eps ! i))"
proof -
  have "mset (by_weight eps) = sum_list (map (\<lambda>e. replicate_mset (unat (weight e)) e) eps)"
    by (induction eps) (simp_all add: by_weight_def)
  then show ?thesis by (simp add: sum_list_sum_nth atLeast0LessThan)
qed

lemma mset_map_count:
  "set xs \<subseteq> {..<n::nat} \<Longrightarrow> mset (map f xs) = (\<Sum>i<n. replicate_mset (count_list xs i) (f i))"
proof (induction xs)
  case (Cons x xs)
  have "(\<Sum>i<n. replicate_mset (count_list (x # xs) i) (f i))
      = (\<Sum>i<n. replicate_mset (count_list xs i) (f i) + (if i = x then {#f i#} else {#}))"
    by (intro sum.cong) auto
  also have "\<dots> = mset (map f xs) + {#f x#}"
    using Cons by (simp add: sum.distrib)
  finally show ?case by simp
qed simp

lemma weighted_schedule:
  assumes "eps \<noteq> []" "\<forall>e\<in>set eps. 0 < weight e" "total_weight eps \<le> MAX_WEIGHT_TABLE"
  shows "mset (map (\<lambda>slot. eps ! unat slot) (expand_weights eps)) = mset (by_weight eps)"
proof -
  let ?t = "map unat (expand_weights eps)"
  have len: "length eps \<le> total_weight eps"
    using assms(2) by (induction eps) (auto simp: total_weight_def word_less_nat_alt)
  then have n: "length eps \<le> 2 ^ 16" using assms(3) by (simp add: MAX_WEIGHT_TABLE_def)
  have "count_list ?t i = unat (weight (eps ! i))" if i: "i < length eps" for i
  proof -
    have "count_list ?t (unat (word_of_nat i :: 16 word)) = count_list (expand_weights eps) (word_of_nat i)"
      by (rule count_list_map_inj_on) (rule inj_on_inverseI [where g = word_of_nat], simp)
    moreover have "unat (word_of_nat i :: 16 word) = i" using i n by (simp add: unat_of_nat)
    moreover have "int (count_list (expand_weights eps) (word_of_nat i)) = int (unat (weight (eps ! i)))"
      using expand_weights_count [OF i n] scaled_weights_exact [of eps i] assms i
      by (simp add: total_weight_def)
    ultimately show ?thesis by (simp only: of_nat_eq_iff)
  qed
  moreover have "set ?t \<subseteq> {..<length eps}"
    using expand_weights_slots [OF assms(1)] by auto
  ultimately show ?thesis
    using mset_map_count [of ?t "length eps" "\<lambda>i. eps ! i"] by (simp add: mset_by_weight o_def)
qed

lemma length_weighted_schedule:
  assumes "eps \<noteq> []" "\<forall>e\<in>set eps. 0 < weight e" "total_weight eps \<le> MAX_WEIGHT_TABLE"
  shows "length (expand_weights eps) = total_weight eps"
  using arg_cong [OF weighted_schedule [OF assms], of size]
  by (simp add: length_by_weight)

lemma image_repeat_mset: "image_mset f (repeat_mset n A) = repeat_mset n (image_mset f A)"
  by (induction n) simp_all

lemma repeat_mset_sum: "repeat_mset w (\<Sum>i<m. f i) = (\<Sum>i<(m::nat). repeat_mset w (f i))"
  by (induction m) (simp_all add: repeat_mset_distrib2)

text \<open>
  A group whose weights fit the table serves, per \<open>total_weight\<close> picks, a whole number of turns of its
  schedule, and these contain every endpoint as often as its weight says.
\<close>

lemma schedule_by_weight:
  assumes "eps = filter (\<lambda>e. weight e > 0) es" "eps \<noteq> []" "total_weight eps \<le> MAX_WEIGHT_TABLE"
  shows "\<exists>k. k * length (group_schedule (from_endpoints es)) = total_weight eps
    \<and> repeat_mset k (mset (group_schedule (from_endpoints es))) = mset (by_weight eps)"
proof (cases es rule: from_endpoints_cases)
  case (2 e)
  then show ?thesis
    using assms(1)
    by (intro exI [of _ "unat (weight e)"]) (simp add: group_schedule_def total_weight_def by_weight_def)
next
  case 3
  define w where "w = unat (weight (eps ! 0))"
  have w: "unat (weight (eps ! i)) = w" if "i < length eps" for i
    using uniform_weights_all [of eps i] 3 assms(1) that by (simp add: w_def)
  have "mset (by_weight eps) = repeat_mset w (mset eps)"
  proof -
    have "mset (by_weight eps) = (\<Sum>i<length eps. repeat_mset w {#eps ! i#})"
      unfolding mset_by_weight by (intro sum.cong) (simp_all add: w)
    also have "\<dots> = repeat_mset w (\<Sum>i<length eps. {#eps ! i#})"
      by (rule repeat_mset_sum [symmetric])
    also have "(\<Sum>i<length eps. {#eps ! i#}) = mset eps"
      by (simp add: atLeast0LessThan flip: sum_list_sum_nth [of "map (\<lambda>x. {#x#}) eps", simplified])
    finally show ?thesis .
  qed
  moreover have "w * length eps = total_weight eps"
    using arg_cong [OF calculation, of size] length_by_weight [of eps] by simp
  ultimately show ?thesis
    using 3 assms(1) by (intro exI [of _ w]) (simp add: group_schedule_def)
next
  case 4
  then show ?thesis
    using assms weighted_schedule [OF assms(2) _ assms(3)] length_weighted_schedule [OF assms(2) _ assms(3)]
    by (intro exI [of _ 1]) (simp add: group_schedule_def)
qed (use assms in simp)

section \<open>Properties\<close>

text \<open>The group after \<open>m\<close> selections.\<close>

definition after_selects :: "nat \<Rightarrow> TargetGroup \<Rightarrow> TargetGroup" where
  "after_selects m g = ((\<lambda>g. snd (select g)) ^^ m) g"

lemma after_selects_inv:
  assumes "group_ok g" "group_pos g + m < 2 ^ 64"
  shows "group_ok (after_selects m g) \<and> group_schedule (after_selects m g) = group_schedule g
    \<and> group_pos (after_selects m g) \<le> group_pos g + m"
  using assms(2)
proof (induction m)
  case (Suc m)
  let ?g = "after_selects m g"
  have IH: "group_ok ?g" "group_schedule ?g = group_schedule g" "group_pos ?g \<le> group_pos g + m"
    using Suc by auto
  then have "group_pos ?g + 1 < 2 ^ 64" using Suc.prems by linarith
  then show ?case
    using target.pick_ok [OF IH(1)] target.pick_schedule [OF IH(1)] target.pick_pos [OF IH(1)] IH
    by (simp add: after_selects_def)
qed (simp add: after_selects_def assms(1))

lemma from_endpoints_pos: "group_pos (from_endpoints es) = 0"
  by (cases es rule: from_endpoints_cases) (simp_all add: group_pos_def)

text \<open>
  C1: weighted round robin is exact.  When at least one endpoint has a positive weight and the weights
  sum to at most 4096, then after any number \<open>m\<close> of earlier selections the next \<open>total\<close> selections
  serve every endpoint exactly as many times as its weight, whichever policy the group uses; the
  only proviso is that the 64-bit cursor does not wrap in between.
\<close>

theorem select_weighted_fair:
  assumes "eps = filter (\<lambda>e. weight e > 0) es" "eps \<noteq> []"
    "total_weight eps \<le> MAX_WEIGHT_TABLE" "m + total_weight eps < 2 ^ 64"
  shows "mset (pick_run select (total_weight eps) (after_selects m (from_endpoints es)))
    = mset (map Some (by_weight eps))"
proof -
  let ?g = "after_selects m (from_endpoints es)"
  have g: "group_ok ?g" "group_schedule ?g = group_schedule (from_endpoints es)" "group_pos ?g \<le> m"
    using after_selects_inv [OF from_endpoints_ok [of es], of m] assms(4) by (simp_all add: from_endpoints_pos)
  obtain k where k: "k * length (group_schedule ?g) = total_weight eps"
      "repeat_mset k (mset (group_schedule ?g)) = mset (by_weight eps)"
    using schedule_by_weight [OF assms(1-3)] g(2) by auto
  have "mset (pick_run select (total_weight eps) ?g) = repeat_mset k (mset (map Some (group_schedule ?g)))"
    using target.run_turns [OF g(1), of k] g(3) assms(4) by (simp add: k(1))
  also have "\<dots> = image_mset Some (repeat_mset k (mset (group_schedule ?g)))"
    by (simp add: image_repeat_mset)
  finally show ?thesis by (simp add: k(2))
qed

theorem select_weighted_fair_witness:
  "mset (pick_run select 4
      (after_selects 5 (from_endpoints [ep_new ''a:1'' 3, ep_new ''b:1'' 0, ep_new ''c:1'' 1])))
    = mset [Some (ep_new ''a:1'' 3), Some (ep_new ''a:1'' 3), Some (ep_new ''a:1'' 3),
        Some (ep_new ''c:1'' 1)]"
proof -
  let ?es = "[ep_new ''a:1'' 3, ep_new ''b:1'' 0, ep_new ''c:1'' 1]"
  let ?eps = "[ep_new ''a:1'' 3, ep_new ''c:1'' 1]"
  have eps: "?eps = filter (\<lambda>e. weight e > 0) ?es" by code_simp
  have tw: "total_weight ?eps = 4" by code_simp
  have bw: "by_weight ?eps = [ep_new ''a:1'' 3, ep_new ''a:1'' 3, ep_new ''a:1'' 3, ep_new ''c:1'' 1]"
    by code_simp
  show ?thesis
    using select_weighted_fair [OF eps, of 5] unfolding tw bw by (simp add: MAX_WEIGHT_TABLE_def)
qed

text \<open>
  \<open>select\<close> never panics on a group the code builds, and over any run of selections it returns only
  configured endpoints with a positive weight: an endpoint of weight 0 gets no traffic.  When no
  endpoint has a positive weight, it returns the placeholder \<open>127.0.0.1:80\<close>.
\<close>

theorem select_total:
  "set (pick_run select k (from_endpoints es)) \<subseteq>
     Some ` (if \<exists>e\<in>set es. weight e > 0 then {e \<in> set es. weight e > 0}
             else {ep_new ''127.0.0.1:80'' 1})"
  using target.run_members [OF from_endpoints_ok [of es], of k] from_endpoints_schedule [of es]
  by (rule order_trans [OF _ image_mono])

text \<open>
  the table of \<open>expand_weights\<close> has each backend exactly as often as its scaled weight, and is
  smooth: in every prefix of \<open>k\<close> entries a backend with scaled weight \<open>s\<close> out of a total \<open>T\<close> has
  fewer than \<open>k * s / T + 1\<close> entries, so no backend is served in a burst beyond its share.
\<close>

theorem expand_weights_smooth:
  assumes "i < length eps" "length eps \<le> 2 ^ 16"
  shows "int (count_list (expand_weights eps) (word_of_nat i)) = scaled_weights eps ! i
    \<and> sum_list (scaled_weights eps) * int (count_list (take k (expand_weights eps)) (word_of_nat i))
      < int k * scaled_weights eps ! i + sum_list (scaled_weights eps)"
  using expand_weights_count [OF assms] expand_weights_prefix [OF assms] by blast

theorem expand_weights_smooth_witness:
  "int (count_list (expand_weights [ep_new ''a:1'' 3, ep_new ''c:1'' 1]) 1) = 1 \<and>
   int (count_list (take 2 (expand_weights [ep_new ''a:1'' 3, ep_new ''c:1'' 1])) 0) < 3"
proof -
  let ?eps = "[ep_new ''a:1'' 3, ep_new ''c:1'' 1]"
  have s: "scaled_weights ?eps = [3, 1]"
  proof (rule nth_equalityI)
    fix i assume "i < length (scaled_weights ?eps)"
    then have "i = 0 \<or> i = 1" by auto
    moreover have "total_weight ?eps = 4" by code_simp
    ultimately show "scaled_weights ?eps ! i = [3, 1] ! i"
      using scaled_weights_exact [of ?eps i]
      by (auto simp: total_weight_def MAX_WEIGHT_TABLE_def ep_new_def)
  qed simp
  show ?thesis
    using expand_weights_smooth [of 1 ?eps 0] expand_weights_smooth [of 0 ?eps 2] by (simp add: s)
qed

text \<open>
  C36: the table never exceeds 4096 entries by more than one entry per endpoint, whatever the weights
  (their sum must not overflow the \<open>u64\<close> it is kept in).
\<close>

theorem expand_weights_bound:
  assumes "\<forall>e\<in>set eps. 0 < weight e" "total_weight eps < 2 ^ 64"
  shows "length (expand_weights eps) \<le> MAX_WEIGHT_TABLE + length eps"
proof (cases "total_weight eps \<le> MAX_WEIGHT_TABLE")
  case True
  then show ?thesis
    using length_weighted_schedule [OF _ assms(1)]
    by (cases "eps = []") (auto simp: length_expand_weights scaled_weights_def)
next
  case False
  then show ?thesis
    using sum_scaled_upper [OF _ assms(2,1)] by (simp add: length_expand_weights MAX_WEIGHT_TABLE_def)
qed

text \<open>The bound can be passed by the single entry: weights 8191 and 1 take 4097 entries.\<close>

lemma scaled_8191_1: "scaled_weights [ep_new ''a:1'' 8191, ep_new ''b:1'' 1] = [4096, 1]"
proof -
  have nat: "f64_of_nat n = of_nat n" if "n < 2 ^ 53" for n
    unfolding f64_of_nat_def by (rule f64_of_nat_exact [OF that])
  have half: "f64_round (1 / 2) = 1 / 2" "f64_round (8191 / 2) = 8191 / 2"
    using f64_round_dyadic [of 1 1] f64_round_dyadic [of 8191 1] by simp_all
  have ws: "weight_scale [\<lparr>address = ''a:1'', weight = 8191, authority_cell = None\<rparr>,
      \<lparr>address = ''b:1'', weight = 1, authority_cell = None\<rparr>] = 1 / 2"
    by (simp add: weight_scale_def MAX_WEIGHT_TABLE_def f64_div_def nat half)
  show ?thesis
    by (simp add: scaled_weights_def ep_new_def f64_mul_def nat f64_nearest_def f64_to_i64_def ws half)
qed

theorem expand_weights_bound_witness:
  "length (expand_weights [ep_new ''a:1'' 8191, ep_new ''b:1'' 1]) = 4097 \<and>
   length (expand_weights [ep_new ''a:1'' 8191, ep_new ''b:1'' 1]) \<le> MAX_WEIGHT_TABLE + 2"
  using expand_weights_bound [of "[ep_new ''a:1'' 8191, ep_new ''b:1'' 1]"]
  by (simp add: total_weight_def ep_new_def length_expand_weights scaled_8191_1 [unfolded ep_new_def])

end
