(* ===== verification/Rust_Str.thy ===== *)
theory Rust_Str
  imports Prelude
begin

text \<open>
  The functions of Rust's \<open>str\<close> and \<open>[u8]\<close> the program calls, on byte lists.  A \<open>&str\<close> is valid
  UTF-8, so that matching the encoding of a whitespace character at an end of the string is the
  same as testing its first or last \<open>char\<close>.
\<close>

section \<open>Prefixes and suffixes\<close>

abbreviation starts_with :: "bytes \<Rightarrow> bytes \<Rightarrow> bool" where
  "starts_with s p \<equiv> prefix p s"

definition strip_prefix :: "bytes \<Rightarrow> bytes \<Rightarrow> bytes option" where
  "strip_prefix s p = (if prefix p s then Some (drop (length p) s) else None)"

definition strip_suffix :: "bytes \<Rightarrow> bytes \<Rightarrow> bytes option" where
  "strip_suffix s p = (if suffix p s then Some (take (length s - length p) s) else None)"

definition trim_end_matches :: "byte \<Rightarrow> bytes \<Rightarrow> bytes" where
  "trim_end_matches c s = rev (dropWhile (\<lambda>x. x = c) (rev s))"

lemma strip_prefix_Some: "strip_prefix s p = Some r \<longleftrightarrow> s = p @ r"
  by (auto simp: strip_prefix_def prefix_def)

lemma strip_prefix_append [simp]: "strip_prefix (p @ r) p = Some r"
  by (simp add: strip_prefix_Some)

lemma strip_suffix_Some: "strip_suffix s p = Some r \<longleftrightarrow> s = r @ p"
  by (auto simp: strip_suffix_def suffix_def)

lemma trim_end_last: "trim_end_matches c s \<noteq> [] \<Longrightarrow> last (trim_end_matches c s) \<noteq> c"
  unfolding trim_end_matches_def
  by (metis (mono_tags, lifting) hd_dropWhile last_rev rev_is_Nil_conv)

lemma trim_end_prefix: "\<exists>n. s = trim_end_matches c s @ replicate n c"
proof -
  have "s = rev (takeWhile (\<lambda>x. x = c) (rev s) @ dropWhile (\<lambda>x. x = c) (rev s))" by simp
  also have "\<dots> = trim_end_matches c s @ rev (takeWhile (\<lambda>x. x = c) (rev s))"
    by (simp only: rev_append trim_end_matches_def)
  also have "rev (takeWhile (\<lambda>x. x = c) (rev s)) = replicate (length (takeWhile (\<lambda>x. x = c) (rev s))) c"
    by (metis (mono_tags, lifting) length_rev replicate_length_same set_rev set_takeWhileD)
  finally show ?thesis by blast
qed

lemma trim_end_fixed: "s = [] \<or> last s \<noteq> c \<Longrightarrow> trim_end_matches c s = s"
  by (cases s rule: rev_cases) (auto simp: trim_end_matches_def)

lemma trim_end_nil_iff: "trim_end_matches c s = [] \<longleftrightarrow> set s \<subseteq> {c}"
  by (auto simp: trim_end_matches_def)

section \<open>Splitting\<close>

text \<open>\<open>s.split(c)\<close> with a single-byte separator: always at least one field.\<close>

fun split_on :: "byte \<Rightarrow> bytes \<Rightarrow> bytes list" where
  "split_on c [] = [[]]"
| "split_on c (x # xs) =
     (if x = c then [] # split_on c xs
      else case split_on c xs of [] \<Rightarrow> [[x]] | f # fs \<Rightarrow> (x # f) # fs)"

text \<open>\<open>fields.join(sep)\<close>.\<close>

fun join :: "bytes \<Rightarrow> bytes list \<Rightarrow> bytes" where
  "join sep [] = []"
| "join sep [f] = f"
| "join sep (f # g # fs) = f @ sep @ join sep (g # fs)"

lemma split_on_nonempty [simp]: "split_on c s \<noteq> []"
  by (cases s) (auto split: list.split)

lemma join_split_on: "join [c] (split_on c s) = s"
proof (induction s)
  case (Cons x xs)
  show ?case
  proof (cases "split_on c xs")
    case (Cons f fs)
    then show ?thesis using Cons.IH by (cases fs) auto
  qed simp
qed simp

lemma split_on_no_sep: "f \<in> set (split_on c s) \<Longrightarrow> c \<notin> set f"
proof (induction s arbitrary: f)
  case (Cons x xs)
  then show ?case by (cases "split_on c xs") (auto split: if_splits)
qed auto

lemma split_on_absent: "c \<notin> set s \<Longrightarrow> split_on c s = [s]"
  by (induction s) auto

lemma split_on_append: "c \<notin> set a \<Longrightarrow> split_on c (a @ c # b) = a # split_on c b"
  by (induction a) auto

text \<open>\<open>str::lines\<close>, up to a carriage return before a line feed, which it drops.\<close>

definition lines_of :: "bytes \<Rightarrow> bytes list" where
  "lines_of s = (let ls = split_on (CHR 0x0A) s in if last ls = [] then butlast ls else ls)"

section \<open>Trimming\<close>

text \<open>
  \<open>str::trim\<close>: the UTF-8 encodings of the characters with the Unicode property \<open>White_Space\<close>.
\<close>

definition unicode_ws :: "bytes list" where
  "unicode_ws =
     [[CHR 0x09], [CHR 0x0A], [CHR 0x0B], [CHR 0x0C], [CHR 0x0D], [CHR 0x20],
      [CHR 0xC2, CHR 0x85], [CHR 0xC2, CHR 0xA0], [CHR 0xE1, CHR 0x9A, CHR 0x80],
      [CHR 0xE2, CHR 0x80, CHR 0x80], [CHR 0xE2, CHR 0x80, CHR 0x81], [CHR 0xE2, CHR 0x80, CHR 0x82],
      [CHR 0xE2, CHR 0x80, CHR 0x83], [CHR 0xE2, CHR 0x80, CHR 0x84], [CHR 0xE2, CHR 0x80, CHR 0x85],
      [CHR 0xE2, CHR 0x80, CHR 0x86], [CHR 0xE2, CHR 0x80, CHR 0x87], [CHR 0xE2, CHR 0x80, CHR 0x88],
      [CHR 0xE2, CHR 0x80, CHR 0x89], [CHR 0xE2, CHR 0x80, CHR 0x8A], [CHR 0xE2, CHR 0x80, CHR 0xA8],
      [CHR 0xE2, CHR 0x80, CHR 0xA9], [CHR 0xE2, CHR 0x80, CHR 0xAF], [CHR 0xE2, CHR 0x81, CHR 0x9F],
      [CHR 0xE3, CHR 0x80, CHR 0x80]]"

function strip_front :: "bytes list \<Rightarrow> bytes \<Rightarrow> bytes" where
  "strip_front pats s =
     (case find (\<lambda>p. p \<noteq> [] \<and> prefix p s) pats of
        None \<Rightarrow> s
      | Some p \<Rightarrow> strip_front pats (drop (length p) s))"
  by pat_completeness auto
termination
proof (relation "measure (\<lambda>(pats, s). length s)")
  fix pats s p
  assume "find (\<lambda>p. p \<noteq> [] \<and> prefix p s) pats = Some p"
  then have "p \<noteq> []" "prefix p s" by (auto simp: find_Some_iff)
  then show "((pats, drop (length p) s), pats, s) \<in> measure (\<lambda>(pats, s). length s)"
    by (cases p) (auto simp: prefix_def)
qed simp

declare strip_front.simps [simp del]

definition str_trim :: "bytes \<Rightarrow> bytes" where
  "str_trim s = rev (strip_front (map rev unicode_ws) (rev (strip_front unicode_ws s)))"

lemma strip_front_suffix: "suffix (strip_front pats s) s"
proof (induction pats s rule: strip_front.induct)
  case (1 pats s)
  then show ?case
    by (subst strip_front.simps)
      (auto split: option.split intro: suffix_order.trans suffix_drop)
qed

lemma strip_front_none: "(\<And>p. p \<in> set pats \<Longrightarrow> p \<noteq> [] \<Longrightarrow> \<not> prefix p s) \<Longrightarrow> strip_front pats s = s"
  by (subst strip_front.simps) (auto split: option.split simp: find_Some_iff)

lemma set_str_trim: "set (str_trim s) \<subseteq> set s"
proof -
  have "set (strip_front p t) \<subseteq> set t" for p t
    using strip_front_suffix by (rule set_mono_suffix)
  then show ?thesis
    unfolding str_trim_def by (metis dual_order.trans set_rev)
qed

section \<open>Numbers\<close>

definition is_digit :: "byte \<Rightarrow> bool" where
  "is_digit c = (48 \<le> (of_char c :: nat) \<and> (of_char c :: nat) \<le> 57)"

definition digit_val :: "byte \<Rightarrow> nat" where
  "digit_val c = of_char c - 48"

definition digits_val :: "bytes \<Rightarrow> nat" where
  "digits_val s = foldl (\<lambda>n c. 10 * n + digit_val c) 0 s"

text \<open>
  \<open>parse::<uN>\<close>: an optional \<open>+\<close>, at least one digit, nothing else, and a value below \<open>2^N\<close>.
\<close>

definition parse_uint :: "nat \<Rightarrow> bytes \<Rightarrow> nat option" where
  "parse_uint bits s =
     (let ds = (case s of c # cs \<Rightarrow> if c = CHR ''+'' then cs else s | [] \<Rightarrow> [])
      in if ds \<noteq> [] \<and> list_all is_digit ds \<and> digits_val ds < 2 ^ bits
         then Some (digits_val ds) else None)"

text \<open>\<open>n.to_string()\<close>.\<close>

fun show_nat :: "nat \<Rightarrow> bytes" where
  "show_nat n = (if n < 10 then [char_of (48 + n)] else show_nat (n div 10) @ [char_of (48 + n mod 10)])"

declare show_nat.simps [simp del]

lemma digit_char [simp]:
  assumes "d < 10"
  shows "is_digit (char_of (48 + d))" "digit_val (char_of (48 + d)) = d"
  using assms by (simp_all add: is_digit_def digit_val_def)

lemma show_nat_digits: "list_all is_digit (show_nat n) \<and> show_nat n \<noteq> []"
proof (induction n rule: show_nat.induct)
  case (1 n)
  then show ?case by (subst (1 2) show_nat.simps) auto
qed

lemma digits_val_show_nat [simp]: "digits_val (show_nat n) = n"
proof (induction n rule: show_nat.induct)
  case (1 n)
  then show ?case
    by (subst show_nat.simps) (auto simp: digits_val_def)
qed

lemma parse_show_nat: "n < 2 ^ bits \<Longrightarrow> parse_uint bits (show_nat n) = Some n"
proof -
  assume "n < 2 ^ bits"
  moreover obtain c cs where s: "show_nat n = c # cs"
    using show_nat_digits [of n] by (cases "show_nat n") auto
  moreover have "c \<noteq> CHR ''+''"
    using show_nat_digits [of n] s by (auto simp: is_digit_def)
  ultimately show ?thesis
    using show_nat_digits [of n] digits_val_show_nat [of n] by (simp add: parse_uint_def)
qed

section \<open>Byte slices\<close>

text \<open>\<open>u8::is_ascii_whitespace\<close> and \<open>[u8]::trim_ascii\<close>.\<close>

definition is_ascii_ws :: "byte \<Rightarrow> bool" where
  "is_ascii_ws c = (c \<in> set [CHR 0x20, CHR 0x09, CHR 0x0A, CHR 0x0C, CHR 0x0D])"

definition trim_ascii :: "bytes \<Rightarrow> bytes" where
  "trim_ascii s = rev (dropWhile is_ascii_ws (rev (dropWhile is_ascii_ws s)))"

text \<open>
  \<open>memchr::memmem::find\<close> is third-party: a parameter; \<open>memmem_spec\<close> is its documented behaviour, the
  first position at which the needle starts.
\<close>

type_synonym memmem = "bytes \<Rightarrow> bytes \<Rightarrow> nat option"

definition memmem_spec :: "memmem \<Rightarrow> bool" where
  "memmem_spec f = (\<forall>h n. (case f h n of
      None \<Rightarrow> \<forall>i. i \<le> length h \<longrightarrow> \<not> prefix n (drop i h)
    | Some i \<Rightarrow> i + length n \<le> length h \<and> prefix n (drop i h) \<and> (\<forall>j<i. \<not> prefix n (drop j h))))"

fun memmem_scan :: "bytes \<Rightarrow> bytes \<Rightarrow> nat option" where
  "memmem_scan [] n = (if n = [] then Some 0 else None)"
| "memmem_scan (x # xs) n = (if prefix n (x # xs) then Some 0 else map_option Suc (memmem_scan xs n))"

lemma all_le_Suc: "(\<forall>i. i \<le> Suc n \<longrightarrow> Q i) \<longleftrightarrow> Q 0 \<and> (\<forall>i. i \<le> n \<longrightarrow> Q (Suc i))"
  by (metis Suc_le_mono le0 not0_implies_Suc)

lemma memmem_scan_correct:
  "case memmem_scan h n of
      None \<Rightarrow> \<forall>i. i \<le> length h \<longrightarrow> \<not> prefix n (drop i h)
    | Some i \<Rightarrow> i + length n \<le> length h \<and> prefix n (drop i h) \<and> (\<forall>j<i. \<not> prefix n (drop j h))"
proof (induction h)
  case (Cons x xs)
  have shift: "(\<forall>i. i \<le> length (x # xs) \<longrightarrow> P (drop i (x # xs))) \<longleftrightarrow>
      P (x # xs) \<and> (\<forall>i. i \<le> length xs \<longrightarrow> P (drop i xs))" for P
    using all_le_Suc [of "length xs" "\<lambda>i. P (drop i (x # xs))"] by simp
  show ?case
  proof (cases "prefix n (x # xs)")
    case True
    then show ?thesis by (auto dest: prefix_length_le)
  next
    case False
    then show ?thesis
      using Cons shift [of "\<lambda>t. \<not> prefix n t"] by (auto simp: less_Suc_eq_0_disj split: option.splits)
  qed
qed (auto simp: prefix_Nil)

lemma memmem_scan_spec: "memmem_spec memmem_scan"
  using memmem_scan_correct by (simp add: memmem_spec_def)

lemma memmem_spec_scan:
  assumes "memmem_spec f"
  shows "f h n = memmem_scan h n"
proof -
  have f: "case f h n of
      None \<Rightarrow> \<forall>i. i \<le> length h \<longrightarrow> \<not> prefix n (drop i h)
    | Some i \<Rightarrow> i + length n \<le> length h \<and> prefix n (drop i h) \<and> (\<forall>j<i. \<not> prefix n (drop j h))"
    using assms by (simp add: memmem_spec_def)
  note s = memmem_scan_correct [of h n]
  show ?thesis
  proof (cases "f h n")
    case None
    then have none: "\<And>i. i \<le> length h \<Longrightarrow> \<not> prefix n (drop i h)" using f by simp
    show ?thesis
    proof (cases "memmem_scan h n")
      case (Some j)
      then have "j \<le> length h" "prefix n (drop j h)" using s by simp_all
      then show ?thesis using none by blast
    qed (simp add: None)
  next
    case (Some i)
    then have i: "i \<le> length h" "prefix n (drop i h)" "\<And>j. j < i \<Longrightarrow> \<not> prefix n (drop j h)" using f by simp_all
    show ?thesis
    proof (cases "memmem_scan h n")
      case None
      then show ?thesis using s i(1,2) by simp
    next
      case scan: (Some j)
      then have "prefix n (drop j h)" "\<And>k. k < j \<Longrightarrow> \<not> prefix n (drop k h)" using s by simp_all
      then have "i = j" using i(2,3) by (meson linorder_neqE_nat)
      then show ?thesis by (simp add: Some scan)
    qed
  qed
qed

end
