(* ===== verification/Http_Lib.thy ===== *)
theory Http_Lib
  imports Rust_Str
begin

text \<open>
  The \<open>http\<close> crate, a third-party package: its header map is an abstract type \<open>'h\<close> and its
  operations are the fields of the record \<open>http_lib\<close>, an argument of every definition that uses
  them.  Header names and values are represented by their bytes; a \<open>HeaderName\<close> is the lower-case
  text it canonicalises to.  \<open>http_spec\<close> is the documented behaviour the proxy relies on: the map
  keeps, per name, an ordered list of values; \<open>insert\<close> replaces them, \<open>append\<close> adds one, \<open>remove\<close>
  drops them, no operation touches another name and \<open>keys\<close> yields each name that has a value once; names are canonicalised to lower case, and
  \<open>to_str\<close> succeeds exactly on visible ASCII, which \<open>from_str\<close> accepts.  \<open>list_http\<close> is a concrete instance for
  evaluation.
\<close>

record 'h http_lib =
  name_of :: "bytes \<Rightarrow> bytes option"      \<comment> \<open>\<open>HeaderName::from_bytes(..).ok()\<close>\<close>
  value_of :: "bytes \<Rightarrow> bytes option"     \<comment> \<open>\<open>HeaderValue::from_str(..).ok()\<close>\<close>
  to_str :: "bytes \<Rightarrow> bytes option"       \<comment> \<open>\<open>HeaderValue::to_str().ok()\<close>\<close>
  hm_empty :: 'h
  hm_insert :: "bytes \<Rightarrow> bytes \<Rightarrow> 'h \<Rightarrow> 'h"
  hm_append :: "bytes \<Rightarrow> bytes \<Rightarrow> 'h \<Rightarrow> 'h"
  hm_remove :: "bytes \<Rightarrow> 'h \<Rightarrow> 'h"
  hm_get_all :: "'h \<Rightarrow> bytes \<Rightarrow> bytes list"
  hm_keys :: "'h \<Rightarrow> bytes list"

definition hm_get :: "'h http_lib \<Rightarrow> 'h \<Rightarrow> bytes \<Rightarrow> bytes option" where
  "hm_get L h n = (case hm_get_all L h n of [] \<Rightarrow> None | v # _ \<Rightarrow> Some v)"

definition hm_contains :: "'h http_lib \<Rightarrow> 'h \<Rightarrow> bytes \<Rightarrow> bool" where
  "hm_contains L h n = (hm_get_all L h n \<noteq> [])"

text \<open>Token characters of RFC 9110, and visible ASCII.\<close>

definition token_char :: "byte \<Rightarrow> bool" where
  "token_char c = (33 \<le> (of_char c :: nat) \<and> (of_char c :: nat) < 127 \<and> c \<notin> set ''(),/:;<=>?@[]{}'' \<and>
     (of_char c :: nat) \<noteq> 92 \<and> (of_char c :: nat) \<noteq> 34)"

definition visible_char :: "byte \<Rightarrow> bool" where
  "visible_char c = (of_char c = (9::nat) \<or> 32 \<le> (of_char c :: nat) \<and> (of_char c :: nat) < 127)"

definition http_spec :: "'h http_lib \<Rightarrow> bool" where
  "http_spec L =
     ((\<forall>n. hm_get_all L (hm_empty L) n = []) \<and>
      (\<forall>h n v m. hm_get_all L (hm_insert L n v h) m = (if m = n then [v] else hm_get_all L h m)) \<and>
      (\<forall>h n v m. hm_get_all L (hm_append L n v h) m
         = (if m = n then hm_get_all L h m @ [v] else hm_get_all L h m)) \<and>
      (\<forall>h n m. hm_get_all L (hm_remove L n h) m = (if m = n then [] else hm_get_all L h m)) \<and>
      (\<forall>h. distinct (hm_keys L h) \<and> set (hm_keys L h) = {n. hm_get_all L h n \<noteq> []}) \<and>
      (\<forall>s n. name_of L s = Some n \<longrightarrow> n = str_lower s) \<and>
      (\<forall>s v. value_of L s = Some v \<longrightarrow> v = s) \<and>
      (\<forall>s. list_all visible_char s \<longrightarrow> value_of L s = Some s) \<and>
      (\<forall>v. to_str L v = (if list_all visible_char v then Some v else None)))"

lemma http_specD:
  assumes "http_spec L"
  shows "hm_get_all L (hm_empty L) n = []"
    "hm_get_all L (hm_insert L n v h) m = (if m = n then [v] else hm_get_all L h m)"
    "hm_get_all L (hm_append L n v h) m = (if m = n then hm_get_all L h m @ [v] else hm_get_all L h m)"
    "hm_get_all L (hm_remove L n h) m = (if m = n then [] else hm_get_all L h m)"
    "name_of L s = Some n' \<Longrightarrow> n' = str_lower s"
    "value_of L s = Some v' \<Longrightarrow> v' = s"
    "list_all visible_char s \<Longrightarrow> value_of L s = Some s"
    "to_str L v = (if list_all visible_char v then Some v else None)"
    "distinct (hm_keys L h)" "k \<in> set (hm_keys L h) \<longleftrightarrow> hm_get_all L h k \<noteq> []"
  using assms by (simp_all add: http_spec_def)

section \<open>A concrete header map\<close>

definition list_http :: "(bytes \<times> bytes) list http_lib" where
  "list_http =
     \<lparr>name_of = (\<lambda>s. if s \<noteq> [] \<and> list_all token_char s then Some (str_lower s) else None),
      value_of = (\<lambda>s. if list_all visible_char s then Some s else None),
      to_str = (\<lambda>s. if list_all visible_char s then Some s else None),
      hm_empty = [],
      hm_insert = (\<lambda>n v h. filter (\<lambda>e. fst e \<noteq> n) h @ [(n, v)]),
      hm_append = (\<lambda>n v h. h @ [(n, v)]),
      hm_remove = (\<lambda>n h. filter (\<lambda>e. fst e \<noteq> n) h),
      hm_get_all = (\<lambda>h n. map snd (filter (\<lambda>e. fst e = n) h)),
      hm_keys = (\<lambda>h. remdups (map fst h))\<rparr>"

lemma list_http_spec: "http_spec list_http"
proof -
  have "filter (\<lambda>e. fst e = m \<and> fst e \<noteq> n) h = (if m = n then [] else filter (\<lambda>e. fst e = m) h)"
    for m n :: bytes and h :: "(bytes \<times> bytes) list"
    by (auto simp: filter_empty_conv intro: filter_cong)
  then show ?thesis
    by (auto simp: http_spec_def list_http_def conj_commute filter_empty_conv)
qed

end
