(* ===== verification/Route_Filter.thy ===== *)
theory Route_Filter
  imports Http_Lib
begin

text \<open>
  \<open>src/crates/core/src/filter.rs\<close>: header modifiers and URL rewrites.  Modifiers are validated once
  into \<open>Compiled\<close>; the filters of a route are \<open>None\<close> when there is nothing to do.  The lemmas give the
  effect of a pipeline on every header name, and the shape of a rewritten path.
\<close>

datatype HeaderModifier =
  HM_Set bytes bytes
| HM_Add bytes bytes
| HM_Remove bytes

datatype UrlRewrite =
  RW_Prefix bytes bytes
| RW_Exact bytes

datatype Compiled =
  C_Set bytes bytes
| C_Add bytes bytes
| C_Remove bytes

definition compile_modifier :: "'h http_lib \<Rightarrow> HeaderModifier \<Rightarrow> Compiled option" where
  "compile_modifier L modifier =
     (case modifier of
        HM_Set name value \<Rightarrow> do { n \<leftarrow> name_of L name; v \<leftarrow> value_of L value; Some (C_Set n v) }
      | HM_Add name value \<Rightarrow> do { n \<leftarrow> name_of L name; v \<leftarrow> value_of L value; Some (C_Add n v) }
      | HM_Remove name \<Rightarrow> do { n \<leftarrow> name_of L name; Some (C_Remove n) })"

definition apply_compiled :: "'h http_lib \<Rightarrow> Compiled \<Rightarrow> 'h \<Rightarrow> 'h" where
  "apply_compiled L self headers =
     (case self of
        C_Set n v \<Rightarrow> hm_insert L n v headers
      | C_Add n v \<Rightarrow> hm_append L n v headers
      | C_Remove n \<Rightarrow> hm_remove L n headers)"

record Pipeline =
  request_headers :: "Compiled list"
  response_headers :: "Compiled list"
  url_rewrite :: "UrlRewrite option"

type_synonym RouteFilters = "Pipeline option"

definition compile_all :: "'h http_lib \<Rightarrow> HeaderModifier list \<Rightarrow> Compiled list" where
  "compile_all L mods = List.map_filter (compile_modifier L) mods"

definition filters_new ::
  "'h http_lib \<Rightarrow> HeaderModifier list \<Rightarrow> HeaderModifier list \<Rightarrow> UrlRewrite option \<Rightarrow> RouteFilters" where
  "filters_new L request response rewrite =
     (let req = compile_all L request; resp = compile_all L response
      in if req = [] \<and> resp = [] \<and> rewrite = None then None
         else Some \<lparr>request_headers = req, response_headers = resp, url_rewrite = rewrite\<rparr>)"

definition is_noop :: "RouteFilters \<Rightarrow> bool" where
  "is_noop self = (self = None)"

definition rewrites_path :: "RouteFilters \<Rightarrow> bool" where
  "rewrites_path self = (case self of None \<Rightarrow> False | Some p \<Rightarrow> url_rewrite p \<noteq> None)"

definition apply_request_headers :: "'h http_lib \<Rightarrow> RouteFilters \<Rightarrow> 'h \<Rightarrow> 'h" where
  "apply_request_headers L self headers =
     (case self of None \<Rightarrow> headers | Some p \<Rightarrow> fold (apply_compiled L) (request_headers p) headers)"

definition apply_response_headers :: "'h http_lib \<Rightarrow> RouteFilters \<Rightarrow> 'h \<Rightarrow> 'h" where
  "apply_response_headers L self headers =
     (case self of None \<Rightarrow> headers | Some p \<Rightarrow> fold (apply_compiled L) (response_headers p) headers)"

definition rewrite_prefix :: "bytes \<Rightarrow> bytes \<Rightarrow> bytes" where
  "rewrite_prefix replacement rest =
     (let out = trim_end_matches (CHR ''/'') replacement;
          out = (if rest = [] then (if out = [] then out @ ''/'' else out)
                 else (if \<not> starts_with rest ''/'' then out @ ''/'' else out) @ rest)
      in if out = [] then out @ ''/'' else out)"

definition apply_url_rewrite :: "RouteFilters \<Rightarrow> bytes \<Rightarrow> bytes" where
  "apply_url_rewrite self path =
     (case Option.bind self url_rewrite of
        None \<Rightarrow> path
      | Some (RW_Exact exact) \<Rightarrow> exact
      | Some (RW_Prefix pfx replacement) \<Rightarrow>
          (case strip_prefix path pfx of
             Some rest \<Rightarrow> rewrite_prefix replacement rest
           | None \<Rightarrow> path))"

section \<open>Header modifiers\<close>

text \<open>
  What one modifier means for the values of the header \<open>n\<close>: names are case-insensitive, and a
  modifier whose name or value is not valid is dropped.
\<close>

fun modify_values :: "'h http_lib \<Rightarrow> bytes \<Rightarrow> HeaderModifier \<Rightarrow> bytes list \<Rightarrow> bytes list" where
  "modify_values L n (HM_Set name value) vs =
     (if name_of L name \<noteq> None \<and> value_of L value \<noteq> None \<and> str_lower name = n then [value] else vs)"
| "modify_values L n (HM_Add name value) vs =
     (if name_of L name \<noteq> None \<and> value_of L value \<noteq> None \<and> str_lower name = n then vs @ [value] else vs)"
| "modify_values L n (HM_Remove name) vs =
     (if name_of L name \<noteq> None \<and> str_lower name = n then [] else vs)"

lemma apply_compiled_values:
  assumes "http_spec L"
  shows "hm_get_all L (case compile_modifier L m of None \<Rightarrow> h | Some c \<Rightarrow> apply_compiled L c h) n
    = modify_values L n m (hm_get_all L h n)"
  using http_specD [OF assms]
  by (cases m) (auto simp: compile_modifier_def apply_compiled_def split: option.splits bind_splits)

lemma fold_compile_all:
  "fold (apply_compiled L) (compile_all L ms) h
    = fold (\<lambda>m h. case compile_modifier L m of None \<Rightarrow> h | Some c \<Rightarrow> apply_compiled L c h) ms h"
  by (induction ms arbitrary: h) (auto simp: compile_all_def List.map_filter_def split: option.splits)

lemma apply_all_values:
  assumes "http_spec L"
  shows "hm_get_all L (fold (apply_compiled L) (compile_all L ms) h) n
    = fold (modify_values L n) ms (hm_get_all L h n)"
  unfolding fold_compile_all
  by (induction ms arbitrary: h) (simp_all add: apply_compiled_values [OF assms])

lemma filters_new_request:
  "apply_request_headers L (filters_new L req resp rw) h = fold (apply_compiled L) (compile_all L req) h"
  by (simp add: apply_request_headers_def filters_new_def Let_def)

lemma filters_new_response:
  "apply_response_headers L (filters_new L req resp rw) h = fold (apply_compiled L) (compile_all L resp) h"
  by (simp add: apply_response_headers_def filters_new_def Let_def)

text \<open>
  C18: applying a compiled filter pipeline refines applying the control-plane modifiers one by one, in
  order, to the values of every header name, for requests and responses alike: \<open>Set\<close> replaces, \<open>Add\<close>
  appends, \<open>Remove\<close> drops, an invalid modifier does nothing, and no other name is touched.
\<close>

theorem filters_refine_modifiers:
  assumes "http_spec L"
  shows "hm_get_all L (apply_request_headers L (filters_new L req resp rw) h) n
      = fold (modify_values L n) req (hm_get_all L h n)
    \<and> hm_get_all L (apply_response_headers L (filters_new L req resp rw) h) n
      = fold (modify_values L n) resp (hm_get_all L h n)"
  by (simp_all add: filters_new_request filters_new_response apply_all_values [OF assms])

theorem filters_refine_modifiers_witness:
  "http_spec list_http \<and>
   hm_get_all list_http (apply_request_headers list_http
     (filters_new list_http [HM_Set ''X-A'' ''1'', HM_Add ''x-a'' ''2'', HM_Set ''bad name'' ''3''] [] None)
     [(''x-a'', ''0'')]) ''x-a'' = [''1'', ''2'']"
proof -
  have "fold (modify_values list_http ''x-a'')
      [HM_Set ''X-A'' ''1'', HM_Add ''x-a'' ''2'', HM_Set ''bad name'' ''3'']
      (hm_get_all list_http [(''x-a'', ''0'')] ''x-a'') = [''1'', ''2'']"
    by code_simp
  then show ?thesis
    using filters_refine_modifiers [OF list_http_spec] list_http_spec by metis
qed

section \<open>URL rewrites\<close>

definition no_double_slash :: "bytes \<Rightarrow> bool" where
  "no_double_slash s = (\<not> sublist ''//'' s)"

lemma no_double_slash_Cons:
  "no_double_slash (x # xs) \<longleftrightarrow> no_double_slash xs \<and> \<not> (x = CHR ''/'' \<and> prefix ''/'' xs)"
  by (auto simp: no_double_slash_def sublist_Cons_right)

lemma no_double_slash_append:
  assumes "no_double_slash r" "no_double_slash s" "r = [] \<or> last r \<noteq> CHR ''/''"
  shows "no_double_slash (r @ s)"
  using assms
proof (induction r)
  case (Cons x r)
  then show ?case by (cases r) (auto simp: no_double_slash_Cons)
qed simp

lemma no_double_slash_prefix: "no_double_slash (r @ s) \<Longrightarrow> no_double_slash r"
  unfolding no_double_slash_def sublist_def by (metis append.assoc)

lemma rewrite_prefix_alt:
  "rewrite_prefix replacement rest = trim_end_matches (CHR ''/'') replacement @
     (if rest = [] then (if trim_end_matches (CHR ''/'') replacement = [] then ''/'' else [])
      else if starts_with rest ''/'' then rest else CHR ''/'' # rest)"
  by (simp add: rewrite_prefix_def Let_def)

lemma rewrite_prefix_no_double_slash:
  assumes "no_double_slash replacement" "no_double_slash rest"
  shows "no_double_slash (rewrite_prefix replacement rest)"
proof -
  let ?r = "trim_end_matches (CHR ''/'') replacement"
  have "no_double_slash ?r"
    using assms(1) trim_end_prefix [of replacement] no_double_slash_prefix by metis
  moreover have "?r = [] \<or> last ?r \<noteq> CHR ''/''"
    using trim_end_last by blast
  moreover have "no_double_slash ''/''" "no_double_slash []"
    by (simp_all add: no_double_slash_def sublist_Cons_right)
  ultimately show ?thesis
    unfolding rewrite_prefix_alt
    using assms(2) by (intro no_double_slash_append) (auto simp: no_double_slash_Cons)
qed

lemma rewrite_prefix_absolute:
  assumes "replacement = [] \<or> starts_with replacement ''/''"
  shows "starts_with (rewrite_prefix replacement rest) ''/''"
proof -
  let ?r = "trim_end_matches (CHR ''/'') replacement"
  obtain n where n: "replacement = ?r @ replicate n (CHR ''/'')" using trim_end_prefix by blast
  have "?r = [] \<or> starts_with ?r ''/''"
    using assms n by (cases "?r") auto
  then show ?thesis by (auto simp: rewrite_prefix_alt prefix_def)
qed

lemma rewrite_prefix_suffix: "rest \<noteq> [] \<Longrightarrow> suffix rest (rewrite_prefix replacement rest)"
  by (simp add: rewrite_prefix_alt suffix_def)



end
