(* ===== verification/Proxy_Hygiene.thy ===== *)
theory Proxy_Hygiene
  imports Http_Lib
begin

text \<open>
  \<open>src/crates/core/src/proxy.rs\<close>: hop-by-hop header removal and the \<open>X-Forwarded-*\<close> headers, shared
  by the data planes.  A peer address enters as its \<open>Display\<close> text.
\<close>

definition CONNECTION :: bytes where
  "CONNECTION = ''connection''"

definition FORWARDED_FOR :: bytes where
  "FORWARDED_FOR = ''x-forwarded-for''"

definition FORWARDED_PROTO :: bytes where
  "FORWARDED_PROTO = ''x-forwarded-proto''"

definition HOP_BY_HOP :: "bytes list" where
  "HOP_BY_HOP = [''keep-alive'', ''proxy-authenticate'', ''proxy-authorization'', ''proxy-connection'',
     ''te'', ''trailer'', ''upgrade'']"

definition nominated_from_value :: "'h http_lib \<Rightarrow> bytes \<Rightarrow> bytes list" where
  "nominated_from_value L value =
     List.map_filter (name_of L)
       (filter (\<lambda>token. token \<noteq> [] \<and> \<not> eq_icase token ''close'' \<and> \<not> eq_icase token ''keep-alive'')
          (map str_trim (split_on (CHR '','') value)))"

definition connection_nominated :: "'h http_lib \<Rightarrow> 'h \<Rightarrow> bytes list" where
  "connection_nominated L headers =
     concat (map (\<lambda>value. case to_str L value of None \<Rightarrow> [] | Some text \<Rightarrow> nominated_from_value L text)
       (hm_get_all L headers CONNECTION))"

definition strip_hop_by_hop :: "'h http_lib \<Rightarrow> 'h \<Rightarrow> 'h" where
  "strip_hop_by_hop L headers =
     (let nominated = connection_nominated L headers;
          headers = hm_remove L CONNECTION headers;
          headers = fold (hm_remove L) HOP_BY_HOP headers
      in fold (hm_remove L) nominated headers)"

definition append_forwarded_for :: "'h http_lib \<Rightarrow> bytes \<Rightarrow> 'h \<Rightarrow> 'h" where
  "append_forwarded_for L peer headers =
     (let chain = (case Option.bind (hm_get L headers FORWARDED_FOR) (to_str L) of
                     Some existing \<Rightarrow> existing @ '', '' | None \<Rightarrow> []) @ peer
      in case value_of L chain of
           Some value \<Rightarrow> hm_insert L FORWARDED_FOR value headers
         | None \<Rightarrow> headers)"

definition set_forwarded_proto :: "'h http_lib \<Rightarrow> bytes \<Rightarrow> 'h \<Rightarrow> 'h" where
  "set_forwarded_proto L proto headers = hm_insert L FORWARDED_PROTO proto headers"

section \<open>What is removed\<close>

text \<open>The names a request nominates, as the RFC has them: tokens of a \<open>Connection\<close> value.\<close>

definition nominates :: "'h http_lib \<Rightarrow> 'h \<Rightarrow> bytes \<Rightarrow> bool" where
  "nominates L h n = (\<exists>v\<in>set (hm_get_all L h CONNECTION). \<exists>t\<in>set (split_on (CHR '','') v).
     to_str L v \<noteq> None \<and> name_of L (str_trim t) = Some n \<and> str_trim t \<noteq> [] \<and>
     n \<noteq> ''close'' \<and> n \<noteq> ''keep-alive'')"

lemma fold_remove_values:
  assumes "http_spec L"
  shows "hm_get_all L (fold (hm_remove L) ns h) n = (if n \<in> set ns then [] else hm_get_all L h n)"
  by (induction ns arbitrary: h) (auto simp: http_specD [OF assms])

lemma eq_icase_close: "eq_icase t ''close'' \<longleftrightarrow> str_lower t = ''close''"
  "eq_icase t ''keep-alive'' \<longleftrightarrow> str_lower t = ''keep-alive''"
  by (simp_all add: eq_icase_lower byte_simps)

lemma map_filter_set: "x \<in> set (List.map_filter f xs) \<longleftrightarrow> (\<exists>y\<in>set xs. f y = Some x)"
  by (induction xs) (auto simp: List.map_filter_simps split: option.splits)

lemma nominated_from_value_iff:
  assumes "http_spec L"
  shows "n \<in> set (nominated_from_value L v) \<longleftrightarrow> (\<exists>t\<in>set (split_on (CHR '','') v).
     name_of L (str_trim t) = Some n \<and> str_trim t \<noteq> [] \<and> n \<noteq> ''close'' \<and> n \<noteq> ''keep-alive'')"
  unfolding nominated_from_value_def map_filter_set eq_icase_close
  using http_specD(5) [OF assms] by auto

lemma connection_nominated_iff:
  assumes "http_spec L"
  shows "n \<in> set (connection_nominated L h) \<longleftrightarrow> nominates L h n"
  unfolding connection_nominated_def nominates_def http_specD(8) [OF assms]
  by (simp add: nominated_from_value_iff [OF assms] if_distrib [of "case_option _ _"] cong: if_cong)
    blast

lemma strip_hop_by_hop_values:
  assumes "http_spec L"
  shows "hm_get_all L (strip_hop_by_hop L h) n =
    (if n = CONNECTION \<or> n \<in> set HOP_BY_HOP \<or> nominates L h n then [] else hm_get_all L h n)"
  by (simp add: strip_hop_by_hop_def Let_def fold_remove_values [OF assms] http_specD [OF assms]
      connection_nominated_iff [OF assms])

section \<open>Properties\<close>

text \<open>
  C6: \<open>strip_hop_by_hop\<close> removes exactly \<open>Connection\<close>, the seven fixed hop-by-hop headers and the
  headers nominated by a \<open>Connection\<close> value, keeps the values of every other header in order
  (\<open>Transfer-Encoding\<close> included, unless nominated), and stripping twice is the same as once.
\<close>

theorem strip_hop_by_hop_correct:
  assumes "http_spec L"
  shows "hm_get_all L (strip_hop_by_hop L h) n =
      (if n = CONNECTION \<or> n \<in> set HOP_BY_HOP \<or> nominates L h n then [] else hm_get_all L h n)
    \<and> hm_get_all L (strip_hop_by_hop L (strip_hop_by_hop L h)) n = hm_get_all L (strip_hop_by_hop L h) n"
proof -
  have "\<not> nominates L (strip_hop_by_hop L h) n"
    by (simp add: nominates_def strip_hop_by_hop_values [OF assms])
  then show ?thesis by (simp add: strip_hop_by_hop_values [OF assms])
qed

theorem strip_hop_by_hop_correct_witness:
  "http_spec list_http \<and>
   hm_get_all list_http (strip_hop_by_hop list_http
     [(''connection'', ''close, X-Trace''), (''x-trace'', ''1''), (''te'', ''gzip''), (''host'', ''a'')]) ''x-trace'' = [] \<and>
   hm_get_all list_http (strip_hop_by_hop list_http
     [(''connection'', ''close, X-Trace''), (''x-trace'', ''1''), (''te'', ''gzip''), (''host'', ''a'')]) ''host'' = [''a'']"
proof -
  let ?h = "[(''connection'', ''close, X-Trace''), (''x-trace'', ''1''), (''te'', ''gzip''), (''host'', ''a'')]"
  have "''x-trace'' \<in> set (connection_nominated list_http ?h)"
    "''host'' \<notin> set (connection_nominated list_http ?h)" "hm_get_all list_http ?h ''host'' = [''a'']"
    by code_simp+
  then have "nominates list_http ?h ''x-trace''" "\<not> nominates list_http ?h ''host''"
    "hm_get_all list_http ?h ''host'' = [''a'']"
    by (simp_all only: connection_nominated_iff [OF list_http_spec] simp_thms)
  note facts = this
  have "hm_get_all list_http (strip_hop_by_hop list_http ?h) ''x-trace'' = []"
    using strip_hop_by_hop_correct [OF list_http_spec, of ?h "''x-trace''"] facts
    by (simp only: simp_thms if_True)
  moreover have "''host'' \<noteq> CONNECTION" "''host'' \<notin> set HOP_BY_HOP" by code_simp+
  then have "hm_get_all list_http (strip_hop_by_hop list_http ?h) ''host'' = [''a'']"
    using strip_hop_by_hop_correct [OF list_http_spec, of ?h "''host''"] facts
    by (simp only: simp_thms if_False)
  ultimately show ?thesis using list_http_spec by blast
qed

lemma append_forwarded_for_values:
  assumes "http_spec L" "list_all visible_char peer"
  shows "hm_get_all L (append_forwarded_for L peer h) n =
    (if n = FORWARDED_FOR then
       [(case hm_get_all L h FORWARDED_FOR of
           [] \<Rightarrow> []
         | v # _ \<Rightarrow> if list_all visible_char v then v @ '', '' else []) @ peer]
     else hm_get_all L h n)"
proof -
  have "list_all visible_char '', ''" by code_simp
  then have "value_of L (v @ '', '' @ peer) = Some (v @ '', '' @ peer)" if "list_all visible_char v" for v
    using that assms(2) by (intro http_specD(7) [OF assms(1)]) (simp only: list_all_append simp_thms)
  then show ?thesis
    using http_specD(7) [OF assms(1,2)]
    by (auto simp: append_forwarded_for_def hm_get_def http_specD(2,8) [OF assms(1)] split: list.split)
qed

text \<open>
  \<open>append_forwarded_for\<close> leaves one \<open>X-Forwarded-For\<close> value: the first value there was, when it is
  visible ASCII, then the peer; and it touches no other header.  A request with several
  \<open>X-Forwarded-For\<close> lines keeps only the first of them.
\<close>

theorem append_forwarded_for_correct:
  assumes "http_spec L" "list_all visible_char peer"
  shows "hm_get_all L (append_forwarded_for L peer h) n =
    (if n = FORWARDED_FOR then
       [(case hm_get_all L h FORWARDED_FOR of
           [] \<Rightarrow> []
         | v # _ \<Rightarrow> if list_all visible_char v then v @ '', '' else []) @ peer]
     else hm_get_all L h n)"
  by (rule append_forwarded_for_values [OF assms])

theorem append_forwarded_for_correct_witness:
  "http_spec list_http \<and>
   hm_get_all list_http (append_forwarded_for list_http ''10.0.0.9''
     [(''x-forwarded-for'', ''1.1.1.1''), (''x-forwarded-for'', ''2.2.2.2'')]) FORWARDED_FOR
   = [''1.1.1.1, 10.0.0.9'']"
proof -
  let ?h = "[(''x-forwarded-for'', ''1.1.1.1''), (''x-forwarded-for'', ''2.2.2.2'')]"
  have v: "list_all visible_char ''10.0.0.9''" "list_all visible_char ''1.1.1.1''" by code_simp+
  have h: "hm_get_all list_http ?h FORWARDED_FOR = [''1.1.1.1'', ''2.2.2.2'']" by code_simp
  show ?thesis
    using append_forwarded_for_correct [OF list_http_spec v(1), of ?h FORWARDED_FOR] v(2) list_http_spec
    unfolding h by simp
qed

end
