(* ===== verification/Route_Table.thy ===== *)
theory Route_Table
  imports Simd Target Route_Filter
begin

text \<open>
  \<open>src/crates/core/src/route_table.rs\<close>: the compiled routing table, its lookup, and the builder.  A
  \<open>FxHashMap\<close> is an association list with distinct keys.  The \<open>matchit\<close> router is third-party: an
  abstract type \<open>'r\<close> with the operations of the record \<open>router_lib\<close>; \<open>router_spec\<close> is its documented
  behaviour on the patterns this code produces.  A \<open>TargetGroup\<close> is behind an \<open>Arc\<close>: a table owns the
  list \<open>groups\<close> of its groups and an action holds an index into it, so that the patterns of one route
  share one cursor as they do in the code.
\<close>

section \<open>The matchit router\<close>

record ('r, 'a) router_lib =
  r_new :: 'r
  r_insert :: "'r \<Rightarrow> bytes \<Rightarrow> 'a \<Rightarrow> bool \<times> 'r"   \<comment> \<open>\<open>Router::insert\<close>: whether it was accepted\<close>
  r_at :: "'r \<Rightarrow> bytes \<Rightarrow> 'a option"             \<comment> \<open>\<open>Router::at(..).ok().map(|m| m.value)\<close>\<close>

section \<open>Data\<close>

definition MAX_HOST_LEN :: nat where
  "MAX_HOST_LEN = 256"

record RouteAction =
  target_group :: nat
  filters :: RouteFilters
  route_name :: bytes

record 'r RouteTable =
  exact_hosts :: "(bytes \<times> 'r) list"
  wildcard_hosts :: "(bytes \<times> 'r) list"
  default_router :: 'r
  route_count :: nat
  groups :: "TargetGroup list"

datatype PathMatch = PM_Prefix | PM_Exact

record RouteSpec =
  spec_hostname :: "bytes option"
  spec_path :: bytes
  spec_match :: PathMatch
  spec_endpoints :: "BackendEndpoint list"
  spec_filters :: RouteFilters
  spec_name :: bytes

record RouteTableBuilder =
  b_exact :: "(bytes \<times> (bytes \<times> RouteAction) list) list"
  b_wildcard :: "(bytes \<times> (bytes \<times> RouteAction) list) list"
  b_default :: "(bytes \<times> RouteAction) list"
  b_count :: nat
  b_groups :: "TargetGroup list"

section \<open>Lookup\<close>

definition table_empty :: "('r, RouteAction) router_lib \<Rightarrow> 'r RouteTable" where
  "table_empty R = \<lparr>exact_hosts = [], wildcard_hosts = [], default_router = r_new R,
     route_count = 0, groups = []\<rparr>"

definition host_at :: "('r, RouteAction) router_lib \<Rightarrow> 'r \<Rightarrow> bytes \<Rightarrow> RouteAction option" where
  "host_at R hr path = r_at R hr path"

function wildcard_walk ::
  "memchr \<Rightarrow> ('r, RouteAction) router_lib \<Rightarrow> (bytes \<times> 'r) list \<Rightarrow> bytes \<Rightarrow> bytes \<Rightarrow> RouteAction option" where
  "wildcard_walk memchr R wildcard current clean_path =
     (case find_byte memchr (CHR ''.'') current of
        None \<Rightarrow> None
      | Some dot \<Rightarrow>
          (let suffix = drop dot current
           in case Option.bind (map_of wildcard suffix) (\<lambda>hr. host_at R hr clean_path) of
                Some action \<Rightarrow> Some action
              | None \<Rightarrow> if length suffix \<le> 1 then None
                        else wildcard_walk memchr R wildcard (drop 1 suffix) clean_path))"
  by pat_completeness auto
termination
  by (relation "measure (\<lambda>(m, R, w, current, p). length current)") auto

declare wildcard_walk.simps [simp del]

definition normalize_host :: "memchr \<Rightarrow> arch \<Rightarrow> bytes \<Rightarrow> bytes" where
  "normalize_host memchr arch raw_host =
     (let stripped = host_without_port memchr raw_host
      in case lowercase_ascii_into arch stripped (replicate MAX_HOST_LEN (CHR 0x00)) of
           Some buf \<Rightarrow> buf
         | None \<Rightarrow> stripped)"

definition lookup ::
  "memchr \<Rightarrow> arch \<Rightarrow> ('r, RouteAction) router_lib \<Rightarrow> 'r RouteTable \<Rightarrow> bytes option \<Rightarrow> bytes \<Rightarrow> RouteAction option" where
  "lookup memchr arch R self host path =
     (let clean_path = (if path = [] then ''/'' else path);
          by_host = (case host of
             None \<Rightarrow> None
           | Some raw_host \<Rightarrow>
               (let normalized = normalize_host memchr arch raw_host
                in case Option.bind (map_of (exact_hosts self) normalized) (\<lambda>hr. host_at R hr clean_path) of
                     Some action \<Rightarrow> Some action
                   | None \<Rightarrow> if wildcard_hosts self \<noteq> []
                             then wildcard_walk memchr R (wildcard_hosts self) normalized clean_path
                             else None))
      in case by_host of
           Some action \<Rightarrow> Some action
         | None \<Rightarrow> host_at R (default_router self) clean_path)"

definition table_len :: "'r RouteTable \<Rightarrow> nat" where
  "table_len self = route_count self"

definition table_is_empty :: "'r RouteTable \<Rightarrow> bool" where
  "table_is_empty self = (route_count self = 0)"

text \<open>The caller's \<open>action.target_group.select()\<close>: it moves the cursor of the shared group.\<close>

definition action_select ::
  "'r RouteTable \<Rightarrow> RouteAction \<Rightarrow> BackendEndpoint option \<times> 'r RouteTable" where
  "action_select self action =
     (case index_opt (groups self) (target_group action) of
        None \<Rightarrow> (None, self)
      | Some g \<Rightarrow> (case select g of (e, g') \<Rightarrow>
          (e, self\<lparr>groups := (groups self)[target_group action := g']\<rparr>)))"

section \<open>The shared table\<close>

text \<open>\<open>ArcSwap\<close>: a cell holding the active table, replaced as a whole.\<close>

record 'r SharedRouteTable =
  inner :: "'r RouteTable"

definition shared_new :: "('r, RouteAction) router_lib \<Rightarrow> 'r SharedRouteTable" where
  "shared_new R = \<lparr>inner = table_empty R\<rparr>"

definition shared_from_table :: "'r RouteTable \<Rightarrow> 'r SharedRouteTable" where
  "shared_from_table table = \<lparr>inner = table\<rparr>"

definition shared_load :: "'r SharedRouteTable \<Rightarrow> 'r RouteTable" where
  "shared_load self = inner self"

definition shared_load_full :: "'r SharedRouteTable \<Rightarrow> 'r RouteTable" where
  "shared_load_full self = inner self"

definition shared_store :: "'r RouteTable \<Rightarrow> 'r SharedRouteTable \<Rightarrow> 'r SharedRouteTable" where
  "shared_store new_table self = self\<lparr>inner := new_table\<rparr>"

definition shared_store_arc :: "'r RouteTable \<Rightarrow> 'r SharedRouteTable \<Rightarrow> 'r SharedRouteTable" where
  "shared_store_arc new_table self = self\<lparr>inner := new_table\<rparr>"

section \<open>The builder\<close>

definition expand_pattern :: "bytes \<Rightarrow> PathMatch \<Rightarrow> bytes list" where
  "expand_pattern path kind =
     (let (base, forced_prefix) =
        (if path = ''/*'' then (''/'', True)
         else case (case strip_suffix path ''/*catchall'' of
                      Some s \<Rightarrow> Some s
                    | None \<Rightarrow> (case strip_suffix path ''/*path'' of
                                 Some s \<Rightarrow> Some s
                               | None \<Rightarrow> strip_suffix path ''/*'')) of
                Some stripped \<Rightarrow> (if stripped = [] then ''/'' else stripped, True)
              | None \<Rightarrow> (path, False));
          base = (if base = [] then ''/'' else base)
      in if kind = PM_Exact \<and> \<not> forced_prefix then [base]
         else (let trimmed = trim_end_matches (CHR ''/'') base
               in if trimmed = [] then [''/'', ''/{*catchall}'']
                  else [trimmed, trimmed @ ''/'', trimmed @ ''/{*catchall}'']))"

definition builder_new :: RouteTableBuilder where
  "builder_new = \<lparr>b_exact = [], b_wildcard = [], b_default = [], b_count = 0, b_groups = []\<rparr>"

text \<open>\<open>map.entry(k).or_default().push(v)\<close>.\<close>

fun entry_push :: "'k \<Rightarrow> 'v \<Rightarrow> ('k \<times> 'v list) list \<Rightarrow> ('k \<times> 'v list) list" where
  "entry_push k v [] = [(k, [v])]"
| "entry_push k v ((k', vs) # m) = (if k = k' then (k', vs @ [v]) # m else (k', vs) # entry_push k v m)"

definition add_pattern ::
  "bytes option \<Rightarrow> RouteAction \<Rightarrow> bytes \<Rightarrow> RouteTableBuilder \<Rightarrow> RouteTableBuilder" where
  "add_pattern hostname action pattern self =
     (case hostname of
        None \<Rightarrow> self\<lparr>b_default := b_default self @ [(pattern, action)]\<rparr>
      | Some h \<Rightarrow>
          if h = ''*'' then self\<lparr>b_default := b_default self @ [(pattern, action)]\<rparr>
          else if starts_with h ''*.'' then
            self\<lparr>b_wildcard := entry_push (str_lower (drop 1 h)) (pattern, action) (b_wildcard self)\<rparr>
          else self\<lparr>b_exact := entry_push (str_lower h) (pattern, action) (b_exact self)\<rparr>)"

definition builder_add :: "RouteSpec \<Rightarrow> RouteTableBuilder \<Rightarrow> RouteTableBuilder" where
  "builder_add spec self =
     (let patterns = expand_pattern (spec_path spec) (spec_match spec);
          group = from_endpoints (spec_endpoints spec);
          action = \<lparr>target_group = length (b_groups self), filters = spec_filters spec,
                    route_name = spec_name spec\<rparr>;
          self = self\<lparr>b_groups := b_groups self @ [group]\<rparr>;
          self = fold (add_pattern (spec_hostname spec) action) patterns self
      in self\<lparr>b_count := b_count self + 1\<rparr>)"

definition add_route ::
  "bytes option \<Rightarrow> bytes \<Rightarrow> BackendEndpoint list \<Rightarrow> RouteFilters \<Rightarrow> bytes \<Rightarrow> RouteTableBuilder \<Rightarrow> RouteTableBuilder" where
  "add_route hostname path_pattern endpoints fs name self =
     builder_add \<lparr>spec_hostname = hostname, spec_path = path_pattern, spec_match = PM_Prefix,
       spec_endpoints = endpoints, spec_filters = fs, spec_name = name\<rparr> self"

definition compile_routes :: "('r, RouteAction) router_lib \<Rightarrow> (bytes \<times> RouteAction) list \<Rightarrow> 'r" where
  "compile_routes R routes = fold (\<lambda>(pattern, action) router. snd (r_insert R router pattern action)) routes (r_new R)"

text \<open>\<open>build\<close> has the type of a fallible function and never fails: a rejected pattern is skipped.\<close>

definition builder_build :: "('r, RouteAction) router_lib \<Rightarrow> RouteTableBuilder \<Rightarrow> unit + 'r RouteTable" where
  "builder_build R self =
     Inr \<lparr>exact_hosts = map (\<lambda>(host, routes). (host, compile_routes R routes)) (b_exact self),
          wildcard_hosts = map (\<lambda>(suffix, routes). (suffix, compile_routes R routes)) (b_wildcard self),
          default_router = compile_routes R (b_default self),
          route_count = b_count self, groups = b_groups self\<rparr>"

section \<open>The router's documented behaviour\<close>

text \<open>
  A pattern without braces matches itself; \<open>q/{*catchall}\<close> matches \<open>q/rest\<close> for a non-empty \<open>rest\<close>;
  a static match wins over a catch-all and a longer static prefix over a shorter one; a pattern that
  is already there is refused.  \<open>held\<close> gives the patterns a router holds.
\<close>

definition plain :: "bytes \<Rightarrow> bool" where
  "plain s = (CHR ''{'' \<notin> set s \<and> CHR ''}'' \<notin> set s)"

definition pattern_ok :: "bytes \<Rightarrow> bool" where
  "pattern_ok p = (plain p \<or> (\<exists>q. plain q \<and> p = q @ ''/{*catchall}''))"

text \<open>The proper prefixes of a path that end before a slash with something after it, longest first.\<close>

definition parents :: "bytes \<Rightarrow> bytes list" where
  "parents path = map (\<lambda>k. take k path)
     (rev (filter (\<lambda>k. path ! k = CHR ''/'' \<and> k + 1 < length path) [0..<length path]))"

definition pattern_at :: "(bytes \<rightharpoonup> 'a) \<Rightarrow> bytes \<Rightarrow> 'a option" where
  "pattern_at m path =
     (case (if plain path then m path else None) of
        Some v \<Rightarrow> Some v
      | None \<Rightarrow> first_some (map (\<lambda>q. m (q @ ''/{*catchall}'')) (parents path)))"

definition router_spec :: "('r, 'a) router_lib \<Rightarrow> ('r \<Rightarrow> (bytes \<times> 'a) list) \<Rightarrow> bool" where
  "router_spec R held =
     (held (r_new R) = [] \<and>
      (\<forall>r p v. pattern_ok p \<longrightarrow>
         fst (r_insert R r p v) = (p \<notin> fst ` set (held r)) \<and>
         held (snd (r_insert R r p v)) = (if p \<in> fst ` set (held r) then held r else held r @ [(p, v)])) \<and>
      (\<forall>r path. (\<forall>p\<in>fst ` set (held r). pattern_ok p) \<longrightarrow> r_at R r path = pattern_at (map_of (held r)) path))"

definition list_router :: "((bytes \<times> 'a) list, 'a) router_lib" where
  "list_router =
     \<lparr>r_new = [],
      r_insert = (\<lambda>r p v. if p \<in> fst ` set r then (False, r) else (True, r @ [(p, v)])),
      r_at = (\<lambda>r path. pattern_at (map_of r) path)\<rparr>"

lemma list_router_spec: "router_spec list_router (\<lambda>r. r)"
  by (simp add: router_spec_def list_router_def)

lemma map_of_snoc: "p \<notin> fst ` set xs \<Longrightarrow> map_of (xs @ [(p, v)]) = (map_of xs)(p \<mapsto> v)"
  by (rule ext) (force simp: map_add_def split: option.split dest!: map_of_SomeD)

lemma compile_fold_abs:
  assumes "router_spec R held" "\<forall>(p, a)\<in>set routes. pattern_ok p" "\<forall>p\<in>fst ` set (held r). pattern_ok p"
  shows "(\<forall>p\<in>fst ` set (held (fold (\<lambda>(p, a) r. snd (r_insert R r p a)) routes r)). pattern_ok p) \<and>
    map_of (held (fold (\<lambda>(p, a) r. snd (r_insert R r p a)) routes r)) = map_of routes ++ map_of (held r)"
  using assms(2,3)
proof (induction routes arbitrary: r)
  case (Cons pa routes)
  obtain p a where pa: "pa = (p, a)" by fastforce
  let ?r = "snd (r_insert R r p a)"
  have held_r: "held ?r = (if p \<in> fst ` set (held r) then held r else held r @ [(p, a)])"
    using assms(1) Cons.prems(1) pa by (simp add: router_spec_def)
  have m: "map_of (held ?r) = [p \<mapsto> a] ++ map_of (held r)"
  proof (cases "p \<in> fst ` set (held r)")
    case True
    then obtain b where "map_of (held r) p = Some b" by (metis map_of_eq_None_iff not_Some_eq)
    then have "[p \<mapsto> a] ++ map_of (held r) = map_of (held r)"
      by (intro ext) (simp add: map_add_def split: option.split)
    then show ?thesis using True by (simp add: held_r)
  next
    case False
    then show ?thesis
      by (simp add: held_r)
  qed
  have "\<forall>q\<in>fst ` set (held ?r). pattern_ok q" using Cons.prems pa by (auto simp: held_r)
  then have "(\<forall>q\<in>fst ` set (held (fold (\<lambda>(p, a) r. snd (r_insert R r p a)) routes ?r)). pattern_ok q) \<and>
    map_of (held (fold (\<lambda>(p, a) r. snd (r_insert R r p a)) routes ?r)) = map_of routes ++ map_of (held ?r)"
    using Cons.prems(1) by (intro Cons.IH) simp_all
  moreover have "map_of routes ++ map_of (held ?r) = map_of (pa # routes) ++ map_of (held r)"
    unfolding m pa by (simp add: map_add_assoc)
  ultimately show ?case by (simp add: pa fun_upd_def)
qed simp

lemma compile_routes_at:
  assumes "router_spec R held" "\<forall>(p, a)\<in>set routes. pattern_ok p"
  shows "r_at R (compile_routes R routes) path = pattern_at (map_of routes) path"
  using compile_fold_abs [OF assms, of "r_new R"] assms(1)
  by (simp add: compile_routes_def router_spec_def)

lemma pattern_at_empty [simp]: "pattern_at Map.empty path = None"
  by (simp add: pattern_at_def first_some_None)

section \<open>Precedence\<close>

text \<open>The suffixes of a host that start with a dot, longest first.\<close>

fun dot_suffixes :: "bytes \<Rightarrow> bytes list" where
  "dot_suffixes [] = []"
| "dot_suffixes (c # cs) = (if c = CHR ''.'' then [c # cs] else []) @ dot_suffixes cs"

lemma dot_suffixes_iff: "s \<in> set (dot_suffixes h) \<longleftrightarrow> suffix s h \<and> starts_with s ''.''"
  by (induction h) (auto simp: suffix_Cons prefix_Cons)

lemma dot_suffixes_sorted: "sorted_wrt (\<lambda>a b. length b < length a) (dot_suffixes h)"
  by (induction h) (auto simp: dot_suffixes_iff less_Suc_eq_le dest: suffix_length_le)

lemma dot_suffixes_absent: "CHR ''.'' \<notin> set h \<Longrightarrow> dot_suffixes h = []"
  by (induction h) auto

lemma dot_suffixes_dropWhile:
  "CHR ''.'' \<in> set h \<Longrightarrow> dropWhile (\<lambda>c. c \<noteq> CHR ''.'') h = CHR ''.'' # r \<Longrightarrow>
     dot_suffixes h = (CHR ''.'' # r) # dot_suffixes r"
  by (induction h) (auto split: if_splits)

lemma drop_takeWhile_length: "drop (length (takeWhile P xs)) xs = dropWhile P xs"
  by (metis append_eq_conv_conj takeWhile_dropWhile_id)

lemma dropWhile_Cons_ex: "x \<in> set xs \<Longrightarrow> \<exists>r. dropWhile (\<lambda>c. c \<noteq> x) xs = x # r"
  by (induction xs) auto

lemma find_dot:
  assumes "memchr_spec m"
  shows "find_byte m (CHR ''.'') h = (if CHR ''.'' \<in> set h
    then Some (length (takeWhile (\<lambda>c. c \<noteq> CHR ''.'') h)) else None)"
  by (simp only: find_byte_def memchr_spec_scan [OF assms] memchr_scan_takeWhile)

lemma wildcard_walk_absent:
  assumes "memchr_spec m" "CHR ''.'' \<notin> set current"
  shows "wildcard_walk m R w current p = None"
  by (subst wildcard_walk.simps) (simp add: find_dot [OF assms(1)] assms(2))

lemma wildcard_walk_dot:
  assumes "memchr_spec m" "CHR ''.'' \<in> set current"
    "dropWhile (\<lambda>c. c \<noteq> CHR ''.'') current = CHR ''.'' # r"
  shows "wildcard_walk m R w current p =
    (case Option.bind (map_of w (CHR ''.'' # r)) (\<lambda>hr. host_at R hr p) of
       Some action \<Rightarrow> Some action | None \<Rightarrow> wildcard_walk m R w r p)"
proof -
  have "wildcard_walk m R w current p =
    (case Option.bind (map_of w (CHR ''.'' # r)) (\<lambda>hr. host_at R hr p) of
       Some action \<Rightarrow> Some action
     | None \<Rightarrow> if length (CHR ''.'' # r) \<le> 1 then None else wildcard_walk m R w (drop 1 (CHR ''.'' # r)) p)"
    by (subst wildcard_walk.simps)
      (simp only: find_dot [OF assms(1)] assms(2) if_True option.case Let_def drop_takeWhile_length assms(3))
  moreover have "r = [] \<Longrightarrow> wildcard_walk m R w r p = None"
    by (rule wildcard_walk_absent [OF assms(1)]) simp
  ultimately show ?thesis by (cases r) (simp_all split: option.split)
qed

lemma wildcard_walk_suffixes:
  assumes "memchr_spec m"
  shows "wildcard_walk m R w current p =
    first_some (map (\<lambda>s. Option.bind (map_of w s) (\<lambda>hr. host_at R hr p)) (dot_suffixes current))"
proof (induction "length current" arbitrary: current rule: less_induct)
  case less
  show ?case
  proof (cases "CHR ''.'' \<in> set current")
    case False
    then show ?thesis
      by (simp add: wildcard_walk_absent [OF assms] dot_suffixes_absent)
  next
    case True
    from dropWhile_Cons_ex [OF True] obtain r
      where r: "dropWhile (\<lambda>c. c \<noteq> CHR ''.'') current = CHR ''.'' # r" ..
    have "length r < length current"
      using length_dropWhile_le [of "\<lambda>c. c \<noteq> CHR ''.''" current] r by simp
    then have IH: "wildcard_walk m R w r p =
        first_some (map (\<lambda>s. Option.bind (map_of w s) (\<lambda>hr. host_at R hr p)) (dot_suffixes r))"
      by (rule less)
    show ?thesis
      by (simp only: wildcard_walk_dot [OF assms True r] IH dot_suffixes_dropWhile [OF True r]
          list.map first_some.simps)
  qed
qed

lemma normalize_host_eq:
  "normalize_host m arch raw =
     (let h = host_without_port m raw in if length h \<le> MAX_HOST_LEN then str_lower h else h)"
  by (simp add: normalize_host_def lowercase_ascii_into_simps Let_def)

text \<open>
  The tiers of a lookup: the exact host, its wildcard suffixes from the longest to the shortest, and
  the routes without a host.
\<close>

datatype tier = Exact_Host bytes | Wildcard_Host bytes | Any_Host

definition host_tiers :: "memchr \<Rightarrow> arch \<Rightarrow> bytes option \<Rightarrow> tier list" where
  "host_tiers m arch host = (case host of None \<Rightarrow> []
     | Some raw \<Rightarrow> (let n = normalize_host m arch raw
         in Exact_Host n # map Wildcard_Host (dot_suffixes n))) @ [Any_Host]"

definition tier_router :: "'r RouteTable \<Rightarrow> tier \<Rightarrow> 'r option" where
  "tier_router t tier = (case tier of
     Exact_Host h \<Rightarrow> map_of (exact_hosts t) h
   | Wildcard_Host s \<Rightarrow> map_of (wildcard_hosts t) s
   | Any_Host \<Rightarrow> Some (default_router t))"

abbreviation clean_path :: "bytes \<Rightarrow> bytes" where
  "clean_path path \<equiv> (if path = [] then ''/'' else path)"

lemma lookup_tiers:
  assumes "memchr_spec m"
  shows "lookup m arch R t host path =
    first_some (map (\<lambda>tier. Option.bind (tier_router t tier) (\<lambda>hr. host_at R hr (clean_path path)))
      (host_tiers m arch host))"
proof (cases host)
  case None
  then show ?thesis
    by (simp add: lookup_def host_tiers_def tier_router_def split: option.split)
next
  case (Some raw)
  have walk: "(if wildcard_hosts t \<noteq> [] then wildcard_walk m R (wildcard_hosts t) n p else None)
      = first_some (map (\<lambda>s. Option.bind (tier_router t (Wildcard_Host s)) (\<lambda>hr. host_at R hr p)) (dot_suffixes n))"
    for n p
    by (cases "wildcard_hosts t = []") (simp_all add: wildcard_walk_suffixes [OF assms] tier_router_def)
  show ?thesis
    unfolding lookup_def host_tiers_def Some option.case Let_def walk
    by (simp add: tier_router_def first_some_append o_def split: option.split)
qed

text \<open>
  C15: lookup precedence.  A lookup tries the exact host, then every wildcard suffix of the host from
  the longest to the shortest, then the routes without a host, and returns the first route that
  matches the path (an empty path is \<open>/\<close>): a host that matches but whose path does not falls through.
\<close>

theorem lookup_precedence:
  assumes "memchr_spec m"
  shows "lookup m arch R t host path =
      first_some (map (\<lambda>tier. Option.bind (tier_router t tier) (\<lambda>hr. host_at R hr (clean_path path)))
        (host_tiers m arch host))
    \<and> set (dot_suffixes n) = {s. suffix s n \<and> starts_with s ''.''}
    \<and> sorted_wrt (\<lambda>a b. length b < length a) (dot_suffixes n)"
  using lookup_tiers [OF assms] dot_suffixes_iff dot_suffixes_sorted by blast

theorem lookup_precedence_witness:
  "memchr_spec memchr_scan \<and>
   lookup memchr_scan Other_Arch list_router
     \<lparr>exact_hosts = [(''a.b.c'', [(''/x'', \<lparr>target_group = 0, filters = None, route_name = ''exact''\<rparr>)])],
      wildcard_hosts = [(''.c'', [(''/'', \<lparr>target_group = 1, filters = None, route_name = ''short''\<rparr>)]),
                        (''.b.c'', [(''/'', \<lparr>target_group = 2, filters = None, route_name = ''long''\<rparr>)])],
      default_router = [], route_count = 3, groups = []\<rparr> (Some ''A.b.C:80'') []
   = Some \<lparr>target_group = 2, filters = None, route_name = ''long''\<rparr>"
  (is "_ \<and> lookup _ _ _ ?t _ _ = ?a")
proof -
  have "first_some (map (\<lambda>tier. Option.bind (tier_router ?t tier) (\<lambda>hr. host_at list_router hr (clean_path [])))
      (host_tiers memchr_scan Other_Arch (Some ''A.b.C:80''))) = ?a"
    by code_simp
  then show ?thesis
    using lookup_precedence [OF memchr_scan_spec, of Other_Arch list_router ?t "Some ''A.b.C:80''" "[]" "[]"]
      memchr_scan_spec by metis
qed

section \<open>From routes to lookups\<close>

definition tier_of :: "bytes option \<Rightarrow> tier" where
  "tier_of host = (case host of None \<Rightarrow> Any_Host | Some h \<Rightarrow>
     if h = ''*'' then Any_Host
     else if starts_with h ''*.'' then Wildcard_Host (str_lower (drop 1 h))
     else Exact_Host (str_lower h))"

definition spec_action :: "nat \<Rightarrow> RouteSpec \<Rightarrow> RouteAction" where
  "spec_action i s = \<lparr>target_group = i, filters = spec_filters s, route_name = spec_name s\<rparr>"

definition spec_routes :: "nat \<Rightarrow> RouteSpec \<Rightarrow> (bytes \<times> RouteAction) list" where
  "spec_routes i s = map (\<lambda>p. (p, spec_action i s)) (expand_pattern (spec_path s) (spec_match s))"

text \<open>The patterns a list of routes gives one tier, in the order the routes come.\<close>

definition tier_routes :: "RouteSpec list \<Rightarrow> tier \<Rightarrow> (bytes \<times> RouteAction) list" where
  "tier_routes ss t =
     concat (map (\<lambda>(i, s). if tier_of (spec_hostname s) = t then spec_routes i s else []) (enumerate 0 ss))"

definition routes_at :: "('k \<times> 'v list) list \<Rightarrow> 'k \<Rightarrow> 'v list" where
  "routes_at m k = (case map_of m k of None \<Rightarrow> [] | Some vs \<Rightarrow> vs)"

lemma routes_at_push [simp]:
  "routes_at (entry_push k v m) k' = routes_at m k' @ (if k' = k then [v] else [])"
  by (induction k v m rule: entry_push.induct) (auto simp: routes_at_def)

definition builder_routes :: "RouteTableBuilder \<Rightarrow> tier \<Rightarrow> (bytes \<times> RouteAction) list" where
  "builder_routes b t = (case t of
     Exact_Host h \<Rightarrow> routes_at (b_exact b) h
   | Wildcard_Host s \<Rightarrow> routes_at (b_wildcard b) s
   | Any_Host \<Rightarrow> b_default b)"

lemma add_pattern_routes:
  "builder_routes (add_pattern host a p b) t =
     builder_routes b t @ (if tier_of host = t then [(p, a)] else [])"
  by (auto simp: add_pattern_def builder_routes_def tier_of_def split: option.split tier.split)

lemma add_pattern_other [simp]:
  "b_count (add_pattern host a p b) = b_count b" "b_groups (add_pattern host a p b) = b_groups b"
  by (simp_all add: add_pattern_def split: option.split)

lemma fold_add_pattern:
  "builder_routes (fold (add_pattern host a) ps b) t =
     builder_routes b t @ (if tier_of host = t then map (\<lambda>p. (p, a)) ps else [])
   \<and> b_count (fold (add_pattern host a) ps b) = b_count b
   \<and> b_groups (fold (add_pattern host a) ps b) = b_groups b"
  by (induction ps arbitrary: b) (auto simp: add_pattern_routes)

lemma builder_add_routes:
  "builder_routes (builder_add s b) t =
     builder_routes b t @ (if tier_of (spec_hostname s) = t then spec_routes (length (b_groups b)) s else [])
   \<and> b_count (builder_add s b) = b_count b + 1
   \<and> b_groups (builder_add s b) = b_groups b @ [from_endpoints (spec_endpoints s)]"
proof -
  have upd: "builder_routes (b\<lparr>b_groups := g\<rparr>) t = builder_routes b t"
    "builder_routes (b\<lparr>b_count := c\<rparr>) t = builder_routes b t" for b g c
    by (simp_all add: builder_routes_def split: tier.split)
  show ?thesis
    by (simp add: builder_add_def Let_def fold_add_pattern upd spec_routes_def spec_action_def)
qed

lemma builder_fold:
  "builder_routes (fold builder_add ss builder_new) t = tier_routes ss t
   \<and> b_count (fold builder_add ss builder_new) = length ss
   \<and> b_groups (fold builder_add ss builder_new) = map (\<lambda>s. from_endpoints (spec_endpoints s)) ss"
proof (induction ss rule: rev_induct)
  case Nil
  then show ?case
    by (simp add: builder_new_def builder_routes_def tier_routes_def routes_at_def split: tier.split)
next
  case (snoc s ss)
  have "tier_routes (ss @ [s]) t = tier_routes ss t
      @ (if tier_of (spec_hostname s) = t then spec_routes (length ss) s else [])"
    by (simp add: tier_routes_def enumerate_append_eq)
  then show ?case
    using snoc builder_add_routes [of s "fold builder_add ss builder_new" t] by simp
qed

lemma plain_append [simp]: "plain (a @ b) \<longleftrightarrow> plain a \<and> plain b"
  by (auto simp: plain_def)

lemma plain_strip_suffix: "plain s \<Longrightarrow> strip_suffix s p = Some r \<Longrightarrow> plain r"
  by (auto simp: strip_suffix_Some)

lemma plain_trim_end: "plain s \<Longrightarrow> plain (trim_end_matches c s)"
  by (metis plain_append trim_end_prefix)

lemma plain_slash [simp]: "plain ''/''" "plain []"
  by (simp_all add: plain_def)

lemma not_plain_catchall [simp]: "\<not> plain (q @ ''/{*catchall}'')"
  by (simp add: plain_def)

text \<open>The base of a path pattern: its shorthand suffix removed, and whether there was one.\<close>

definition path_base :: "bytes \<Rightarrow> bytes \<times> bool" where
  "path_base path =
     (if path = ''/*'' then (''/'', True)
      else case (case strip_suffix path ''/*catchall'' of
                   Some s \<Rightarrow> Some s
                 | None \<Rightarrow> (case strip_suffix path ''/*path'' of
                              Some s \<Rightarrow> Some s
                            | None \<Rightarrow> strip_suffix path ''/*'')) of
             Some stripped \<Rightarrow> (if stripped = [] then ''/'' else stripped, True)
           | None \<Rightarrow> (if path = [] then ''/'' else path, False))"

lemma expand_pattern_base:
  "expand_pattern path kind =
     (if kind = PM_Exact \<and> \<not> snd (path_base path) then [fst (path_base path)]
      else let t = trim_end_matches (CHR ''/'') (fst (path_base path))
           in if t = [] then [''/'', ''/{*catchall}'']
              else [t, t @ ''/'', t @ ''/{*catchall}''])"
  by (simp add: expand_pattern_def path_base_def Let_def split: option.split)

lemma plain_path_base: "plain path \<Longrightarrow> plain (fst (path_base path))"
  using plain_strip_suffix [of path] by (auto simp: path_base_def split: option.split)

lemma expand_pattern_ok:
  assumes "plain path" "p \<in> set (expand_pattern path kind)"
  shows "pattern_ok p"
proof -
  let ?b = "fst (path_base path)" and ?t = "trim_end_matches (CHR ''/'') (fst (path_base path))"
  have "plain ?b" "plain ?t" using plain_path_base [OF assms(1)] plain_trim_end by auto
  moreover have "pattern_ok ''/{*catchall}''"
    unfolding pattern_ok_def by (intro disjI2 exI [of _ "[]"]) simp
  ultimately show ?thesis
    using assms(2) unfolding expand_pattern_base Let_def
    by (auto simp: pattern_ok_def split: if_splits)
qed

lemma tier_routes_ok:
  assumes "\<forall>s\<in>set ss. plain (spec_path s)"
  shows "\<forall>(p, a)\<in>set (tier_routes ss t). pattern_ok p"
  using assms expand_pattern_ok
  by (fastforce simp: tier_routes_def spec_routes_def in_set_enumerate_eq split: if_splits)

lemma tier_router_build:
  assumes "router_spec R held" "\<forall>(p, a)\<in>set (builder_routes b t). pattern_ok p"
    "builder_build R b = Inr tbl"
  shows "Option.bind (tier_router tbl t) (\<lambda>hr. host_at R hr path) = pattern_at (map_of (builder_routes b t)) path"
proof -
  have tbl: "tier_router tbl t = (case t of
      Exact_Host h \<Rightarrow> map_option (compile_routes R) (map_of (b_exact b) h)
    | Wildcard_Host s \<Rightarrow> map_option (compile_routes R) (map_of (b_wildcard b) s)
    | Any_Host \<Rightarrow> Some (compile_routes R (b_default b)))"
    using assms(3) by (auto simp: builder_build_def tier_router_def map_of_map split: tier.split)
  show ?thesis
    using compile_routes_at [OF assms(1,2), of path]
    by (auto simp: tbl builder_routes_def host_at_def routes_at_def split: tier.splits option.splits)
qed

section \<open>Properties of built tables\<close>

lemma built_lookup:
  assumes "router_spec R held" "memchr_spec m" "\<forall>s\<in>set ss. plain (spec_path s)"
    "builder_build R (fold builder_add ss builder_new) = Inr tbl"
  shows "lookup m arch R tbl host path =
      first_some (map (\<lambda>t. pattern_at (map_of (tier_routes ss t)) (clean_path path)) (host_tiers m arch host))
    \<and> route_count tbl = length ss
    \<and> groups tbl = map (\<lambda>s. from_endpoints (spec_endpoints s)) ss"
proof -
  note fold = builder_fold [of ss]
  have "Option.bind (tier_router tbl t) (\<lambda>hr. host_at R hr p) = pattern_at (map_of (tier_routes ss t)) p" for t p
    using tier_router_build [OF assms(1) _ assms(4), of t p] tier_routes_ok [OF assms(3), of t] fold [of t] by simp
  then show ?thesis
    using fold assms(4) unfolding lookup_tiers [OF assms(2)] by (auto simp: builder_build_def)
qed

text \<open>
  C2: the compiled table refines the list of routes it was built from.  A lookup returns the action of
  the first tier (exact host, longest wildcard, no host) in which the routes of that tier match the
  path, where within a tier a literal match wins over a catch-all, a longer prefix over a shorter one
  and an earlier route over a later one with the same pattern; the table counts the routes and owns
  one balancing group per route, which all patterns of the route share.
\<close>

theorem build_lookup_refines:
  assumes "router_spec R held" "memchr_spec m" "\<forall>s\<in>set ss. plain (spec_path s)"
    "builder_build R (fold builder_add ss builder_new) = Inr tbl"
  shows "lookup m arch R tbl host path =
      first_some (map (\<lambda>t. pattern_at (map_of (tier_routes ss t)) (clean_path path)) (host_tiers m arch host))
    \<and> route_count tbl = length ss
    \<and> groups tbl = map (\<lambda>s. from_endpoints (spec_endpoints s)) ss"
  using assms by (rule built_lookup)

definition example_routes :: "RouteSpec list" where
  "example_routes =
     [\<lparr>spec_hostname = Some ''*.X'', spec_path = ''/api'', spec_match = PM_Prefix,
       spec_endpoints = [ep_new ''u:1'' 1], spec_filters = None, spec_name = ''wild''\<rparr>,
      \<lparr>spec_hostname = None, spec_path = ''/'', spec_match = PM_Prefix,
       spec_endpoints = [ep_new ''v:1'' 1], spec_filters = None, spec_name = ''any''\<rparr>]"

theorem build_lookup_refines_witness:
  "\<exists>tbl. builder_build list_router (fold builder_add example_routes builder_new) = Inr tbl \<and>
     lookup memchr_scan Other_Arch list_router tbl (Some ''a.x:80'') ''/api/v1''
       = Some \<lparr>target_group = 0, filters = None, route_name = ''wild''\<rparr> \<and>
     route_count tbl = 2"
proof -
  obtain tbl where tbl: "builder_build list_router (fold builder_add example_routes builder_new) = Inr tbl"
    by (simp add: builder_build_def)
  have "\<forall>s\<in>set example_routes. plain (spec_path s)"
    by (simp add: example_routes_def plain_def)
  note refines = build_lookup_refines [OF list_router_spec memchr_scan_spec this tbl,
      of Other_Arch "Some ''a.x:80''" "''/api/v1''"]
  have "first_some (map (\<lambda>t. pattern_at (map_of (tier_routes example_routes t)) (clean_path ''/api/v1''))
      (host_tiers memchr_scan Other_Arch (Some ''a.x:80'')))
    = Some \<lparr>target_group = 0, filters = None, route_name = ''wild''\<rparr>"
    "length example_routes = 2"
    by code_simp+
  then show ?thesis using refines tbl by metis
qed

text \<open>What a route's own patterns match.\<close>

definition serves_below :: "bytes \<Rightarrow> bytes \<Rightarrow> bool" where
  "serves_below t q = ((t \<noteq> [] \<and> q = t) \<or> starts_with q (t @ ''/''))"

lemma parents_iff: "q \<in> set (parents path) \<longleftrightarrow> (\<exists>r. r \<noteq> [] \<and> path = q @ ''/'' @ r)"
proof
  assume "q \<in> set (parents path)"
  then obtain k where k: "path ! k = CHR ''/''" "k + 1 < length path" "q = take k path"
    by (auto simp: parents_def)
  then show "\<exists>r. r \<noteq> [] \<and> path = q @ ''/'' @ r"
    using id_take_nth_drop [of k path] by (intro exI [of _ "drop (k + 1) path"]) simp
next
  assume "\<exists>r. r \<noteq> [] \<and> path = q @ ''/'' @ r"
  then show "q \<in> set (parents path)"
    by (auto simp: parents_def nth_append intro!: image_eqI [of _ _ "length q"])
qed

lemma serves_below_iff:
  "serves_below t q \<longleftrightarrow> (t \<noteq> [] \<and> q = t) \<or> q = t @ ''/'' \<or> t \<in> set (parents q)"
  unfolding serves_below_def parents_iff prefix_def by (metis append.assoc append_Nil2)

lemma pattern_at_below:
  assumes "plain t" "m = map_of (map (\<lambda>p. (p, a)) (if t = [] then [''/'', ''/{*catchall}'']
    else [t, t @ ''/'', t @ ''/{*catchall}'']))"
  shows "pattern_at m q = (if serves_below t q then Some a else None)"
proof -
  have vals: "m p = None \<or> m p = Some a" for p using assms(2) by auto
  have catch: "m (p @ ''/{*catchall}'') = (if p = t then Some a else None)" for p
    using assms by (auto simp: plain_def)
  have lit: "plain q \<Longrightarrow> m q = (if t \<noteq> [] \<and> q = t \<or> q = t @ ''/'' then Some a else None)"
    using assms by (auto simp: plain_def)
  have "first_some (map (\<lambda>p. m (p @ ''/{*catchall}'')) (parents q)) = (if t \<in> set (parents q) then Some a else None)"
    using vals by (subst first_some_single [where a = a]) (auto simp: catch image_iff)
  then have "pattern_at m q = (if (t \<noteq> [] \<and> q = t \<or> q = t @ ''/'') \<and> plain q \<or> t \<in> set (parents q)
      then Some a else None)"
    unfolding pattern_at_def using lit by (cases "plain q") simp_all
  moreover have "plain q" if "q = t \<or> q = t @ ''/''" using that assms(1) plain_append plain_slash by metis
  ultimately show ?thesis
    unfolding serves_below_iff by metis
qed

lemma route_serves_iff:
  assumes "plain (spec_path s)"
  shows "pattern_at (map_of (spec_routes i s)) q =
    (if (if spec_match s = PM_Exact \<and> \<not> snd (path_base (spec_path s))
         then q = fst (path_base (spec_path s))
         else serves_below (trim_end_matches (CHR ''/'') (fst (path_base (spec_path s)))) q)
     then Some (spec_action i s) else None)"
proof (cases "spec_match s = PM_Exact \<and> \<not> snd (path_base (spec_path s))")
  case True
  let ?b = "fst (path_base (spec_path s))"
  have b: "plain ?b" by (rule plain_path_base [OF assms])
  have "map_of (spec_routes i s) = [?b \<mapsto> spec_action i s]"
    using True by (simp add: spec_routes_def expand_pattern_base)
  moreover have "p @ ''/{*catchall}'' \<noteq> ?b" for p using b by (metis not_plain_catchall)
  ultimately show ?thesis
    using True b by (auto simp: pattern_at_def split: option.split)
next
  case False
  have t: "plain (trim_end_matches (CHR ''/'') (fst (path_base (spec_path s))))"
    by (rule plain_trim_end [OF plain_path_base [OF assms]])
  show ?thesis
    unfolding if_not_P [OF False]
    by (rule pattern_at_below [OF t]) (simp add: False spec_routes_def expand_pattern_base Let_def)
qed

text \<open>
  path matching.  A \<open>PathPrefix\<close> route (or any route written with one of the shorthands \<open>/*\<close>,
  \<open>/*path\<close>, \<open>/*catchall\<close>) serves its path without trailing slashes and everything below it, and
  nothing else: \<open>/api\<close> serves \<open>/api\<close>, \<open>/api/\<close> and \<open>/api/v1\<close> but not \<open>/apiary\<close>, and \<open>/\<close> serves every
  absolute path, \<open>/\<close> included.  An \<open>Exact\<close> route serves its path only.
\<close>

theorem route_serves:
  assumes "plain (spec_path s)"
  shows "pattern_at (map_of (spec_routes i s)) q =
    (if (if spec_match s = PM_Exact \<and> \<not> snd (path_base (spec_path s))
         then q = fst (path_base (spec_path s))
         else serves_below (trim_end_matches (CHR ''/'') (fst (path_base (spec_path s)))) q)
     then Some (spec_action i s) else None)"
  using assms by (rule route_serves_iff)

theorem route_serves_witness:
  "pattern_at (map_of (spec_routes 0 (hd example_routes))) ''/api/v1'' \<noteq> None \<and>
   pattern_at (map_of (spec_routes 0 (hd example_routes))) ''/apiary'' = None"
proof -
  have p: "plain (spec_path (hd example_routes))" by (simp add: example_routes_def plain_def)
  have "trim_end_matches (CHR ''/'') (fst (path_base (spec_path (hd example_routes)))) = ''/api''"
    "spec_match (hd example_routes) = PM_Prefix" by code_simp+
  then show ?thesis
    using route_serves [OF p, of 0 "''/api/v1''"] route_serves [OF p, of 0 "''/apiary''"]
    by (simp add: serves_below_def)
qed

text \<open>
  a \<open>Host\<close> header is matched without its port and without regard to ASCII case: two hosts that
  agree up to case and port find the same route, as long as they are not longer than 256 bytes.
\<close>

theorem lookup_host_insensitive:
  assumes "memchr_spec m" "length (host_without_port m h1) \<le> MAX_HOST_LEN"
    "eq_icase (host_without_port m h1) (host_without_port m h2)"
  shows "lookup m arch R t (Some h1) path = lookup m arch R t (Some h2) path"
proof -
  have "length (host_without_port m h2) \<le> MAX_HOST_LEN"
    using assms(2,3) by (simp add: eq_icase_def)
  then have "normalize_host m arch h1 = normalize_host m arch h2"
    using assms(2,3) by (simp add: normalize_host_eq eq_icase_lower Let_def)
  then show ?thesis by (simp add: lookup_def)
qed

theorem lookup_host_insensitive_witness:
  "\<forall>t path. lookup memchr_scan Other_Arch list_router t (Some ''API.x:8443'') path
     = lookup memchr_scan Other_Arch list_router t (Some ''api.X'') path"
proof -
  have "length (host_without_port memchr_scan ''API.x:8443'') \<le> MAX_HOST_LEN"
    "eq_icase (host_without_port memchr_scan ''API.x:8443'') (host_without_port memchr_scan ''api.X'')"
    by code_simp+
  then show ?thesis by (intro allI lookup_host_insensitive [OF memchr_scan_spec])
qed

end
