(* ===== verification/Route_Config.thy ===== *)
theory Route_Config
  imports Route_Table
begin

text \<open>
  \<open>src/crates/core/src/config.rs\<close>: declarative routes for standalone mode.  Reading the file and
  parsing YAML (\<open>serde_yaml\<close>) are parameters; compiling the entries is the builder's fold.
\<close>

datatype PathType = PT_PathPrefix | PT_Exact

definition path_match_of :: "PathType \<Rightarrow> PathMatch" where
  "path_match_of t = (case t of PT_PathPrefix \<Rightarrow> PM_Prefix | PT_Exact \<Rightarrow> PM_Exact)"

record BackendEntry =
  be_address :: bytes
  be_weight :: "32 word"

record RouteEntry =
  re_name :: bytes
  re_hostname :: "bytes option"
  re_path :: bytes
  re_path_type :: PathType
  re_backends :: "BackendEntry list"
  re_request :: "HeaderModifier list"
  re_response :: "HeaderModifier list"
  re_rewrite :: "UrlRewrite option"

record RouteConfig =
  routes :: "RouteEntry list"

definition default_path :: bytes where
  "default_path = ''/''"

definition default_weight :: "32 word" where
  "default_weight = 1"

datatype ('io, 'yaml) ConfigError =
  CE_Io bytes 'io
| CE_Parse bytes 'yaml

definition config_from_path ::
  "(bytes \<Rightarrow> 'io + bytes) \<Rightarrow> (bytes \<Rightarrow> 'yaml + RouteConfig) \<Rightarrow> bytes \<Rightarrow> ('io, 'yaml) ConfigError + RouteConfig" where
  "config_from_path read_to_string from_str path =
     (case read_to_string path of
        Inl source \<Rightarrow> Inl (CE_Io path source)
      | Inr txt \<Rightarrow> (case from_str txt of
          Inl source \<Rightarrow> Inl (CE_Parse path source)
        | Inr cfg \<Rightarrow> Inr cfg))"

definition entry_spec :: "'h http_lib \<Rightarrow> RouteEntry \<Rightarrow> RouteSpec" where
  "entry_spec L entry =
     \<lparr>spec_hostname = re_hostname entry, spec_path = re_path entry,
      spec_match = path_match_of (re_path_type entry),
      spec_endpoints = map (\<lambda>b. ep_new (be_address b) (be_weight b)) (re_backends entry),
      spec_filters = filters_new L (re_request entry) (re_response entry) (re_rewrite entry),
      spec_name = re_name entry\<rparr>"

text \<open>\<open>builder.build().unwrap_or_default()\<close>.\<close>

definition build_or_default :: "('r, RouteAction) router_lib \<Rightarrow> RouteTableBuilder \<Rightarrow> 'r RouteTable" where
  "build_or_default R b = (case builder_build R b of Inr t \<Rightarrow> t | Inl _ \<Rightarrow> table_empty R)"

definition config_compile ::
  "'h http_lib \<Rightarrow> ('r, RouteAction) router_lib \<Rightarrow> RouteConfig \<Rightarrow> 'r RouteTable" where
  "config_compile L R self =
     build_or_default R (fold (\<lambda>entry b. builder_add (entry_spec L entry) b) (routes self) builder_new)"

definition single_upstream :: "bytes \<Rightarrow> RouteConfig" where
  "single_upstream upstream =
     \<lparr>routes = [\<lparr>re_name = ''default-catchall'', re_hostname = None, re_path = ''/'',
        re_path_type = PT_PathPrefix, re_backends = [\<lparr>be_address = upstream, be_weight = 1\<rparr>],
        re_request = [], re_response = [], re_rewrite = None\<rparr>]\<rparr>"

lemma build_or_default_build: "builder_build R b = Inr (build_or_default R b)"
  by (simp add: build_or_default_def builder_build_def)

lemma fold_entry_specs:
  "fold (\<lambda>entry b. builder_add (entry_spec L entry) b) es b = fold builder_add (map (entry_spec L) es) b"
  by (simp add: fold_map o_def)

text \<open>
  a configuration without routes of its own, made for a single upstream, answers every request:
  whatever the host, an empty or absolute path is served by that upstream, and no other selection is
  possible.
\<close>

theorem single_upstream_serves:
  assumes "router_spec R held" "memchr_spec m" "path = [] \<or> starts_with path ''/''"
  shows "\<exists>a. lookup m arch R (config_compile L R (single_upstream up)) host path = Some a \<and>
    fst (action_select (config_compile L R (single_upstream up)) a) = Some (ep_new up 1)"
proof -
  let ?s = "entry_spec L (hd (routes (single_upstream up)))"
  let ?tbl = "config_compile L R (single_upstream up)"
  have s: "plain (spec_path ?s)" "tier_of (spec_hostname ?s) = Any_Host"
    by (simp_all add: single_upstream_def entry_spec_def tier_of_def)
  have build: "builder_build R (fold builder_add [?s] builder_new) = Inr ?tbl"
    by (simp add: config_compile_def build_or_default_build single_upstream_def)
  note tbl = built_lookup [OF assms(1,2) _ build, of arch host path]
  have base: "path_base ''/'' = (''/'', False)" by code_simp
  have serve: "pattern_at (map_of (spec_routes 0 ?s)) (clean_path path) = Some (spec_action 0 ?s)"
    using assms(3)
    by (subst route_serves_iff [OF s(1)])
      (auto simp: single_upstream_def entry_spec_def path_match_of_def base trim_end_matches_def serves_below_def)
  have routes: "tier_routes [?s] Any_Host = spec_routes 0 ?s"
    "t \<noteq> Any_Host \<Longrightarrow> tier_routes [?s] t = []" for t
    using s(2) by (simp_all add: tier_routes_def)
  have tiers: "\<exists>ts. host_tiers m arch host = ts @ [Any_Host] \<and> Any_Host \<notin> set ts"
    by (auto simp: host_tiers_def Let_def split: option.split)
  then obtain ts where ts: "host_tiers m arch host = ts @ [Any_Host]" "Any_Host \<notin> set ts" by blast
  have "tier_routes [?s] t = []" if "t \<in> set ts" for t
    using routes(2) [of t] that ts(2) by metis
  then have "first_some (map (\<lambda>t. pattern_at (map_of (tier_routes [?s] t)) (clean_path path)) ts) = None"
    by (simp add: first_some_None)
  then have look: "lookup m arch R ?tbl host path = Some (spec_action 0 ?s)"
    using tbl s(1) serve unfolding ts(1) by (simp add: first_some_append routes(1))
  have "groups ?tbl = [Single (ep_new up 1)]"
    using tbl s(1) by (simp add: single_upstream_def entry_spec_def from_endpoints_def ep_new_def)
  then have "fst (action_select ?tbl (spec_action 0 ?s)) = Some (ep_new up 1)"
    by (simp add: action_select_def spec_action_def select_def)
  then show ?thesis using look by blast
qed

theorem single_upstream_serves_witness:
  "\<exists>a. lookup memchr_scan X86_64 list_router
      (config_compile list_http list_router (single_upstream ''10.0.0.1:80'')) (Some ''any.host'') ''/x/y'' = Some a \<and>
    fst (action_select (config_compile list_http list_router (single_upstream ''10.0.0.1:80'')) a)
      = Some (ep_new ''10.0.0.1:80'' 1)"
  by (rule single_upstream_serves [OF list_router_spec memchr_scan_spec]) simp

end
