(* ===== verification/Gateway.thy ===== *)
theory Gateway
  imports Route_Config
begin

text \<open>
  \<open>src/crates/core/src/gateway.rs\<close>: the Kubernetes Gateway API reconciler.  The wire types are records
  with the fields the code reads; \<open>i32\<close> fields are integers.  The Kubernetes client, the watch streams
  and \<open>serde_json\<close> are outside: a stream is the sequence of events it delivers, and parsing an
  \<open>HTTPRoute\<close> spec is the parameter \<open>from_value\<close>.  A \<open>HashMap\<close> is an association list with distinct
  keys; the order in which \<open>routes.values()\<close> visits it is the parameter \<open>iter\<close>.  The three tasks of
  \<open>run\<close> (two watchers and the rebuild loop) are a transition system over the shared state.
\<close>

section \<open>Configuration and wire types\<close>

record ControllerConfig =
  gateway_name :: "bytes option"
  cfg_namespace :: "bytes option"

definition controller_default :: ControllerConfig where
  "controller_default = \<lparr>gateway_name = Some ''lb-gateway'', cfg_namespace = None\<rparr>"

record ParentRef =
  pr_name :: bytes
  pr_namespace :: "bytes option"

record HttpPathMatch =
  match_type :: "bytes option"
  match_value :: "bytes option"

record HttpRouteMatch =
  match_path :: "HttpPathMatch option"

record BackendRef =
  br_name :: bytes
  br_namespace :: "bytes option"
  br_port :: "int option"
  br_weight :: "int option"

record NameValue =
  nv_name :: bytes
  nv_value :: bytes

record HeaderFilter =
  hf_set :: "NameValue list"
  hf_add :: "NameValue list"
  hf_remove :: "bytes list"

record UrlRewritePath =
  path_type :: bytes
  replace_prefix_match :: "bytes option"
  replace_full_path :: "bytes option"

record UrlRewriteFilter =
  rewrite_path :: "UrlRewritePath option"

record HttpRouteFilter =
  filter_type :: bytes
  request_header_modifier :: "HeaderFilter option"
  response_header_modifier :: "HeaderFilter option"
  filter_url_rewrite :: "UrlRewriteFilter option"

record HttpRouteRule =
  rule_matches :: "HttpRouteMatch list"
  backend_refs :: "BackendRef list"
  rule_filters :: "HttpRouteFilter list"

record HttpRouteSpec =
  parent_refs :: "ParentRef list"
  hostnames :: "bytes list"
  rules :: "HttpRouteRule list"

definition to_modifiers :: "HeaderFilter \<Rightarrow> HeaderModifier list" where
  "to_modifiers self =
     map (\<lambda>nv. HM_Set (nv_name nv) (nv_value nv)) (hf_set self) @
     map (\<lambda>nv. HM_Add (nv_name nv) (nv_value nv)) (hf_add self) @
     map HM_Remove (hf_remove self)"

section \<open>Cluster state\<close>

type_synonym ServiceKey = "bytes \<times> bytes"

record StoredRoute =
  sr_namespace :: bytes
  sr_name :: bytes
  sr_spec :: HttpRouteSpec

record ReadyEndpoint =
  re_addr :: bytes
  re_port :: int

record ClusterState =
  cs_routes :: "(ServiceKey \<times> StoredRoute) list"
  cs_endpoints :: "(ServiceKey \<times> ReadyEndpoint list) list"

definition cluster_default :: ClusterState where
  "cluster_default = \<lparr>cs_routes = [], cs_endpoints = []\<rparr>"

text \<open>\<open>HashMap::insert\<close> and \<open>remove\<close>.\<close>

definition map_insert :: "'k \<Rightarrow> 'v \<Rightarrow> ('k \<times> 'v) list \<Rightarrow> ('k \<times> 'v) list" where
  "map_insert k v m = filter (\<lambda>e. fst e \<noteq> k) m @ [(k, v)]"

definition map_remove :: "'k \<Rightarrow> ('k \<times> 'v) list \<Rightarrow> ('k \<times> 'v) list" where
  "map_remove k m = filter (\<lambda>e. fst e \<noteq> k) m"

text \<open>\<open>Display\<close> of an \<open>i32\<close>.\<close>

definition show_int :: "int \<Rightarrow> bytes" where
  "show_int i = (if i < 0 then CHR ''-'' # show_nat (nat (- i)) else show_nat (nat i))"

definition clamp_weight :: "int option \<Rightarrow> 32 word" where
  "clamp_weight w = word_of_int (max 0 (min 1000000 (case w of None \<Rightarrow> 1 | Some x \<Rightarrow> x)))"

definition resolve :: "ClusterState \<Rightarrow> bytes \<Rightarrow> BackendRef \<Rightarrow> BackendEndpoint list" where
  "resolve self route_ns backend =
     (let ns = (case br_namespace backend of Some n \<Rightarrow> n | None \<Rightarrow> route_ns);
          key = (ns, br_name backend);
          port = (case br_port backend of Some p \<Rightarrow> p | None \<Rightarrow> 80);
          weight = clamp_weight (br_weight backend);
          fallback = [ep_new (br_name backend @ ''.'' @ ns @ ''.svc.cluster.local:'' @ show_int port) weight]
      in case map_of (cs_endpoints self) key of
           Some eps \<Rightarrow>
             if list_ex (\<lambda>e. re_port e = port) eps
             then map (\<lambda>e. ep_new (re_addr e @ '':'' @ show_int (re_port e)) weight)
                    (filter (\<lambda>e. re_port e = port) eps)
             else fallback
         | None \<Rightarrow> fallback)"

definition route_is_ours :: "ControllerConfig \<Rightarrow> StoredRoute \<Rightarrow> bool" where
  "route_is_ours cfg stored =
     (case gateway_name cfg of
        None \<Rightarrow> True
      | Some want \<Rightarrow>
          if parent_refs (sr_spec stored) = [] then True
          else list_ex (\<lambda>p.
            if pr_name p \<noteq> want then False
            else case (cfg_namespace cfg, pr_namespace p) of
                   (None, _) \<Rightarrow> True
                 | (Some ours, None) \<Rightarrow> ours = sr_namespace stored
                 | (Some ours, Some theirs) \<Rightarrow> ours = theirs) (parent_refs (sr_spec stored)))"

text \<open>One filter: the modifiers and the rewrite collected so far, updated.\<close>

definition compile_filter ::
  "bytes \<Rightarrow> HttpRouteFilter \<Rightarrow> HeaderModifier list \<times> HeaderModifier list \<times> UrlRewrite option
    \<Rightarrow> HeaderModifier list \<times> HeaderModifier list \<times> UrlRewrite option" where
  "compile_filter matched_prefix f = (\<lambda>(request, response, rewrite).
     if filter_type f = ''RequestHeaderModifier'' then
       (case request_header_modifier f of
          Some h \<Rightarrow> (request @ to_modifiers h, response, rewrite) | None \<Rightarrow> (request, response, rewrite))
     else if filter_type f = ''ResponseHeaderModifier'' then
       (case response_header_modifier f of
          Some h \<Rightarrow> (request, response @ to_modifiers h, rewrite) | None \<Rightarrow> (request, response, rewrite))
     else if filter_type f = ''URLRewrite'' then
       (case Option.bind (filter_url_rewrite f) rewrite_path of
          Some path \<Rightarrow> (request, response,
            if path_type path = ''ReplacePrefixMatch'' then
              map_option (RW_Prefix (trim_end_matches (CHR ''/'') matched_prefix)) (replace_prefix_match path)
            else if path_type path = ''ReplaceFullPath'' then
              map_option RW_Exact (replace_full_path path)
            else None)
        | None \<Rightarrow> (request, response, rewrite))
     else (request, response, rewrite))"

definition compile_filters :: "'h http_lib \<Rightarrow> HttpRouteFilter list \<Rightarrow> bytes \<Rightarrow> RouteFilters" where
  "compile_filters L fs matched_prefix =
     (let (request, response, rewrite) = fold (compile_filter matched_prefix) fs ([], [], None)
      in filters_new L request response rewrite)"

definition match_of :: "HttpRouteMatch \<Rightarrow> bytes \<times> PathMatch" where
  "match_of m =
     (case Option.bind (match_path m) match_value of Some v \<Rightarrow> v | None \<Rightarrow> ''/'',
      if Option.bind (match_path m) match_type = Some ''Exact'' then PM_Exact else PM_Prefix)"

definition rule_endpoints :: "ClusterState \<Rightarrow> StoredRoute \<Rightarrow> HttpRouteRule \<Rightarrow> BackendEndpoint list" where
  "rule_endpoints self stored rule = concat (map (resolve self (sr_namespace stored)) (backend_refs rule))"

definition rule_match_list :: "HttpRouteRule \<Rightarrow> (bytes \<times> PathMatch) list" where
  "rule_match_list rule =
     (if rule_matches rule = [] then [(''/'', PM_Prefix)] else map match_of (rule_matches rule))"

definition route_hostnames :: "StoredRoute \<Rightarrow> bytes option list" where
  "route_hostnames stored =
     (if hostnames (sr_spec stored) = [] then [None] else map Some (hostnames (sr_spec stored)))"

definition compile_rule ::
  "'h http_lib \<Rightarrow> ClusterState \<Rightarrow> StoredRoute \<Rightarrow> nat \<times> HttpRouteRule \<Rightarrow> RouteTableBuilder \<Rightarrow> RouteTableBuilder" where
  "compile_rule L self stored = (\<lambda>(rule_idx, rule) builder.
     let endpoints = rule_endpoints self stored rule
     in if endpoints = [] then builder
        else fold (\<lambda>hostname. fold (\<lambda>(path, path_match).
               builder_add \<lparr>spec_hostname = hostname, spec_path = path, spec_match = path_match,
                 spec_endpoints = endpoints,
                 spec_filters = compile_filters L (rule_filters rule) path,
                 spec_name = sr_namespace stored @ ''/'' @ sr_name stored @ ''#'' @ show_nat rule_idx\<rparr>)
             (rule_match_list rule)) (route_hostnames stored) builder)"

definition compile_state ::
  "'h http_lib \<Rightarrow> ('r, RouteAction) router_lib
    \<Rightarrow> ((ServiceKey \<times> StoredRoute) list \<Rightarrow> (ServiceKey \<times> StoredRoute) list)
    \<Rightarrow> ControllerConfig \<Rightarrow> ClusterState \<Rightarrow> 'r RouteTable" where
  "compile_state L R iter cfg self =
     build_or_default R
       (fold (\<lambda>(key, stored) builder.
          if \<not> route_is_ours cfg stored then builder
          else fold (compile_rule L self stored) (enumerate 0 (rules (sr_spec stored))) builder)
        (iter (cs_routes self)) builder_new)"

section \<open>Watch events\<close>

record 'j DynamicObject =
  obj_name :: "bytes option"
  obj_namespace :: "bytes option"
  obj_spec :: 'j

record Endpoint =
  ep_addresses :: "bytes list"
  ep_conditions :: "bool option option"   \<comment> \<open>\<open>conditions\<close>, and its \<open>ready\<close> field\<close>

record EndpointSlice =
  es_namespace :: "bytes option"
  es_labels :: "(bytes \<times> bytes) list option"
  es_ports :: "int option list option"
  es_endpoints :: "Endpoint list option"

datatype 'o watch_event = Apply 'o | InitApply 'o | Delete 'o | Init | InitDone | Watch_Error

definition endpoint_ready :: "Endpoint \<Rightarrow> bool" where
  "endpoint_ready e = (case Option.bind (ep_conditions e) id of Some r \<Rightarrow> r | None \<Rightarrow> True)"

definition parse_endpoint_slice :: "EndpointSlice \<Rightarrow> (ServiceKey \<times> ReadyEndpoint list) option" where
  "parse_endpoint_slice sl =
     do { ns \<leftarrow> es_namespace sl;
          labels \<leftarrow> es_labels sl;
          service \<leftarrow> map_of labels ''kubernetes.io/service-name'';
          let ports = (case es_ports sl of Some ps \<Rightarrow> List.map_filter id ps | None \<Rightarrow> []);
          if ports = [] then Some ((ns, service), [])
          else Some ((ns, service),
            concat (map (\<lambda>endpoint. if \<not> endpoint_ready endpoint then []
              else concat (map (\<lambda>address. map (\<lambda>port. \<lparr>re_addr = address, re_port = port\<rparr>) ports)
                (ep_addresses endpoint)))
              (case es_endpoints sl of Some es \<Rightarrow> es | None \<Rightarrow> []))) }"

text \<open>
  The shared state of the controller: the cluster snapshot, the permit of \<open>Notify\<close> (\<open>notify_one\<close>
  stores at most one), whether the rebuild task is between consuming the permit and publishing, and
  the published table.
\<close>

record 'r Controller =
  state :: ClusterState
  dirty :: bool
  rebuilding :: bool
  published :: "'r SharedRouteTable"

definition notify_one :: "'r Controller \<Rightarrow> 'r Controller" where
  "notify_one c = c\<lparr>dirty := True\<rparr>"

definition insert_route ::
  "('j \<Rightarrow> HttpRouteSpec option) \<Rightarrow> 'j DynamicObject \<Rightarrow> ClusterState \<Rightarrow> ClusterState option" where
  "insert_route from_value obj st =
     do { name \<leftarrow> obj_name obj; ns \<leftarrow> obj_namespace obj; spec \<leftarrow> from_value (obj_spec obj);
          Some (st\<lparr>cs_routes := map_insert (ns, name)
            \<lparr>sr_namespace = ns, sr_name = name, sr_spec = spec\<rparr> (cs_routes st)\<rparr>) }"

definition on_httproute ::
  "('j \<Rightarrow> HttpRouteSpec option) \<Rightarrow> 'j DynamicObject watch_event \<Rightarrow> 'r Controller \<Rightarrow> 'r Controller" where
  "on_httproute from_value event c =
     (let apply_obj = (\<lambda>obj. case insert_route from_value obj (state c) of
                        Some st \<Rightarrow> notify_one (c\<lparr>state := st\<rparr>) | None \<Rightarrow> c)
      in case event of
           Apply obj \<Rightarrow> apply_obj obj
         | InitApply obj \<Rightarrow> apply_obj obj
         | Delete obj \<Rightarrow>
             (case (obj_name obj, obj_namespace obj) of
                (Some name, Some ns) \<Rightarrow>
                  notify_one (c\<lparr>state := (state c)\<lparr>cs_routes := map_remove (ns, name) (cs_routes (state c))\<rparr>\<rparr>)
              | _ \<Rightarrow> c)
         | Init \<Rightarrow> c\<lparr>state := (state c)\<lparr>cs_routes := []\<rparr>\<rparr>
         | InitDone \<Rightarrow> notify_one c
         | Watch_Error \<Rightarrow> c)"

definition on_endpointslice :: "EndpointSlice watch_event \<Rightarrow> 'r Controller \<Rightarrow> 'r Controller" where
  "on_endpointslice event c =
     (let apply_slice = (\<lambda>sl. case parse_endpoint_slice sl of
            Some (key, eps) \<Rightarrow>
              notify_one (c\<lparr>state := (state c)\<lparr>cs_endpoints := map_insert key eps (cs_endpoints (state c))\<rparr>\<rparr>)
          | None \<Rightarrow> c)
      in case event of
           Apply sl \<Rightarrow> apply_slice sl
         | InitApply sl \<Rightarrow> apply_slice sl
         | Delete sl \<Rightarrow>
             (case parse_endpoint_slice sl of
                Some (key, _) \<Rightarrow>
                  notify_one (c\<lparr>state := (state c)\<lparr>cs_endpoints := map_remove key (cs_endpoints (state c))\<rparr>\<rparr>)
              | None \<Rightarrow> c)
         | Init \<Rightarrow> c\<lparr>state := (state c)\<lparr>cs_endpoints := []\<rparr>\<rparr>
         | InitDone \<Rightarrow> notify_one c
         | Watch_Error \<Rightarrow> c)"

text \<open>The rebuild loop: take the permit and sleep; then compile the state of that moment and publish.\<close>

definition rebuild_start :: "'r Controller \<Rightarrow> 'r Controller option" where
  "rebuild_start c = (if dirty c \<and> \<not> rebuilding c then Some (c\<lparr>dirty := False, rebuilding := True\<rparr>) else None)"

definition rebuild_finish ::
  "(ControllerConfig \<Rightarrow> ClusterState \<Rightarrow> 'r RouteTable) \<Rightarrow> ControllerConfig \<Rightarrow> 'r Controller \<Rightarrow> 'r Controller option" where
  "rebuild_finish compile cfg c =
     (if rebuilding c
      then Some (c\<lparr>rebuilding := False, published := shared_store (compile cfg (state c)) (published c)\<rparr>)
      else None)"

definition run_init :: "'r SharedRouteTable \<Rightarrow> 'r Controller" where
  "run_init shared = \<lparr>state = cluster_default, dirty = False, rebuilding = False, published = shared\<rparr>"

text \<open>\<open>reconcile_once\<close>, with the answers of the API server as arguments.\<close>

definition reconcile_once ::
  "('j \<Rightarrow> HttpRouteSpec option) \<Rightarrow> (ControllerConfig \<Rightarrow> ClusterState \<Rightarrow> 'r RouteTable) \<Rightarrow> ControllerConfig
    \<Rightarrow> 'e + unit \<Rightarrow> 'e + 'j DynamicObject list \<Rightarrow> 'e + EndpointSlice list \<Rightarrow> 'r SharedRouteTable
    \<Rightarrow> ('e + nat) \<times> 'r SharedRouteTable" where
  "reconcile_once from_value compile cfg client route_list slice_list shared =
     (case client of
        Inl e \<Rightarrow> (Inl e, shared)
      | Inr _ \<Rightarrow> (case route_list of
          Inl e \<Rightarrow> (Inl e, shared)
        | Inr objs \<Rightarrow> (case slice_list of
            Inl e \<Rightarrow> (Inl e, shared)
          | Inr slices \<Rightarrow>
              (let st = fold (\<lambda>obj st. case insert_route from_value obj st of Some st' \<Rightarrow> st' | None \<Rightarrow> st)
                          objs cluster_default;
                   st = fold (\<lambda>sl st. case parse_endpoint_slice sl of
                            Some (key, eps) \<Rightarrow> st\<lparr>cs_endpoints := map_insert key eps (cs_endpoints st)\<rparr>
                          | None \<Rightarrow> st) slices st;
                   table = compile cfg st
               in (Inr (table_len table), shared_store table shared)))))"

section \<open>Hash maps\<close>

lemma map_of_filter_ne: "map_of (filter (\<lambda>e. fst e \<noteq> k) m) k' = (if k' = k then None else map_of m k')"
  by (induction m) auto

lemma map_of_insert [simp]: "map_of (map_insert k v m) k' = (if k' = k then Some v else map_of m k')"
  by (auto simp: map_insert_def map_of_append map_add_def map_of_filter_ne split: option.split)

lemma map_of_remove [simp]: "map_of (map_remove k m) k' = (if k' = k then None else map_of m k')"
  by (simp add: map_remove_def map_of_filter_ne)

section \<open>Resolution\<close>

lemma unat_clamp_weight: "unat (clamp_weight w) \<le> 1000000"
proof -
  have "nat (max 0 (min 1000000 i)) \<le> 1000000" for i :: int by simp
  then show ?thesis
    by (cases w) (simp_all add: clamp_weight_def unat_eq_nat_uint uint_word_of_int_eq take_bit_int_eq_self)
qed

text \<open>The endpoints the cluster knows for the service and port of a backend reference.\<close>

definition ready_for :: "ClusterState \<Rightarrow> bytes \<Rightarrow> BackendRef \<Rightarrow> ReadyEndpoint list" where
  "ready_for st route_ns b =
     filter (\<lambda>e. re_port e = (case br_port b of Some p \<Rightarrow> p | None \<Rightarrow> 80))
       (case map_of (cs_endpoints st) (case br_namespace b of Some n \<Rightarrow> n | None \<Rightarrow> route_ns, br_name b) of
          Some eps \<Rightarrow> eps | None \<Rightarrow> [])"

lemma resolve_ready:
  "resolve st route_ns b =
     (if ready_for st route_ns b \<noteq> [] then
        map (\<lambda>e. ep_new (re_addr e @ '':'' @ show_int (re_port e)) (clamp_weight (br_weight b))) (ready_for st route_ns b)
      else [ep_new (br_name b @ ''.'' @ (case br_namespace b of Some n \<Rightarrow> n | None \<Rightarrow> route_ns)
              @ ''.svc.cluster.local:'' @ show_int (case br_port b of Some p \<Rightarrow> p | None \<Rightarrow> 80))
              (clamp_weight (br_weight b))])"
  by (auto simp: resolve_def ready_for_def list_ex_iff filter_empty_conv Let_def split: option.split)

lemma resolve_nonempty: "resolve st route_ns b \<noteq> []"
  by (simp add: resolve_ready)

lemma rule_endpoints_empty: "rule_endpoints st stored rule = [] \<longleftrightarrow> backend_refs rule = []"
  using resolve_nonempty by (cases "backend_refs rule") (auto simp: rule_endpoints_def)

section \<open>Compilation\<close>

text \<open>The routes of a cluster state, in the order the maps are visited.\<close>

definition rule_specs :: "'h http_lib \<Rightarrow> ClusterState \<Rightarrow> StoredRoute \<Rightarrow> nat \<Rightarrow> HttpRouteRule \<Rightarrow> RouteSpec list" where
  "rule_specs L st stored idx rule =
     (if backend_refs rule = [] then []
      else concat (map (\<lambda>h. map (\<lambda>(path, kind).
             \<lparr>spec_hostname = h, spec_path = path, spec_match = kind,
              spec_endpoints = rule_endpoints st stored rule,
              spec_filters = compile_filters L (rule_filters rule) path,
              spec_name = sr_namespace stored @ ''/'' @ sr_name stored @ ''#'' @ show_nat idx\<rparr>)
             (rule_match_list rule)) (route_hostnames stored)))"

definition gateway_specs ::
  "'h http_lib \<Rightarrow> ControllerConfig \<Rightarrow> ClusterState \<Rightarrow> (ServiceKey \<times> StoredRoute) list \<Rightarrow> RouteSpec list" where
  "gateway_specs L cfg st visited =
     concat (map (\<lambda>(key, stored). if route_is_ours cfg stored
        then concat (map (\<lambda>(i, rule). rule_specs L st stored i rule) (enumerate 0 (rules (sr_spec stored))))
        else []) visited)"

lemma fold_map_case:
  "fold (\<lambda>(a, b). builder_add (g a b)) xs = fold builder_add (map (\<lambda>(a, b). g a b) xs)"
  by (induction xs) auto

lemma fold_concat_map:
  "fold (\<lambda>x. fold builder_add (g x)) xs = fold builder_add (concat (map g xs))"
  by (induction xs) (auto simp: fold_append)

lemma compile_rule_specs:
  "compile_rule L st stored (i, rule) b = fold builder_add (rule_specs L st stored i rule) b"
  by (simp add: compile_rule_def rule_specs_def rule_endpoints_empty Let_def fold_map_case
      fold_concat_map)

lemma compile_state_specs:
  "compile_state L R iter cfg st =
     build_or_default R (fold builder_add (gateway_specs L cfg st (iter (cs_routes st))) builder_new)"
proof -
  have rule: "fold (compile_rule L st stored) rs b
      = fold builder_add (concat (map (\<lambda>(i, rule). rule_specs L st stored i rule) rs)) b" for stored rs b
    by (induction rs arbitrary: b) (auto simp: compile_rule_specs fold_append)
  have "fold (\<lambda>(key, stored) builder. if \<not> route_is_ours cfg stored then builder
          else fold (compile_rule L st stored) (enumerate 0 (rules (sr_spec stored))) builder) vs b
      = fold builder_add (gateway_specs L cfg st vs) b" for vs b
    by (induction vs arbitrary: b) (auto simp: gateway_specs_def rule fold_append)
  then show ?thesis by (simp add: compile_state_def)
qed

text \<open>What iterating a \<open>HashMap\<close> promises: every entry once, in some order.\<close>

definition iter_spec :: "('a list \<Rightarrow> 'a list) \<Rightarrow> bool" where
  "iter_spec iter = (\<forall>m. mset (iter m) = mset m)"

lemma iter_specD: "iter_spec iter \<Longrightarrow> set (iter m) = set m"
  by (metis iter_spec_def set_mset_mset)

lemma gateway_specs_iff:
  "s \<in> set (gateway_specs L cfg st vs) \<longleftrightarrow>
     (\<exists>key stored i h p. (key, stored) \<in> set vs \<and> route_is_ours cfg stored \<and>
        i < length (rules (sr_spec stored)) \<and> backend_refs (rules (sr_spec stored) ! i) \<noteq> [] \<and>
        h \<in> set (route_hostnames stored) \<and> p \<in> set (rule_match_list (rules (sr_spec stored) ! i)) \<and>
        s = \<lparr>spec_hostname = h, spec_path = fst p, spec_match = snd p,
             spec_endpoints = rule_endpoints st stored (rules (sr_spec stored) ! i),
             spec_filters = compile_filters L (rule_filters (rules (sr_spec stored) ! i)) (fst p),
             spec_name = sr_namespace stored @ ''/'' @ sr_name stored @ ''#'' @ show_nat i\<rparr>)"
proof -
  have rule: "s \<in> set (rule_specs L st stored i rule) \<longleftrightarrow> backend_refs rule \<noteq> [] \<and>
      (\<exists>h p. h \<in> set (route_hostnames stored) \<and> p \<in> set (rule_match_list rule) \<and>
        s = \<lparr>spec_hostname = h, spec_path = fst p, spec_match = snd p,
             spec_endpoints = rule_endpoints st stored rule,
             spec_filters = compile_filters L (rule_filters rule) (fst p),
             spec_name = sr_namespace stored @ ''/'' @ sr_name stored @ ''#'' @ show_nat i\<rparr>)" for stored i rule
    by (force simp: rule_specs_def)
  have enum: "(\<exists>x\<in>set (enumerate 0 rs). case x of (i, r) \<Rightarrow> P i r) \<longleftrightarrow> (\<exists>i<length rs. P i (rs ! i))" for rs :: "HttpRouteRule list" and P
    by (force simp: in_set_enumerate_eq)
  have "s \<in> set (gateway_specs L cfg st vs) \<longleftrightarrow>
     (\<exists>key stored. (key, stored) \<in> set vs \<and> route_is_ours cfg stored \<and>
        (\<exists>x\<in>set (enumerate 0 (rules (sr_spec stored))). case x of (i, r) \<Rightarrow> s \<in> set (rule_specs L st stored i r)))"
    by (fastforce simp: gateway_specs_def split: if_splits)
  then show ?thesis unfolding enum rule by blast
qed

text \<open>
  C14: the table compiled from the cluster state refines the Gateway API objects in it.  A lookup on it
  is a lookup in the list of routes that has, for every \<open>HTTPRoute\<close> that attaches to this Gateway and
  every rule with backends, one entry per hostname (any host if there is none) and per path match
  (prefix \<open>/\<close> if there is none), whose endpoints are the resolved backends; \<open>route_count\<close> is the number
  of entries.  The list follows the iteration order of the hash map.
\<close>

theorem gateway_compile_refines:
  assumes "router_spec R held" "memchr_spec m" "iter_spec iter"
    "\<forall>(key, stored)\<in>set (cs_routes st). \<forall>rule\<in>set (rules (sr_spec stored)).
       \<forall>p\<in>set (rule_match_list rule). plain (fst p)"
  shows "lookup m arch R (compile_state L R iter cfg st) host path =
      first_some (map (\<lambda>t. pattern_at (map_of (tier_routes (gateway_specs L cfg st (iter (cs_routes st))) t))
        (clean_path path)) (host_tiers m arch host))
    \<and> table_len (compile_state L R iter cfg st) = length (gateway_specs L cfg st (iter (cs_routes st)))
    \<and> (s \<in> set (gateway_specs L cfg st (iter (cs_routes st))) \<longleftrightarrow>
        (\<exists>key stored i h p. (key, stored) \<in> set (cs_routes st) \<and> route_is_ours cfg stored \<and>
          i < length (rules (sr_spec stored)) \<and> backend_refs (rules (sr_spec stored) ! i) \<noteq> [] \<and>
          h \<in> set (route_hostnames stored) \<and> p \<in> set (rule_match_list (rules (sr_spec stored) ! i)) \<and>
          s = \<lparr>spec_hostname = h, spec_path = fst p, spec_match = snd p,
             spec_endpoints = rule_endpoints st stored (rules (sr_spec stored) ! i),
             spec_filters = compile_filters L (rule_filters (rules (sr_spec stored) ! i)) (fst p),
             spec_name = sr_namespace stored @ ''/'' @ sr_name stored @ ''#'' @ show_nat i\<rparr>))"
proof -
  let ?ss = "gateway_specs L cfg st (iter (cs_routes st))"
  have iff: "s \<in> set ?ss \<longleftrightarrow> (\<exists>key stored i h p. (key, stored) \<in> set (cs_routes st) \<and> route_is_ours cfg stored \<and>
          i < length (rules (sr_spec stored)) \<and> backend_refs (rules (sr_spec stored) ! i) \<noteq> [] \<and>
          h \<in> set (route_hostnames stored) \<and> p \<in> set (rule_match_list (rules (sr_spec stored) ! i)) \<and>
          s = \<lparr>spec_hostname = h, spec_path = fst p, spec_match = snd p,
             spec_endpoints = rule_endpoints st stored (rules (sr_spec stored) ! i),
             spec_filters = compile_filters L (rule_filters (rules (sr_spec stored) ! i)) (fst p),
             spec_name = sr_namespace stored @ ''/'' @ sr_name stored @ ''#'' @ show_nat i\<rparr>)" for s
    unfolding gateway_specs_iff iter_specD [OF assms(3)] ..
  have "plain (spec_path s)" if "s \<in> set ?ss" for s
    using that [unfolded iff] assms(4) by fastforce
  then have "\<forall>s\<in>set ?ss. plain (spec_path s)" by blast
  from built_lookup [OF assms(1,2) this build_or_default_build [of R], of arch host path]
  show ?thesis unfolding compile_state_specs table_len_def iff by blast
qed

definition example_cluster :: ClusterState where
  "example_cluster =
     \<lparr>cs_routes = [((''ns'', ''r''), \<lparr>sr_namespace = ''ns'', sr_name = ''r'',
        sr_spec = \<lparr>parent_refs = [\<lparr>pr_name = ''lb-gateway'', pr_namespace = None\<rparr>], hostnames = [''X.y''],
          rules = [\<lparr>rule_matches = [], backend_refs = [\<lparr>br_name = ''svc'', br_namespace = None,
            br_port = Some 80, br_weight = None\<rparr>], rule_filters = []\<rparr>]\<rparr>\<rparr>)],
      cs_endpoints = [((''ns'', ''svc''), [\<lparr>re_addr = ''10.0.0.1'', re_port = 80\<rparr>])]\<rparr>"

theorem gateway_compile_refines_witness:
  "lookup memchr_scan X86_64 list_router
     (compile_state list_http list_router (\<lambda>m. m) controller_default example_cluster) (Some ''x.Y:1'') ''/a''
   = Some \<lparr>target_group = 0, filters = None, route_name = ''ns/r#0''\<rparr>"
proof -
  have iter: "iter_spec (\<lambda>m :: (ServiceKey \<times> StoredRoute) list. m)" by (simp add: iter_spec_def)
  have plain: "\<forall>(key, stored)\<in>set (cs_routes example_cluster). \<forall>rule\<in>set (rules (sr_spec stored)).
      \<forall>p\<in>set (rule_match_list rule). plain (fst p)"
    by (simp add: example_cluster_def rule_match_list_def)
  have "first_some (map (\<lambda>t. pattern_at (map_of (tier_routes (gateway_specs list_http controller_default
      example_cluster (cs_routes example_cluster)) t)) (clean_path ''/a'')) (host_tiers memchr_scan X86_64 (Some ''x.Y:1'')))
    = Some \<lparr>target_group = 0, filters = None, route_name = ''ns/r#0''\<rparr>"
    by code_simp
  then show ?thesis
    using gateway_compile_refines [OF list_router_spec memchr_scan_spec iter plain,
        of X86_64 list_http controller_default "Some ''x.Y:1''" "''/a''"] by metis
qed

text \<open>
  resolving a backend reference never yields an empty list: it is exactly the ready endpoints the
  cluster reports for the service's namespace, name and port, as \<open>address:port\<close>, or the service's
  cluster DNS name when there is none; the weight is clamped to \<open>0..1000000\<close> on every endpoint.
\<close>

theorem resolve_correct:
  "resolve st route_ns b \<noteq> [] \<and>
   map address (resolve st route_ns b) =
     (if ready_for st route_ns b \<noteq> [] then
        map (\<lambda>e. re_addr e @ '':'' @ show_int (re_port e)) (ready_for st route_ns b)
      else [br_name b @ ''.'' @ (case br_namespace b of Some n \<Rightarrow> n | None \<Rightarrow> route_ns)
              @ ''.svc.cluster.local:'' @ show_int (case br_port b of Some p \<Rightarrow> p | None \<Rightarrow> 80)]) \<and>
   set (map weight (resolve st route_ns b)) = {clamp_weight (br_weight b)} \<and>
   unat (clamp_weight (br_weight b)) \<le> 1000000"
  using resolve_nonempty [of st route_ns b] unat_clamp_weight [of "br_weight b"]
  by (simp add: resolve_ready ep_new_def o_def image_image image_constant_conv)

section \<open>Endpoint slices\<close>

lemma map_filter_id_iff: "p \<in> set (List.map_filter id ps) \<longleftrightarrow> Some p \<in> set ps"
  by (induction ps) (auto simp: List.map_filter_simps split: option.split)

lemma parse_endpoint_slice_members:
  assumes "parse_endpoint_slice sl = Some (key, eps)"
  shows "\<lparr>re_addr = a, re_port = p\<rparr> \<in> set eps \<longleftrightarrow>
    (\<exists>e\<in>set (case es_endpoints sl of Some es \<Rightarrow> es | None \<Rightarrow> []). endpoint_ready e \<and> a \<in> set (ep_addresses e)) \<and>
    (\<exists>ps. es_ports sl = Some ps \<and> Some p \<in> set ps)"
proof -
  define ports where "ports = (case es_ports sl of Some ps \<Rightarrow> List.map_filter id ps | None \<Rightarrow> [])"
  define es where "es = (case es_endpoints sl of Some es \<Rightarrow> es | None \<Rightarrow> [])"
  have ports: "p \<in> set ports \<longleftrightarrow> (\<exists>ps. es_ports sl = Some ps \<and> Some p \<in> set ps)" for p
    by (cases "es_ports sl") (simp_all only: ports_def option.case map_filter_id_iff, simp_all)
  have "eps = (if ports = [] then [] else concat (map (\<lambda>endpoint. if \<not> endpoint_ready endpoint then []
      else concat (map (\<lambda>address. map (\<lambda>port. \<lparr>re_addr = address, re_port = port\<rparr>) ports) (ep_addresses endpoint))) es))"
    using assms unfolding parse_endpoint_slice_def Let_def ports_def [symmetric] es_def [symmetric]
    by (auto split: bind_splits if_splits)
  then have "\<lparr>re_addr = a, re_port = p\<rparr> \<in> set eps \<longleftrightarrow>
      (\<exists>e\<in>set es. endpoint_ready e \<and> a \<in> set (ep_addresses e)) \<and> p \<in> set ports"
    by (auto split: if_splits)
  then show ?thesis by (simp only: ports es_def)
qed

text \<open>
  an applied \<open>EndpointSlice\<close> makes the endpoints known for its service exactly the ready addresses
  of that slice, at each of its ports (an endpoint without a ready condition counts as ready), and
  leaves other services alone.  What earlier slices of the same service contributed is gone.
\<close>

theorem apply_slice_endpoints:
  assumes "parse_endpoint_slice sl = Some (key, eps)"
  shows "map_of (cs_endpoints (state (on_endpointslice (Apply sl) c))) k
      = (if k = key then Some eps else map_of (cs_endpoints (state c)) k)
    \<and> dirty (on_endpointslice (Apply sl) c)
    \<and> (\<lparr>re_addr = a, re_port = p\<rparr> \<in> set eps \<longleftrightarrow>
        (\<exists>e\<in>set (case es_endpoints sl of Some es \<Rightarrow> es | None \<Rightarrow> []). endpoint_ready e \<and> a \<in> set (ep_addresses e)) \<and>
        (\<exists>ps. es_ports sl = Some ps \<and> Some p \<in> set ps))"
  using parse_endpoint_slice_members [OF assms] assms
  by (simp add: on_endpointslice_def notify_one_def)

definition example_slice :: "bytes \<Rightarrow> EndpointSlice" where
  "example_slice addr =
     \<lparr>es_namespace = Some ''ns'', es_labels = Some [(''kubernetes.io/service-name'', ''svc'')],
      es_ports = Some [Some 80], es_endpoints = Some [\<lparr>ep_addresses = [addr], ep_conditions = None\<rparr>]\<rparr>"

theorem apply_slice_endpoints_witness:
  "\<forall>shared. map_of (cs_endpoints (state (on_endpointslice (Apply (example_slice ''10.0.0.2''))
       (on_endpointslice (Apply (example_slice ''10.0.0.1'')) (run_init shared))))) (''ns'', ''svc'')
   = Some [\<lparr>re_addr = ''10.0.0.2'', re_port = 80\<rparr>]"
proof -
  have p: "parse_endpoint_slice (example_slice ''10.0.0.2'')
      = Some ((''ns'', ''svc''), [\<lparr>re_addr = ''10.0.0.2'', re_port = 80\<rparr>])" by code_simp
  show ?thesis by (simp add: apply_slice_endpoints [OF p, THEN conjunct1])
qed

section \<open>The controller as a transition system\<close>

text \<open>
  The steps of the three tasks, interleaved; two flags record whether a watch is between \<open>Init\<close> and
  \<open>InitDone\<close>, that is, in the middle of a relist.
\<close>

definition relisting :: "'o watch_event \<Rightarrow> bool \<Rightarrow> bool" where
  "relisting ev b = (case ev of Init \<Rightarrow> True | InitDone \<Rightarrow> False | _ \<Rightarrow> b)"

inductive controller_step ::
  "('j \<Rightarrow> HttpRouteSpec option) \<Rightarrow> (ControllerConfig \<Rightarrow> ClusterState \<Rightarrow> 'r RouteTable) \<Rightarrow> ControllerConfig
    \<Rightarrow> 'r Controller \<times> bool \<times> bool \<Rightarrow> 'r Controller \<times> bool \<times> bool \<Rightarrow> bool"
  for from_value compile cfg where
  httproute: "controller_step from_value compile cfg (c, ri, si) (on_httproute from_value ev c, relisting ev ri, si)"
| endpointslice: "controller_step from_value compile cfg (c, ri, si) (on_endpointslice ev c, ri, relisting ev si)"
| rebuild_take: "rebuild_start c = Some c' \<Longrightarrow> controller_step from_value compile cfg (c, ri, si) (c', ri, si)"
| rebuild_publish: "rebuild_finish compile cfg c = Some c' \<Longrightarrow>
    controller_step from_value compile cfg (c, ri, si) (c', ri, si)"

inductive_cases controller_stepE: "controller_step from_value compile cfg s t"

definition controller_inv ::
  "(ControllerConfig \<Rightarrow> ClusterState \<Rightarrow> 'r RouteTable) \<Rightarrow> ControllerConfig \<Rightarrow> 'r Controller \<times> bool \<times> bool \<Rightarrow> bool" where
  "controller_inv compile cfg = (\<lambda>(c, ri, si).
     dirty c \<or> rebuilding c \<or> ri \<or> si \<or> inner (published c) = compile cfg (state c))"

definition controller_init ::
  "(ControllerConfig \<Rightarrow> ClusterState \<Rightarrow> 'r RouteTable) \<Rightarrow> ControllerConfig \<Rightarrow> 'r Controller \<times> bool \<times> bool \<Rightarrow> bool" where
  "controller_init compile cfg s =
     (s = (run_init (shared_from_table (compile cfg cluster_default)), False, False))"

lemma on_httproute_dirty:
  "on_httproute fv ev c = c \<or> dirty (on_httproute fv ev c) \<or> ev = Init"
  by (cases ev) (auto simp: on_httproute_def notify_one_def split: option.split)

lemma on_endpointslice_dirty:
  "on_endpointslice ev c = c \<or> dirty (on_endpointslice ev c) \<or> ev = Init"
  by (cases ev) (auto simp: on_endpointslice_def notify_one_def split: option.split)

lemma initdone_dirty:
  "dirty (on_httproute fv InitDone c)" "dirty (on_endpointslice InitDone c)"
  by (simp_all add: on_httproute_def on_endpointslice_def notify_one_def)

interpretation controller: step_invariant "controller_init compile cfg" "controller_step from_value compile cfg"
  "controller_inv compile cfg" for compile cfg from_value
proof
  fix s :: "'a Controller \<times> bool \<times> bool"
  assume "controller_init compile cfg s"
  then show "controller_inv compile cfg s"
    by (simp add: controller_init_def controller_inv_def run_init_def shared_from_table_def)
next
  fix s t :: "'a Controller \<times> bool \<times> bool"
  assume inv: "controller_inv compile cfg s" and step: "controller_step from_value compile cfg s t"
  from step show "controller_inv compile cfg t"
  proof cases
    case (httproute c ri si ev)
    then show ?thesis
      using inv on_httproute_dirty [of from_value ev c] initdone_dirty(1) [of from_value c]
      by (cases ev) (auto simp: controller_inv_def relisting_def)
  next
    case (endpointslice c ri si ev)
    then show ?thesis
      using inv on_endpointslice_dirty [of ev c] initdone_dirty(2) [of c]
      by (cases ev) (auto simp: controller_inv_def relisting_def)
  qed (auto simp: controller_inv_def rebuild_start_def rebuild_finish_def shared_store_def split: if_splits)
qed

lemma compile_state_default:
  assumes "iter_spec iter"
  shows "compile_state L R iter cfg cluster_default = table_empty R"
proof -
  have "iter [] = []" using assms by (metis iter_spec_def mset_zero_iff mset.simps(1))
  then show ?thesis
    by (simp add: compile_state_def cluster_default_def build_or_default_def builder_build_def builder_new_def
        compile_routes_def table_empty_def)
qed

text \<open>
  C3: no update is lost.  In every state the controller can reach, under any interleaving of events of
  the two watches and steps of the rebuild task, the published table is the compilation of the current
  cluster state, unless a rebuild is still due (the permit is set or the rebuild task is in its
  debounce) or one of the watches is in the middle of a relist; the table it starts from is the empty
  table of \<open>SharedRouteTable::new\<close>.
\<close>

theorem controller_no_lost_update:
  assumes "iter_spec iter"
    "reachable (\<lambda>s. s = (run_init (shared_new R), False, False))
       (controller_step from_value (compile_state L R iter) cfg) (c, ri, si)"
    "\<not> dirty c" "\<not> rebuilding c" "\<not> ri" "\<not> si"
  shows "shared_load (published c) = compile_state L R iter cfg (state c)"
proof -
  have init: "(\<lambda>s. s = (run_init (shared_new R), False, False)) = controller_init (compile_state L R iter) cfg"
    by (intro ext) (simp add: controller_init_def compile_state_default [OF assms(1)] shared_new_def shared_from_table_def)
  show ?thesis
    using controller.inv_reachable [OF assms(2) [unfolded init]] assms(3-6)
    by (simp add: controller_inv_def shared_load_def)
qed

theorem controller_no_lost_update_witness:
  "shared_load (published (run_init (shared_new (list_router :: (_, RouteAction) router_lib))))
     = compile_state list_http list_router (\<lambda>m. m) controller_default cluster_default"
proof -
  let ?s = "(run_init (shared_new (list_router :: (_, RouteAction) router_lib)), False, False)"
  have iter: "iter_spec (\<lambda>m :: (ServiceKey \<times> StoredRoute) list. m)" by (simp add: iter_spec_def)
  have "reachable (\<lambda>s. s = ?s)
      (controller_step (\<lambda>_ :: unit. None) (compile_state list_http list_router (\<lambda>m. m)) controller_default) ?s"
    by (rule reachable.start) simp
  from controller_no_lost_update [OF iter this] show ?thesis by (simp add: run_init_def)
qed



text \<open>
  a relist is not atomic.  \<open>Init\<close> empties the stored routes at once, and a rebuild that the other
  watch triggers before \<open>InitDone\<close> publishes a table without any route: from any state with a permit
  pending, an \<open>Init\<close> of the route watch followed by a rebuild empties the published table.
\<close>

theorem relist_publishes_empty:
  assumes "iter_spec iter" "dirty c" "\<not> rebuilding c"
    "rebuild_start (on_httproute from_value Init c) = Some c1"
    "rebuild_finish (compile_state L R iter) cfg c1 = Some c2"
  shows "table_len (shared_load (published c2)) = 0"
proof -
  have "iter [] = []" using assms(1) by (metis iter_spec_def mset_zero_iff mset.simps(1))
  moreover have "cs_routes (state c1) = []"
    using assms(2-4) by (auto simp: on_httproute_def rebuild_start_def split: if_splits)
  ultimately show ?thesis
    using assms(5) by (auto simp: rebuild_finish_def compile_state_def shared_load_def shared_store_def
        table_len_def build_or_default_def builder_build_def builder_new_def split: if_splits)
qed

theorem relist_publishes_empty_witness:
  "let c = (notify_one (run_init (shared_new (list_router :: (_, RouteAction) router_lib))))\<lparr>state := example_cluster\<rparr>;
       c1 = the (rebuild_start (on_httproute (\<lambda>_ :: unit. None) Init c));
       c2 = the (rebuild_finish (compile_state list_http list_router (\<lambda>m. m)) controller_default c1)
   in table_len (compile_state list_http list_router (\<lambda>m. m) controller_default (state c)) = 1 \<and>
      table_len (shared_load (published c2)) = 0"
proof -
  let ?c = "(notify_one (run_init (shared_new (list_router :: (_, RouteAction) router_lib))))\<lparr>state := example_cluster\<rparr>"
  have iter: "iter_spec (\<lambda>m :: (ServiceKey \<times> StoredRoute) list. m)" by (simp add: iter_spec_def)
  obtain c1 where c1: "rebuild_start (on_httproute (\<lambda>_ :: unit. None) Init ?c) = Some c1" "rebuilding c1"
    by (simp add: rebuild_start_def on_httproute_def notify_one_def run_init_def)
  obtain c2 where c2: "rebuild_finish (compile_state list_http list_router (\<lambda>m. m)) controller_default c1 = Some c2"
    using c1(2) by (simp add: rebuild_finish_def)
  have "dirty ?c" "\<not> rebuilding ?c" by (simp_all add: notify_one_def run_init_def)
  from relist_publishes_empty [OF iter this c1(1) c2]
  have "table_len (shared_load (published c2)) = 0" .
  moreover have "table_len (compile_state list_http list_router (\<lambda>m. m) controller_default example_cluster) = 1"
    by code_simp
  ultimately show ?thesis by (simp add: Let_def c1(1) c2)
qed

end
