(* ===== verification/Runtime_Support.thy ===== *)
theory Runtime_Support
  imports F64
begin

text \<open>
  \<open>src/crates/core/src/alloc.rs\<close> and \<open>cycles.rs\<close>: the allocator's name, registered once, and the
  conversion of counter ticks.  The counter itself is read by one machine instruction; its value and
  the clock readings are arguments.
\<close>

section \<open>Allocator name\<close>

text \<open>\<open>OnceLock<&str>\<close>: a value once set stays.\<close>

definition alloc_register :: "bytes \<Rightarrow> bytes option \<Rightarrow> bytes option" where
  "alloc_register name cell = (case cell of None \<Rightarrow> Some name | Some n \<Rightarrow> Some n)"

definition allocator_name :: "bytes option \<Rightarrow> bytes" where
  "allocator_name cell = (case cell of Some n \<Rightarrow> n | None \<Rightarrow> ''system'')"

lemma alloc_first_wins:
  "allocator_name (fold alloc_register names None) = (case names of [] \<Rightarrow> ''system'' | n # _ \<Rightarrow> n)"
proof -
  have "fold alloc_register ns (Some n) = Some n" for ns n
    by (induction ns) (simp_all add: alloc_register_def)
  then show ?thesis by (cases names) (simp_all add: alloc_register_def allocator_name_def)
qed

section \<open>Cycle counter\<close>

text \<open>\<open>rdtsc\<close> returns the counter in two halves.\<close>

definition timestamp_x86 :: "32 word \<Rightarrow> 32 word \<Rightarrow> u64" where
  "timestamp_x86 hi lo = push_bit 32 (ucast hi) OR ucast lo"

record Calibration =
  ns_per_tick :: rat

text \<open>
  \<open>Calibration::measure\<close>: \<open>freq\<close> is the architectural frequency on AArch64 (\<open>None\<close> elsewhere); the
  others are the two counter readings and the elapsed nanoseconds around the sleep.
\<close>

definition calibration_measure :: "u64 option \<Rightarrow> u64 \<Rightarrow> u64 \<Rightarrow> nat \<Rightarrow> Calibration" where
  "calibration_measure freq start_ticks end_ticks elapsed_ns =
     (case freq of
        Some f \<Rightarrow> if f > 0 then \<lparr>ns_per_tick = f64_div 1000000000 (f64_of_nat (unat f))\<rparr>
                  else \<lparr>ns_per_tick = (let elapsed_ticks = unat end_ticks - unat start_ticks
                     in if elapsed_ticks = 0 then 1 else f64_div (f64_of_nat elapsed_ns) (f64_of_nat elapsed_ticks))\<rparr>
      | None \<Rightarrow> \<lparr>ns_per_tick = (let elapsed_ticks = unat end_ticks - unat start_ticks
                     in if elapsed_ticks = 0 then 1 else f64_div (f64_of_nat elapsed_ns) (f64_of_nat elapsed_ticks))\<rparr>)"

definition ticks_to_nanos :: "Calibration \<Rightarrow> u64 \<Rightarrow> nat" where
  "ticks_to_nanos self ticks = f64_to_u64 (f64_mul (f64_of_nat (unat ticks)) (ns_per_tick self))"

definition ticks_to_micros :: "Calibration \<Rightarrow> u64 \<Rightarrow> nat" where
  "ticks_to_micros self ticks = ticks_to_nanos self ticks div 1000"

lemma timestamp_x86_unat: "unat (timestamp_x86 hi lo) = unat hi * 2 ^ 32 + unat lo"
proof -
  have "push_bit 32 (ucast hi :: u64) AND ucast lo = 0"
    by (rule bit_eqI) (auto simp: bit_simps dest: bit_imp_le_length)
  then have "timestamp_x86 hi lo = push_bit 32 (ucast hi) + ucast lo"
    by (simp add: timestamp_x86_def disjunctive_add_eq_or)
  moreover have "unat hi < 2 ^ 32" "unat lo < 2 ^ 32"
    using unsigned_less [of hi, where 'a = nat] unsigned_less [of lo, where 'a = nat] by simp_all
  ultimately show ?thesis
    by (simp add: push_bit_eq_mult unat_word_ariths unsigned_ucast_eq take_bit_nat_eq_self)
qed

lemma f64_to_u64_bound: "f64_to_u64 q < 2 ^ 64"
  by (simp add: f64_to_u64_def)

lemma ticks_to_nanos_unit:
  assumes "ns_per_tick c = 1" "unat ticks < 2 ^ 53"
  shows "ticks_to_nanos c ticks = unat ticks"
proof -
  have "f64_mul (f64_of_nat (unat ticks)) 1 = of_nat (unat ticks)"
    by (simp only: f64_mul_def f64_of_nat_def mult_1_right f64_of_nat_exact [OF assms(2)])
  moreover have "min (nat \<lfloor>rat_of_nat n\<rfloor>) (2 ^ 64 - 1) = n" if "n < 2 ^ 53" for n
    using that by simp
  ultimately show ?thesis
    using assms by (simp only: ticks_to_nanos_def f64_to_u64_def)
qed

end
