(* ===== verification/Http1.thy ===== *)
theory Http1
  imports Proxy_Hygiene Simd
begin

text \<open>
  \<open>src/crates/proxy-monoio/src/http1.rs\<close>: HTTP/1.1 framing of the Monoio data plane.  \<open>httparse\<close>,
  \<open>memchr\<close>, \<open>memmem\<close> and \<open>simdutf8\<close> are third-party: fields of the record \<open>http1_lib\<close>.  \<open>eq_ci\<close> uses
  \<open>eq_ignore_ascii_case\<close>, which equals its scalar routine on every architecture, so the scalar routine
  stands for it here.  A peer address enters as its \<open>Display\<close> text; slices are taken of buffers that
  hold the whole head, so no slice is out of range.
\<close>

section \<open>Third-party parsers\<close>

datatype 'a hp_result = HP_Complete nat 'a | HP_Partial | HP_Error

record hp_request =
  rq_method :: "bytes option"
  rq_path :: "bytes option"
  rq_version :: "nat option"
  rq_headers :: "(bytes \<times> bytes) list"

record hp_response =
  rs_version :: "nat option"
  rs_code :: "nat option"
  rs_headers :: "(bytes \<times> bytes) list"

record http1_lib =
  l_memchr :: memchr
  l_memmem :: memmem
  l_utf8 :: "bytes \<Rightarrow> bool"
  l_parse_request :: "nat \<Rightarrow> bytes \<Rightarrow> hp_request hp_result"
  l_parse_response :: "nat \<Rightarrow> bytes \<Rightarrow> hp_response hp_result"

definition http1_spec :: "http1_lib \<Rightarrow> bool" where
  "http1_spec P = (memchr_spec (l_memchr P) \<and> memmem_spec (l_memmem P))"

section \<open>Data\<close>

definition MAX_HEAD_SIZE :: nat where
  "MAX_HEAD_SIZE = 64 * 1024"

definition MAX_HEADERS :: nat where
  "MAX_HEADERS = 96"

datatype BodyLength = Fixed nat | Chunked | UntilClose | Empty

definition body_is_empty :: "BodyLength \<Rightarrow> bool" where
  "body_is_empty self = (self = Empty \<or> self = Fixed 0)"

record RequestHead =
  head_len :: nat
  rh_method :: bytes
  rh_target :: bytes
  rh_host :: "bytes option"
  rh_body :: BodyLength
  rh_close :: bool
  rh_target_span :: "nat \<times> nat"

record ResponseHead =
  rsp_head_len :: nat
  rsp_status :: nat
  rsp_body :: BodyLength
  rsp_close :: bool

datatype 'a Parsed = Complete 'a | Partial | Invalid bytes

section \<open>Parsing heads\<close>

text \<open>The variables of the header loops.\<close>

record head_scan =
  hs_host :: "bytes option"
  hs_length :: "nat option"
  hs_chunked :: bool
  hs_close :: bool

definition content_length_of :: "http1_lib \<Rightarrow> bytes \<Rightarrow> nat option" where
  "content_length_of P value = Option.bind (validate_utf8 (l_utf8 P) value) (\<lambda>v. parse_uint 64 (str_trim v))"

definition last_coding_chunked :: "bytes \<Rightarrow> bool" where
  "last_coding_chunked v = eq_icase (str_trim (last (split_on (CHR '','') v))) ''chunked''"

definition connection_tokens :: "bytes \<Rightarrow> bool \<Rightarrow> bool" where
  "connection_tokens v close = fold (\<lambda>token close.
     if eq_icase (str_trim token) ''close'' then True
     else if eq_icase (str_trim token) ''keep-alive'' then False else close) (split_on (CHR '','') v) close"

text \<open>One round of the request loop; \<open>None\<close> is the early return \<open>invalid Content-Length\<close>.\<close>

definition scan_request :: "http1_lib \<Rightarrow> bytes \<times> bytes \<Rightarrow> head_scan \<Rightarrow> head_scan option" where
  "scan_request P = (\<lambda>(name, value) s.
     if eq_icase name ''host'' then Some (s\<lparr>hs_host := validate_utf8 (l_utf8 P) value\<rparr>)
     else if eq_icase name ''content-length'' then
       (case content_length_of P value of Some n \<Rightarrow> Some (s\<lparr>hs_length := Some n\<rparr>) | None \<Rightarrow> None)
     else if eq_icase name ''transfer-encoding'' then
       Some (case validate_utf8 (l_utf8 P) value of
               Some v \<Rightarrow> s\<lparr>hs_chunked := last_coding_chunked v\<rparr> | None \<Rightarrow> s)
     else if eq_icase name ''connection'' then
       Some (case validate_utf8 (l_utf8 P) value of
               Some v \<Rightarrow> s\<lparr>hs_close := connection_tokens v (hs_close s)\<rparr> | None \<Rightarrow> s)
     else Some s)"

fun scan_requests :: "http1_lib \<Rightarrow> (bytes \<times> bytes) list \<Rightarrow> head_scan \<Rightarrow> head_scan option" where
  "scan_requests P [] s = Some s"
| "scan_requests P (h # hs) s = (case scan_request P h s of None \<Rightarrow> None | Some s' \<Rightarrow> scan_requests P hs s')"

definition parse_request :: "http1_lib \<Rightarrow> bytes \<Rightarrow> RequestHead Parsed" where
  "parse_request P buf =
     (case l_parse_request P MAX_HEADERS buf of
        HP_Partial \<Rightarrow> Partial
      | HP_Error \<Rightarrow> Invalid ''malformed request head''
      | HP_Complete n req \<Rightarrow>
          (case rq_method req of
             None \<Rightarrow> Invalid ''missing method''
           | Some method \<Rightarrow> (case rq_path req of
               None \<Rightarrow> Invalid ''missing request target''
             | Some target \<Rightarrow> (case l_memmem P buf target of
                 None \<Rightarrow> Invalid ''request target not found in buffer''
               | Some target_start \<Rightarrow>
                   (case scan_requests P (rq_headers req)
                           \<lparr>hs_host = None, hs_length = None, hs_chunked = False,
                            hs_close = (rq_version req = Some 0)\<rparr> of
                      None \<Rightarrow> Invalid ''invalid Content-Length''
                    | Some s \<Rightarrow> Complete
                        \<lparr>head_len = n, rh_method = method, rh_target = target, rh_host = hs_host s,
                         rh_body = (if hs_chunked s then Chunked
                                    else case hs_length s of
                                           None \<Rightarrow> Empty | Some k \<Rightarrow> if k = 0 then Empty else Fixed k),
                         rh_close = hs_close s,
                         rh_target_span = (target_start, target_start + length target)\<rparr>)))))"

definition scan_response :: "http1_lib \<Rightarrow> bytes \<times> bytes \<Rightarrow> head_scan \<Rightarrow> head_scan" where
  "scan_response P = (\<lambda>(name, value) s.
     if eq_icase name ''content-length'' then s\<lparr>hs_length := content_length_of P value\<rparr>
     else if eq_icase name ''transfer-encoding'' then
       (case validate_utf8 (l_utf8 P) value of
          Some v \<Rightarrow> s\<lparr>hs_chunked := last_coding_chunked v\<rparr> | None \<Rightarrow> s)
     else if eq_icase name ''connection'' then
       (case validate_utf8 (l_utf8 P) value of
          Some v \<Rightarrow> s\<lparr>hs_close := connection_tokens v (hs_close s)\<rparr> | None \<Rightarrow> s)
     else s)"

definition bodyless :: "bytes \<Rightarrow> nat \<Rightarrow> bool" where
  "bodyless request_method status =
     (eq_icase request_method ''HEAD'' \<or> status = 204 \<or> status = 304 \<or> 100 \<le> status \<and> status < 200)"

definition parse_response :: "http1_lib \<Rightarrow> bytes \<Rightarrow> bytes \<Rightarrow> ResponseHead Parsed" where
  "parse_response P buf request_method =
     (case l_parse_response P MAX_HEADERS buf of
        HP_Partial \<Rightarrow> Partial
      | HP_Error \<Rightarrow> Invalid ''malformed response head''
      | HP_Complete n resp \<Rightarrow>
          (case rs_code resp of
             None \<Rightarrow> Invalid ''missing status code''
           | Some status \<Rightarrow>
               (let s = fold (scan_response P) (rs_headers resp)
                          \<lparr>hs_host = None, hs_length = None, hs_chunked = False,
                           hs_close = (rs_version resp = Some 0)\<rparr>
                in Complete
                     \<lparr>rsp_head_len = n, rsp_status = status,
                      rsp_body = (if bodyless request_method status then Empty
                                  else if hs_chunked s then Chunked
                                  else case hs_length s of
                                         Some k \<Rightarrow> if k = 0 then Empty else Fixed k
                                       | None \<Rightarrow> UntilClose),
                      rsp_close = hs_close s\<rparr>)))"

section \<open>Rewriting heads\<close>

definition eq_ci :: "bytes \<Rightarrow> bytes \<Rightarrow> bool" where
  "eq_ci a b = eq_ignore_ascii_case_scalar (trim_ascii a) b"

abbreviation CRLF :: bytes where
  "CRLF \<equiv> [CHR 0x0D, CHR 0x0A]"

definition split_header_lines :: "bytes \<Rightarrow> bytes list" where
  "split_header_lines block =
     filter (\<lambda>line. line \<noteq> [])
       (map (\<lambda>line. case strip_suffix line [CHR 0x0D] of Some l \<Rightarrow> l | None \<Rightarrow> line)
         (split_on (CHR 0x0A) block))"

definition h1_nominated :: "http1_lib \<Rightarrow> bytes \<Rightarrow> bytes list" where
  "h1_nominated P block =
     concat (map (\<lambda>line. case l_memchr P (CHR '':'') line of
        None \<Rightarrow> []
      | Some colon \<Rightarrow>
          if \<not> eq_ci (take colon line) ''connection'' then []
          else concat (map (\<lambda>token. let token = trim_ascii token
                 in if token = [] \<or> eq_ci token ''close'' \<or> eq_ci token ''keep-alive'' then []
                    else [str_lower token])
               (split_on (CHR '','') (drop (colon + 1) line))))
       (split_header_lines block))"

definition is_hop_by_hop :: "bytes \<Rightarrow> bool" where
  "is_hop_by_hop name = list_ex (eq_ci name)
     [''connection'', ''keep-alive'', ''proxy-authenticate'', ''proxy-authorization'',
      ''proxy-connection'', ''te'', ''trailer'', ''upgrade'']"

definition first_line_end :: "http1_lib \<Rightarrow> bytes \<Rightarrow> nat \<Rightarrow> nat" where
  "first_line_end P original n =
     (case l_memmem P (take n original) CRLF of Some pos \<Rightarrow> pos + 2 | None \<Rightarrow> n)"

text \<open>One line of the forwarding loop: what is written so far and the last \<open>X-Forwarded-For\<close> seen.\<close>

definition forward_line ::
  "http1_lib \<Rightarrow> bytes list \<Rightarrow> bytes \<Rightarrow> bytes \<times> bytes option \<Rightarrow> bytes \<times> bytes option" where
  "forward_line P nominated line = (\<lambda>(out, xff).
     case l_memchr P (CHR '':'') line of
       None \<Rightarrow> (out, xff)
     | Some colon \<Rightarrow>
         (let name = take colon line
          in if is_hop_by_hop name \<or> eq_ci name ''host'' \<or> list_ex (eq_ci name) nominated then (out, xff)
             else if eq_ci name ''x-forwarded-for'' then (out, Some (trim_ascii (drop (colon + 1) line)))
             else (out @ line @ CRLF, xff)))"

definition write_forward_head ::
  "http1_lib \<Rightarrow> bytes \<Rightarrow> RequestHead \<Rightarrow> bytes \<Rightarrow> bytes \<Rightarrow> bytes option \<Rightarrow> bytes" where
  "write_forward_head P original head target upstream_host peer =
     (let out = rh_method head @ '' '' @ target @ '' HTTP/1.1'' @ CRLF;
          headers_start = first_line_end P original (head_len head);
          block = drop headers_start (take (head_len head) original);
          nominated = h1_nominated P block;
          (out, existing_xff) = fold (forward_line P nominated) (split_header_lines block) (out, None);
          out = out @ ''Host: '' @ upstream_host @ CRLF;
          out = (case peer of
                   Some ip \<Rightarrow> out @ ''X-Forwarded-For: ''
                     @ (case existing_xff of Some prev \<Rightarrow> prev @ '', '' | None \<Rightarrow> []) @ ip @ CRLF
                 | None \<Rightarrow> out)
      in out @ ''X-Forwarded-Proto: http'' @ CRLF @ CRLF)"

definition return_line :: "http1_lib \<Rightarrow> bytes list \<Rightarrow> bytes \<Rightarrow> bytes \<Rightarrow> bytes" where
  "return_line P nominated line out =
     (case l_memchr P (CHR '':'') line of
        None \<Rightarrow> out
      | Some colon \<Rightarrow>
          (let name = take colon line
           in if is_hop_by_hop name \<or> list_ex (eq_ci name) nominated then out else out @ line @ CRLF))"

definition write_return_head :: "http1_lib \<Rightarrow> bytes \<Rightarrow> ResponseHead \<Rightarrow> bool \<Rightarrow> bytes" where
  "write_return_head P original head keep_alive =
     (let status_line_end = first_line_end P original (rsp_head_len head);
          block = drop status_line_end (take (rsp_head_len head) original);
          nominated = h1_nominated P block;
          out = fold (return_line P nominated) (split_header_lines block) (take status_line_end original)
      in out @ (if keep_alive then ''Connection: keep-alive'' else ''Connection: close'') @ CRLF @ CRLF)"

definition error_response :: "nat \<Rightarrow> bytes \<Rightarrow> bytes" where
  "error_response status reason =
     ''HTTP/1.1 '' @ show_nat status @ '' '' @ reason @ CRLF @ ''Content-Length: 0'' @ CRLF
       @ ''Connection: close'' @ CRLF @ CRLF"

text \<open>A small concrete parser, for evaluation.\<close>

definition mini_lines :: "bytes \<Rightarrow> (nat \<times> bytes list) option" where
  "mini_lines buf = (case memmem_scan buf (CRLF @ CRLF) of
     None \<Rightarrow> None | Some i \<Rightarrow> Some (i + 4, split_header_lines (take i buf)))"

definition mini_headers :: "bytes list \<Rightarrow> (bytes \<times> bytes) list" where
  "mini_headers ls = map (\<lambda>l. (takeWhile (\<lambda>c. c \<noteq> CHR '':'') l,
     trim_ascii (drop 1 (dropWhile (\<lambda>c. c \<noteq> CHR '':'') l)))) ls"

definition mini_http1 :: http1_lib where
  "mini_http1 =
     \<lparr>l_memchr = memchr_scan, l_memmem = memmem_scan, l_utf8 = list_all (\<lambda>c. of_char c < (128::nat)),
      l_parse_request = (\<lambda>m buf. case mini_lines buf of
          None \<Rightarrow> HP_Partial
        | Some (n, []) \<Rightarrow> HP_Error
        | Some (n, l # ls) \<Rightarrow> (case split_on (CHR '' '') l of
            [mt, t, v] \<Rightarrow> HP_Complete n \<lparr>rq_method = Some mt, rq_path = Some t,
               rq_version = Some (if v = ''HTTP/1.0'' then 0 else 1), rq_headers = mini_headers ls\<rparr>
          | _ \<Rightarrow> HP_Error)),
      l_parse_response = (\<lambda>m buf. case mini_lines buf of
          None \<Rightarrow> HP_Partial
        | Some (n, []) \<Rightarrow> HP_Error
        | Some (n, l # ls) \<Rightarrow> (case split_on (CHR '' '') l of
            v # c # _ \<Rightarrow> HP_Complete n \<lparr>rs_version = Some (if v = ''HTTP/1.0'' then 0 else 1),
               rs_code = parse_uint 16 c, rs_headers = mini_headers ls\<rparr>
          | _ \<Rightarrow> HP_Error))\<rparr>"

lemma mini_http1_spec: "http1_spec mini_http1"
  by (simp add: http1_spec_def mini_http1_def memchr_scan_spec memmem_scan_spec)

section \<open>Framing\<close>

definition last_or :: "'a \<Rightarrow> 'a list \<Rightarrow> 'a" where
  "last_or d xs = (if xs = [] then d else last xs)"

lemma last_or_simps [simp]: "last_or d [] = d" "last_or d (x # xs) = last_or x xs"
  by (simp_all add: last_or_def)

text \<open>The values of the headers with a name, in order; those that are UTF-8.\<close>

definition named :: "bytes \<Rightarrow> (bytes \<times> bytes) list \<Rightarrow> bytes list" where
  "named n hs = map snd (filter (\<lambda>h. eq_icase (fst h) n) hs)"

lemma named_simps [simp]:
  "named n [] = []" "named n ((k, v) # hs) = (if eq_icase k n then v # named n hs else named n hs)"
  by (simp_all add: named_def)

definition named_utf8 :: "http1_lib \<Rightarrow> bytes \<Rightarrow> (bytes \<times> bytes) list \<Rightarrow> bytes list" where
  "named_utf8 P n hs = filter (l_utf8 P) (named n hs)"

lemma header_names_differ:
  "eq_icase k ''content-length'' \<Longrightarrow> \<not> eq_icase k ''host''"
  "eq_icase k ''transfer-encoding'' \<Longrightarrow> \<not> eq_icase k ''host''"
  "eq_icase k ''connection'' \<Longrightarrow> \<not> eq_icase k ''host''"
  "eq_icase k ''transfer-encoding'' \<Longrightarrow> \<not> eq_icase k ''content-length''"
  "eq_icase k ''connection'' \<Longrightarrow> \<not> eq_icase k ''content-length''"
  "eq_icase k ''connection'' \<Longrightarrow> \<not> eq_icase k ''transfer-encoding''"
  by (auto simp: eq_icase_def)

text \<open>What the request loop computes.\<close>

definition request_scan :: "http1_lib \<Rightarrow> (bytes \<times> bytes) list \<Rightarrow> head_scan \<Rightarrow> head_scan" where
  "request_scan P hs s =
     \<lparr>hs_host = last_or (hs_host s) (map (validate_utf8 (l_utf8 P)) (named ''host'' hs)),
      hs_length = last_or (hs_length s) (map (content_length_of P) (named ''content-length'' hs)),
      hs_chunked = last_or (hs_chunked s) (map last_coding_chunked (named_utf8 P ''transfer-encoding'' hs)),
      hs_close = fold connection_tokens (named_utf8 P ''connection'' hs) (hs_close s)\<rparr>"

lemma scan_requests_result:
  "scan_requests P hs s =
     (if None \<in> set (map (content_length_of P) (named ''content-length'' hs)) then None
      else Some (request_scan P hs s))"
proof (induction hs arbitrary: s)
  case Nil
  then show ?case by (simp add: request_scan_def named_utf8_def)
next
  case (Cons h hs)
  obtain k v where h: "h = (k, v)" by fastforce
  consider "eq_icase k ''host''" | "eq_icase k ''content-length''" | "eq_icase k ''transfer-encoding''"
    | "eq_icase k ''connection''" | "\<not> eq_icase k ''host''" "\<not> eq_icase k ''content-length''"
      "\<not> eq_icase k ''transfer-encoding''" "\<not> eq_icase k ''connection''" by blast
  then show ?case
    by cases
      (use header_names_differ [of k] in \<open>auto simp: h Cons scan_request_def request_scan_def named_utf8_def
         validate_utf8_def split: option.splits\<close>)
qed

lemma scan_response_app:
  "scan_response P (name, value) s =
     (if eq_icase name ''content-length'' then s\<lparr>hs_length := content_length_of P value\<rparr>
      else if eq_icase name ''transfer-encoding'' then
        (if l_utf8 P value then s\<lparr>hs_chunked := last_coding_chunked value\<rparr> else s)
      else if eq_icase name ''connection'' then
        (if l_utf8 P value then s\<lparr>hs_close := connection_tokens value (hs_close s)\<rparr> else s)
      else s)"
  by (simp add: scan_response_def validate_utf8_def)

lemma scan_response_result:
  "fold (scan_response P) hs s =
     \<lparr>hs_host = hs_host s,
      hs_length = last_or (hs_length s) (map (content_length_of P) (named ''content-length'' hs)),
      hs_chunked = last_or (hs_chunked s) (map last_coding_chunked (named_utf8 P ''transfer-encoding'' hs)),
      hs_close = fold connection_tokens (named_utf8 P ''connection'' hs) (hs_close s)\<rparr>"
proof (induction hs arbitrary: s)
  case (Cons h hs)
  obtain k v where h: "h = (k, v)" by fastforce
  consider "eq_icase k ''content-length''" | "eq_icase k ''transfer-encoding''"
    | "eq_icase k ''connection''" | "\<not> eq_icase k ''content-length''"
      "\<not> eq_icase k ''transfer-encoding''" "\<not> eq_icase k ''connection''" by blast
  then show ?case
    by cases
      (use header_names_differ [of k] in \<open>auto simp: h Cons scan_response_app named_utf8_def validate_utf8_def\<close>)
qed (simp add: named_utf8_def)

text \<open>
  C19: request framing.  On a head \<open>httparse\<close> accepts, parsing fails exactly when some \<open>Content-Length\<close>
  is not a 64-bit decimal number; otherwise the body is chunked when the last coding of the last
  readable \<open>Transfer-Encoding\<close> is \<open>chunked\<close> (which wins over a length), else it has the length of the
  last \<open>Content-Length\<close>, and is empty without one or with 0; the host is the last \<open>Host\<close> value, and
  the connection closes after the exchange according to the \<open>Connection\<close> tokens, or for HTTP/1.0.
\<close>

theorem parse_request_framing:
  assumes "l_parse_request P MAX_HEADERS buf = HP_Complete n req" "rq_method req = Some mt"
    "rq_path req = Some t" "l_memmem P buf t = Some i"
  shows "parse_request P buf =
    (if \<exists>v\<in>set (named ''content-length'' (rq_headers req)). content_length_of P v = None
     then Invalid ''invalid Content-Length''
     else Complete
       \<lparr>head_len = n, rh_method = mt, rh_target = t,
        rh_host = last_or None (map (validate_utf8 (l_utf8 P)) (named ''host'' (rq_headers req))),
        rh_body = (if last_or False (map last_coding_chunked (named_utf8 P ''transfer-encoding'' (rq_headers req)))
                   then Chunked
                   else case last_or None (map (content_length_of P) (named ''content-length'' (rq_headers req))) of
                          None \<Rightarrow> Empty | Some k \<Rightarrow> if k = 0 then Empty else Fixed k),
        rh_close = fold connection_tokens (named_utf8 P ''connection'' (rq_headers req)) (rq_version req = Some 0),
        rh_target_span = (i, i + length t)\<rparr>)"
proof -
  have "None \<in> set (map (content_length_of P) vs) \<longleftrightarrow> (\<exists>v\<in>set vs. content_length_of P v = None)" for vs
    by (auto simp: image_iff eq_commute)
  then show ?thesis
    using assms by (simp add: parse_request_def scan_requests_result request_scan_def)
qed

definition example_request :: bytes where
  "example_request = ''POST /p HTTP/1.1'' @ CRLF @ ''Host: a'' @ CRLF @ ''Content-Length: 3'' @ CRLF
     @ ''Connection: close, x-t'' @ CRLF @ ''X-T: 1'' @ CRLF @ ''Accept: q'' @ CRLF @ CRLF"

definition example_headers :: "(bytes \<times> bytes) list" where
  "example_headers = [(''Host'', ''a''), (''Content-Length'', ''3''), (''Connection'', ''close, x-t''), (''X-T'', ''1''), (''Accept'', ''q'')]"

definition example_parsed :: hp_request where
  "example_parsed = \<lparr>rq_method = Some ''POST'', rq_path = Some ''/p'', rq_version = Some 1, rq_headers = example_headers\<rparr>"

definition example_head :: RequestHead where
  "example_head = \<lparr>head_len = 91, rh_method = ''POST'', rh_target = ''/p'', rh_host = Some ''a'', rh_body = Fixed 3,
      rh_close = True, rh_target_span = (5, 7)\<rparr>"

lemma example_parse: "l_parse_request mini_http1 MAX_HEADERS example_request = HP_Complete 91 example_parsed"
  by code_simp

lemma example_target: "l_memmem mini_http1 example_request ''/p'' = Some 5"
  by code_simp

lemma example_fields:
  "rq_method example_parsed = Some ''POST''" "rq_path example_parsed = Some ''/p''"
  "rq_version example_parsed = Some 1" "rq_headers example_parsed = example_headers"
  by (simp_all add: example_parsed_def)

lemma example_framing:
  "named ''content-length'' example_headers = [''3'']"
  "last_or None (map (validate_utf8 (l_utf8 mini_http1)) (named ''host'' example_headers)) = Some ''a''"
  "last_or False (map last_coding_chunked (named_utf8 mini_http1 ''transfer-encoding'' example_headers)) = False"
  "fold connection_tokens (named_utf8 mini_http1 ''connection'' example_headers) False = True"
  by code_simp+

lemma example_length: "content_length_of mini_http1 ''3'' = Some 3"
proof -
  have "show_nat 3 = ''3''" "validate_utf8 (l_utf8 mini_http1) ''3'' = Some ''3''" "str_trim ''3'' = ''3''" by code_simp+
  then show ?thesis
    using parse_show_nat [of 3 64] by (simp add: content_length_of_def)
qed

theorem parse_request_framing_witness: "parse_request mini_http1 example_request = Complete example_head"
proof -
  have "(5::nat) + length ''/p'' = 7" "last_or None [Some 3] = Some (3::nat)" by (simp_all add: last_or_def)
  then show ?thesis
    using parse_request_framing [OF example_parse example_fields(1,2) example_target]
    by (simp add: example_fields(3,4) example_framing example_length example_head_def)
qed

text \<open>
  response framing.  A response to \<open>HEAD\<close>, and any 1xx, 204 or 304, has no body whatever its
  headers say; otherwise \<open>chunked\<close> as the last coding wins, then the last \<open>Content-Length\<close> if it is a
  number, and without either the body runs to the end of the connection.
\<close>

theorem parse_response_framing:
  assumes "l_parse_response P MAX_HEADERS buf = HP_Complete n resp" "rs_code resp = Some status"
  shows "\<exists>h. parse_response P buf mt = Complete h \<and> rsp_head_len h = n \<and> rsp_status h = status \<and>
    rsp_close h = fold connection_tokens (named_utf8 P ''connection'' (rs_headers resp)) (rs_version resp = Some 0) \<and>
    rsp_body h =
      (if eq_icase mt ''HEAD'' \<or> status = 204 \<or> status = 304 \<or> status div 100 = 1 then Empty
       else if last_or False (map last_coding_chunked (named_utf8 P ''transfer-encoding'' (rs_headers resp)))
       then Chunked
       else case last_or None (map (content_length_of P) (named ''content-length'' (rs_headers resp))) of
              Some k \<Rightarrow> if k = 0 then Empty else Fixed k | None \<Rightarrow> UntilClose)"
proof -
  have "bodyless mt status \<longleftrightarrow> eq_icase mt ''HEAD'' \<or> status = 204 \<or> status = 304 \<or> status div 100 = 1"
    by (auto simp: bodyless_def)
  then show ?thesis
    using assms by (simp add: parse_response_def scan_response_result Let_def)
qed

definition chunked_response :: bytes where
  "chunked_response = ''HTTP/1.1 200 OK'' @ CRLF @ ''Transfer-Encoding: gzip, Chunked'' @ CRLF @ CRLF"

definition chunked_parsed :: hp_response where
  "chunked_parsed = \<lparr>rs_version = Some 1, rs_code = Some 200, rs_headers = [(''Transfer-Encoding'', ''gzip, Chunked'')]\<rparr>"

lemma chunked_parse: "l_parse_response mini_http1 MAX_HEADERS chunked_response = HP_Complete 53 chunked_parsed"
  by code_simp

lemma chunked_coding:
  "last_or False (map last_coding_chunked (named_utf8 mini_http1 ''transfer-encoding'' (rs_headers chunked_parsed)))"
  "\<not> eq_icase ''GET'' ''HEAD''"
  by code_simp+

theorem parse_response_framing_witness:
  "\<exists>h. parse_response mini_http1 chunked_response ''GET'' = Complete h \<and> rsp_body h = Chunked"
proof -
  have "rs_code chunked_parsed = Some 200" by (simp add: chunked_parsed_def)
  then show ?thesis
    using parse_response_framing [OF chunked_parse, of 200 "''GET''"] chunked_coding by auto
qed

section \<open>Header lines\<close>

definition header_name :: "bytes \<Rightarrow> bytes" where
  "header_name line = takeWhile (\<lambda>c. c \<noteq> CHR '':'') line"

definition join_lines :: "bytes list \<Rightarrow> bytes" where
  "join_lines ls = concat (map (\<lambda>l. l @ CRLF) ls)"

lemma join_lines_append [simp]: "join_lines (a @ b) = join_lines a @ join_lines b"
  by (simp add: join_lines_def)

lemma split_header_lines_no_lf: "l \<in> set (split_header_lines b) \<Longrightarrow> CHR 0x0A \<notin> set l \<and> l \<noteq> []"
  by (auto simp: split_header_lines_def strip_suffix_Some dest!: split_on_no_sep split: option.splits)

lemma strip_cr [simp]: "strip_suffix (l @ [CHR 0x0D]) [CHR 0x0D] = Some l"
  by (simp add: strip_suffix_Some)

text \<open>Writing header lines and splitting them again gives the same lines.\<close>

lemma split_join_lines:
  assumes "\<forall>l\<in>set ls. CHR 0x0A \<notin> set l \<and> l \<noteq> []"
  shows "split_header_lines (join_lines ls @ CRLF) = ls"
  using assms
proof (induction ls)
  case Nil
  have "strip_suffix [CHR 0x0D] [CHR 0x0D] = Some []" "strip_suffix [] [CHR 0x0D] = None"
    by (simp_all add: strip_suffix_def)
  then show ?case by (simp add: join_lines_def split_header_lines_def)
next
  case (Cons l ls)
  have "split_on (CHR 0x0A) (join_lines (l # ls) @ CRLF) = (l @ [CHR 0x0D]) # split_on (CHR 0x0A) (join_lines ls @ CRLF)"
    using split_on_append [of "CHR 0x0A" "l @ [CHR 0x0D]" "join_lines ls @ CRLF"] Cons.prems
    by (simp add: join_lines_def)
  then show ?case using Cons by (simp add: split_header_lines_def)
qed

lemma memchr_colon:
  assumes "memchr_spec m"
  shows "m (CHR '':'') line = (if CHR '':'' \<in> set line then Some (length (header_name line)) else None)"
  by (simp only: memchr_spec_scan [OF assms] memchr_scan_takeWhile header_name_def)

lemma take_header_name [simp]: "take (length (header_name line)) line = header_name line"
  by (simp add: header_name_def take_takeWhile_length)

text \<open>What a header value is: the line after its colon, without surrounding white space.\<close>

definition header_value :: "bytes \<Rightarrow> bytes" where
  "header_value line = trim_ascii (drop (length (header_name line) + 1) line)"

definition end_to_end :: "bytes list \<Rightarrow> bytes \<Rightarrow> bool" where
  "end_to_end nominated line = (CHR '':'' \<in> set line \<and> \<not> is_hop_by_hop (header_name line)
     \<and> \<not> list_ex (eq_ci (header_name line)) nominated)"

definition forwarded :: "bytes list \<Rightarrow> bytes \<Rightarrow> bool" where
  "forwarded nominated line = (end_to_end nominated line \<and> \<not> eq_ci (header_name line) ''host''
     \<and> \<not> eq_ci (header_name line) ''x-forwarded-for'')"

definition client_xff :: "bytes list \<Rightarrow> bytes \<Rightarrow> bool" where
  "client_xff nominated line = (end_to_end nominated line \<and> \<not> eq_ci (header_name line) ''host''
     \<and> eq_ci (header_name line) ''x-forwarded-for'')"

lemma forward_line_step:
  assumes "memchr_spec (l_memchr P)"
  shows "forward_line P nom l (out, x) =
    (if forwarded nom l then (out @ l @ CRLF, x)
     else if client_xff nom l then (out, Some (header_value l)) else (out, x))"
  by (simp add: forward_line_def memchr_colon [OF assms] forwarded_def client_xff_def end_to_end_def
      header_value_def Let_def)

lemma return_line_step:
  assumes "memchr_spec (l_memchr P)"
  shows "return_line P nom l out = (if end_to_end nom l then out @ l @ CRLF else out)"
  by (simp add: return_line_def memchr_colon [OF assms] end_to_end_def Let_def)

lemma forwarded_not_xff: "forwarded nom l \<Longrightarrow> \<not> client_xff nom l"
  by (simp add: forwarded_def client_xff_def)

lemma join_lines_Cons [simp]: "join_lines (l # ls) = l @ CRLF @ join_lines ls" "join_lines [] = []"
  by (simp_all add: join_lines_def)

lemma fold_forward_line:
  assumes "memchr_spec (l_memchr P)"
  shows "fold (forward_line P nom) ls (out, x) =
    (out @ join_lines (filter (forwarded nom) ls),
     last_or x (map (\<lambda>l. Some (header_value l)) (filter (client_xff nom) ls)))"
  by (induction ls arbitrary: out x) (auto simp: forward_line_step [OF assms] forwarded_not_xff)

lemma fold_return_line:
  assumes "memchr_spec (l_memchr P)"
  shows "fold (return_line P nom) ls out = out @ join_lines (filter (end_to_end nom) ls)"
  by (induction ls arbitrary: out) (auto simp: return_line_step [OF assms])

text \<open>The header lines of the forwarded head.\<close>

definition forwarded_lines ::
  "http1_lib \<Rightarrow> bytes \<Rightarrow> bytes \<Rightarrow> bytes option \<Rightarrow> bytes list" where
  "forwarded_lines P block upstream_host peer =
     filter (forwarded (h1_nominated P block)) (split_header_lines block)
     @ [''Host: '' @ upstream_host]
     @ (case peer of None \<Rightarrow> []
        | Some ip \<Rightarrow> [''X-Forwarded-For: ''
            @ (case last_or None (map (\<lambda>l. Some (header_value l))
                  (filter (client_xff (h1_nominated P block)) (split_header_lines block))) of
                 Some prev \<Rightarrow> prev @ '', '' | None \<Rightarrow> []) @ ip])
     @ [''X-Forwarded-Proto: http'']"

definition header_block :: "http1_lib \<Rightarrow> bytes \<Rightarrow> nat \<Rightarrow> bytes" where
  "header_block P original n = drop (first_line_end P original n) (take n original)"

lemma write_forward_head_lines:
  assumes "http1_spec P"
  shows "write_forward_head P original head target up peer =
    rh_method head @ '' '' @ target @ '' HTTP/1.1'' @ CRLF
      @ join_lines (forwarded_lines P (header_block P original (head_len head)) up peer) @ CRLF"
  using assms
  by (auto simp: write_forward_head_def http1_spec_def fold_forward_line header_block_def forwarded_lines_def Let_def
      split: option.split)

lemma trim_ascii_subset: "set (trim_ascii s) \<subseteq> set s"
  unfolding trim_ascii_def by (metis (no_types) dual_order.trans set_dropWhileD set_rev subsetI)

lemma header_value_subset: "set (header_value l) \<subseteq> set l"
  using trim_ascii_subset set_drop_subset unfolding header_value_def by (meson dual_order.trans)

lemma last_or_Some: "last_or None (map (\<lambda>x. Some (f x)) xs) = Some y \<Longrightarrow> \<exists>x\<in>set xs. y = f x"
  by (auto simp: last_or_def last_map split: if_splits)

lemma forwarded_lines_no_lf:
  assumes "CHR 0x0A \<notin> set up" "\<And>ip. peer = Some ip \<Longrightarrow> CHR 0x0A \<notin> set ip"
  shows "\<forall>l\<in>set (forwarded_lines P block up peer). CHR 0x0A \<notin> set l \<and> l \<noteq> []"
proof -
  have "CHR 0x0A \<notin> set prev"
    if "last_or None (map (\<lambda>l. Some (header_value l)) (filter (client_xff nom) (split_header_lines block))) = Some prev" for nom prev
    using last_or_Some [OF that] header_value_subset split_header_lines_no_lf by fastforce
  then show ?thesis
    using assms by (auto simp: forwarded_lines_def dest: split_header_lines_no_lf split: option.splits)
qed

lemma own_header_names:
  "header_name (''Host: '' @ s) = ''Host''" "header_name (''X-Forwarded-For: '' @ s) = ''X-Forwarded-For''"
  "header_name ''X-Forwarded-Proto: http'' = ''X-Forwarded-Proto''"
  "header_name ''Connection: close'' = ''Connection''" "header_name ''Connection: keep-alive'' = ''Connection''"
  by (simp_all add: header_name_def)

lemma own_not_hop_by_hop:
  "\<not> is_hop_by_hop ''Host''" "\<not> is_hop_by_hop ''X-Forwarded-For''" "\<not> is_hop_by_hop ''X-Forwarded-Proto''"
  by code_simp+

lemma own_host: "eq_ci ''Host'' ''host''" "\<not> eq_ci ''X-Forwarded-For'' ''host''" "\<not> eq_ci ''X-Forwarded-Proto'' ''host''"
  by code_simp+

lemma forwarded_lines_shape:
  "\<exists>X. forwarded_lines P block up peer = filter (forwarded (h1_nominated P block)) (split_header_lines block)
      @ [''Host: '' @ up] @ X @ [''X-Forwarded-Proto: http'']
    \<and> (\<forall>l\<in>set X. header_name l = ''X-Forwarded-For'')"
proof (cases peer)
  case None
  then show ?thesis unfolding forwarded_lines_def by (intro exI [of _ "[]"]) simp
next
  case (Some ip)
  then show ?thesis
    unfolding forwarded_lines_def option.case
    by (intro exI conjI) (rule refl, simp only: option.case list.set ball_simps own_header_names simp_thms)
qed

lemma hygiene_of_shape:
  assumes "hop h = False" "hop r = False" "host h" "\<not> host r" "\<forall>l\<in>set X. \<not> hop l \<and> \<not> host l"
    "\<forall>l\<in>set F. \<not> hop l \<and> \<not> host l"
  shows "(\<forall>l\<in>set (F @ [h] @ X @ [r]). \<not> hop l) \<and> filter host (F @ [h] @ X @ [r]) = [h]"
proof -
  have "filter host F = []" "filter host X = []" using assms(5,6) by (simp_all add: filter_empty_conv)
  then show ?thesis using assms by auto
qed

lemma forwarded_lines_hygiene:
  "(\<forall>l\<in>set (forwarded_lines P block up peer). \<not> is_hop_by_hop (header_name l)) \<and>
   filter (\<lambda>l. eq_ci (header_name l) ''host'') (forwarded_lines P block up peer) = [''Host: '' @ up]"
proof -
  obtain X where lines: "forwarded_lines P block up peer = filter (forwarded (h1_nominated P block)) (split_header_lines block)
      @ [''Host: '' @ up] @ X @ [''X-Forwarded-Proto: http'']"
    and X: "\<forall>l\<in>set X. header_name l = ''X-Forwarded-For''"
    using forwarded_lines_shape [of P block up peer] by blast
  have "\<not> is_hop_by_hop (header_name l) \<and> \<not> eq_ci (header_name l) ''host''" if "l \<in> set X" for l
    by (simp only: bspec [OF X that] own_not_hop_by_hop own_host simp_thms)
  then show ?thesis
    unfolding lines
    by (intro hygiene_of_shape [where hop = "\<lambda>l. is_hop_by_hop (header_name l)" and host = "\<lambda>l. eq_ci (header_name l) ''host''"])
      (simp_all only: own_header_names own_not_hop_by_hop own_host simp_thms forwarded_def end_to_end_def set_filter mem_Collect_eq,
       blast+)
qed

text \<open>
  C5: the forwarded request head.  It is the request line with the (possibly rewritten) target,
  followed by header lines that read back as: the client's lines, in order and byte for byte, less
  the hop-by-hop ones, those nominated by \<open>Connection\<close>, the client's \<open>Host\<close> and \<open>X-Forwarded-For\<close>;
  then the upstream's \<open>Host\<close>, the extended \<open>X-Forwarded-For\<close> chain when the peer is known, and the
  protocol.  No hop-by-hop header is among them and there is exactly one \<open>Host\<close>.
\<close>

theorem write_forward_head_correct:
  assumes "http1_spec P" "CHR 0x0A \<notin> set up" "\<And>ip. peer = Some ip \<Longrightarrow> CHR 0x0A \<notin> set ip"
    "ls = forwarded_lines P (header_block P original (head_len head)) up peer"
  shows "write_forward_head P original head target up peer =
      rh_method head @ '' '' @ target @ '' HTTP/1.1'' @ CRLF @ join_lines ls @ CRLF
    \<and> split_header_lines (join_lines ls @ CRLF) = ls
    \<and> (\<forall>l\<in>set ls. \<not> is_hop_by_hop (header_name l))
    \<and> filter (\<lambda>l. eq_ci (header_name l) ''host'') ls = [''Host: '' @ up]"
  using write_forward_head_lines [OF assms(1)] forwarded_lines_hygiene assms(4)
    split_join_lines [OF forwarded_lines_no_lf [OF assms(2)]] assms(3) by metis

definition example_lines :: "bytes list" where
  "example_lines = [''Content-Length: 3'', ''Accept: q'', ''Host: up:80'', ''X-Forwarded-For: 10.0.0.9'',
     ''X-Forwarded-Proto: http'']"

lemma example_forwarded:
  "example_lines = forwarded_lines mini_http1 (header_block mini_http1 example_request (head_len example_head))
     ''up:80'' (Some ''10.0.0.9'')"
  by code_simp

theorem write_forward_head_correct_witness:
  "write_forward_head mini_http1 example_request example_head ''/q'' ''up:80'' (Some ''10.0.0.9'')
   = ''POST '' @ ''/q HTTP/1.1'' @ CRLF @ join_lines example_lines @ CRLF"
proof -
  have "CHR 0x0A \<notin> set ''up:80''" "CHR 0x0A \<notin> set ''10.0.0.9''" by code_simp+
  moreover have "rh_method example_head = ''POST''" by (simp add: example_head_def)
  ultimately show ?thesis
    using write_forward_head_correct [OF mini_http1_spec _ _ example_forwarded, of "''/q''"] by simp
qed

lemma disposition_line:
  "\<exists>d. (if k then ''Connection: keep-alive'' else ''Connection: close'') = d \<and> CHR 0x0A \<notin> set d \<and> d \<noteq> []
     \<and> header_name d = ''Connection''"
  by (cases k) (simp_all add: own_header_names)

lemma write_return_head_lines:
  assumes "http1_spec P" "block = header_block P original (rsp_head_len head)"
  shows "write_return_head P original head k =
    take (first_line_end P original (rsp_head_len head)) original
      @ join_lines (filter (end_to_end (h1_nominated P block)) (split_header_lines block)
          @ [if k then ''Connection: keep-alive'' else ''Connection: close'']) @ CRLF"
  using assms
  by (cases k) (simp_all add: write_return_head_def http1_spec_def fold_return_line header_block_def Let_def)

definition example_response :: bytes where
  "example_response = ''HTTP/1.1 200 OK'' @ CRLF @ ''A: 1'' @ CRLF @ ''Keep-Alive: 5'' @ CRLF
     @ ''X-B: 2'' @ CRLF @ ''Connection: x-b'' @ CRLF @ CRLF"

definition example_response_head :: ResponseHead where
  "example_response_head = \<lparr>rsp_head_len = 65, rsp_status = 200, rsp_body = UntilClose, rsp_close = False\<rparr>"

text \<open>
  the returned response head is the upstream's status line, its header lines in order and byte
  for byte less the hop-by-hop and nominated ones, and one \<open>Connection\<close> line with the disposition the
  proxy chose; the lines read back as they were written.
\<close>

theorem write_return_head_correct:
  assumes "http1_spec P" "block = header_block P original (rsp_head_len head)"
    "ls = filter (end_to_end (h1_nominated P block)) (split_header_lines block)
       @ [if keep_alive then ''Connection: keep-alive'' else ''Connection: close'']"
  shows "write_return_head P original head keep_alive =
      take (first_line_end P original (rsp_head_len head)) original @ join_lines ls @ CRLF
    \<and> split_header_lines (join_lines ls @ CRLF) = ls
    \<and> filter (\<lambda>l. is_hop_by_hop (header_name l)) ls
       = [if keep_alive then ''Connection: keep-alive'' else ''Connection: close'']"
proof -
  obtain d where d_def: "(if keep_alive then ''Connection: keep-alive'' else ''Connection: close'') = d"
    and d: "CHR 0x0A \<notin> set d" "d \<noteq> []" "header_name d = ''Connection''"
    using disposition_line [of keep_alive] by blast
  have hop: "is_hop_by_hop (header_name d)" unfolding d(3) by code_simp
  have none: "filter (\<lambda>l. is_hop_by_hop (header_name l)) (filter (end_to_end nom) xs) = []" for nom xs
    by (auto simp: filter_empty_conv end_to_end_def)
  have ls: "ls = filter (end_to_end (h1_nominated P block)) (split_header_lines block) @ [d]"
    unfolding assms(3) d_def by (rule refl)
  have "split_header_lines (join_lines ls @ CRLF) = ls"
    using d split_header_lines_no_lf unfolding ls by (intro split_join_lines) auto
  moreover have "filter (\<lambda>l. is_hop_by_hop (header_name l)) ls = [d]"
    unfolding ls filter_append none using hop by simp
  moreover have "write_return_head P original head keep_alive =
      take (first_line_end P original (rsp_head_len head)) original @ join_lines ls @ CRLF"
    unfolding ls by (rule write_return_head_lines [OF assms(1,2), of keep_alive, unfolded d_def])
  ultimately show ?thesis unfolding d_def by blast
qed

theorem write_return_head_correct_witness:
  "write_return_head mini_http1 example_response example_response_head True =
     ''HTTP/1.1 200 OK'' @ CRLF @ join_lines [''A: 1'', ''Connection: keep-alive''] @ CRLF"
proof -
  have ls: "[''A: 1'', ''Connection: keep-alive''] =
      filter (end_to_end (h1_nominated mini_http1 (header_block mini_http1 example_response (rsp_head_len example_response_head))))
        (split_header_lines (header_block mini_http1 example_response (rsp_head_len example_response_head)))
      @ [if True then ''Connection: keep-alive'' else ''Connection: close'']"
    by code_simp
  have "take (first_line_end mini_http1 example_response (rsp_head_len example_response_head)) example_response
      = ''HTTP/1.1 200 OK'' @ CRLF" by code_simp
  then show ?thesis
    using write_return_head_correct [OF mini_http1_spec refl ls] by simp
qed

end
