(* ===== verification/Pool.thy ===== *)
theory Pool
  imports Prelude "HOL-Library.AList"
begin

text \<open>
  \<open>src/crates/proxy-monoio/src/pool.rs\<close>: the per-core pool of idle upstream connections.  The
  \<open>HashMap\<close> is an association list with distinct keys, a \<open>Vec\<close> is a list whose last element is the
  top, an \<open>Instant\<close> is a number of nanoseconds and each operation reads the clock once (\<open>now\<close>);
  \<open>elapsed\<close> saturates at zero like the subtraction of naturals.  The stream type is a parameter.
\<close>

section \<open>State and operations\<close>

definition MAX_IDLE_PER_HOST :: nat where
  "MAX_IDLE_PER_HOST = 8192"

definition MAX_IDLE_AGE :: nat where
  "MAX_IDLE_AGE = 45 * 1000000000"

record 's Pooled =
  stream :: 's
  parked_at :: nat

type_synonym 's ConnectionPool = "(bytes \<times> 's Pooled list) list"

definition pool_new :: "'s ConnectionPool" where
  "pool_new = []"

definition fresh :: "nat \<Rightarrow> 's Pooled \<Rightarrow> bool" where
  "fresh now entry = (now - parked_at entry < MAX_IDLE_AGE)"

function take_loop :: "nat \<Rightarrow> 's Pooled list \<Rightarrow> 's option \<times> 's Pooled list" where
  "take_loop now entries =
     (if entries = [] then (None, [])
      else if fresh now (last entries) then (Some (stream (last entries)), butlast entries)
      else take_loop now (butlast entries))"
  by pat_completeness auto
termination
  by (relation "measure (\<lambda>(now, entries). length entries)") auto

declare take_loop.simps [simp del]

definition pool_take :: "nat \<Rightarrow> bytes \<Rightarrow> 's ConnectionPool \<Rightarrow> 's option \<times> 's ConnectionPool" where
  "pool_take now address pool =
     (case map_of pool address of
        None \<Rightarrow> (None, pool)
      | Some entries \<Rightarrow> (case take_loop now entries of (r, entries') \<Rightarrow> (r, AList.update address entries' pool)))"

definition pool_put :: "nat \<Rightarrow> bytes \<Rightarrow> 's \<Rightarrow> 's ConnectionPool \<Rightarrow> 's ConnectionPool" where
  "pool_put now address s pool =
     (let entries = (case map_of pool address of Some es \<Rightarrow> es | None \<Rightarrow> []);
          entries = (if length entries < MAX_IDLE_PER_HOST
                     then entries @ [\<lparr>stream = s, parked_at = now\<rparr>] else entries)
      in AList.update address entries pool)"

definition idle_count :: "'s ConnectionPool \<Rightarrow> nat" where
  "idle_count pool = sum_list (map (\<lambda>(address, entries). length entries) pool)"

definition evict_expired :: "nat \<Rightarrow> 's ConnectionPool \<Rightarrow> 's ConnectionPool" where
  "evict_expired now pool =
     filter (\<lambda>(address, entries). entries \<noteq> []) (map (\<lambda>(address, entries). (address, filter (fresh now) entries)) pool)"

section \<open>What the pool holds\<close>

definition held :: "'s ConnectionPool \<Rightarrow> bytes \<Rightarrow> 's Pooled list" where
  "held pool address = (case map_of pool address of Some es \<Rightarrow> es | None \<Rightarrow> [])"

definition pool_wf :: "'s ConnectionPool \<Rightarrow> bool" where
  "pool_wf pool = (distinct (map fst pool) \<and> (\<forall>a. length (held pool a) \<le> MAX_IDLE_PER_HOST))"

lemma held_update: "held (AList.update k v pool) a = (if a = k then v else held pool a)"
  by (simp add: held_def update_conv')

lemma held_new [simp]: "held pool_new a = []"
  by (simp add: held_def pool_new_def)

lemma take_loop_split:
  "take_loop now entries = (r, rest) \<Longrightarrow>
     (r = None \<and> rest = [] \<and> (\<forall>e\<in>set entries. \<not> fresh now e)) \<or>
     (\<exists>e stale. r = Some (stream e) \<and> entries = rest @ e # stale \<and> fresh now e \<and> (\<forall>x\<in>set stale. \<not> fresh now x))"
proof (induction now entries rule: take_loop.induct)
  case (1 now entries)
  show ?case
  proof (cases "entries = []")
    case True
    then show ?thesis using 1(2) by (simp add: take_loop.simps)
  next
    case False
    then have es: "entries = butlast entries @ [last entries]" by simp
    show ?thesis
    proof (cases "fresh now (last entries)")
      case True
      then have "r = Some (stream (last entries))" "rest = butlast entries"
        using 1(2) False by (auto simp: take_loop.simps)
      then show ?thesis using True es
        by (intro disjI2 exI [of _ "last entries"] exI [of _ "[]"]) simp
    next
      case stale: False
      then have "take_loop now (butlast entries) = (r, rest)"
        using 1(2) False by (simp add: take_loop.simps [of now entries])
      from 1(1) [OF False stale this] show ?thesis
      proof
        assume *: "r = None \<and> rest = [] \<and> (\<forall>e\<in>set (butlast entries). \<not> fresh now e)"
        have "set entries = insert (last entries) (set (butlast entries))"
          by (metis es list.set(2) list.simps(15) rotate1.simps(2) set_rotate1)
        then show ?thesis using * stale by auto
      next
        assume "\<exists>e st. r = Some (stream e) \<and> butlast entries = rest @ e # st \<and> fresh now e \<and> (\<forall>x\<in>set st. \<not> fresh now x)"
        then obtain e st where *: "r = Some (stream e)" "butlast entries = rest @ e # st" "fresh now e"
          "\<forall>x\<in>set st. \<not> fresh now x" by blast
        then have "entries = rest @ e # (st @ [last entries])" using es by simp
        then show ?thesis using * stale
          by (intro disjI2 exI [of _ e] exI [of _ "st @ [last entries]"]) simp
      qed
    qed
  qed
qed

lemma take_loop_Nil [simp]: "take_loop now [] = (None, [])"
  by (simp add: take_loop.simps)

lemma take_loop_prefix: "prefix (snd (take_loop now es)) es"
proof -
  have "snd (take_loop now es) = [] \<or> (\<exists>ys. es = snd (take_loop now es) @ ys)"
    using take_loop_split [of now es "fst (take_loop now es)" "snd (take_loop now es)"] by auto
  then show ?thesis by (metis Nil_prefix prefixI)
qed

lemma held_take:
  "held (snd (pool_take now address pool)) a =
     (if a = address then snd (take_loop now (held pool address)) else held pool a)"
  by (auto simp: pool_take_def held_def update_conv' split: option.splits prod.splits)

lemma take_result: "fst (pool_take now address pool) = fst (take_loop now (held pool address))"
  by (auto simp: pool_take_def held_def split: option.splits prod.splits)

lemma held_put:
  "held (pool_put now address s pool) a =
     (if a = address \<and> length (held pool address) < MAX_IDLE_PER_HOST
      then held pool address @ [\<lparr>stream = s, parked_at = now\<rparr>] else held pool a)"
  by (auto simp: pool_put_def held_def update_conv' Let_def split: option.splits)

lemma map_of_filter_map:
  "distinct (map fst xs) \<Longrightarrow>
     map_of (filter (\<lambda>(k, v). P v) (map (\<lambda>(k, v). (k, f v)) xs)) k =
     (case map_of xs k of Some v \<Rightarrow> if P (f v) then Some (f v) else None | None \<Rightarrow> None)"
proof (induction xs)
  case (Cons x xs)
  have "map_of (filter (\<lambda>(k, v). P v) (map (\<lambda>(k, v). (k, f v)) xs)) (fst x) = None"
    using Cons by (auto simp: map_of_eq_None_iff image_iff split: prod.splits)
  then show ?case using Cons by (cases x) (auto split: option.splits)
qed simp

lemma held_evict: "pool_wf pool \<Longrightarrow> held (evict_expired now pool) a = filter (fresh now) (held pool a)"
  using map_of_filter_map [of pool "\<lambda>es. es \<noteq> []" "filter (fresh now)" a]
  by (auto simp: held_def evict_expired_def pool_wf_def split: option.splits)

section \<open>The pool as an interface\<close>

text \<open>
  What a user of a pool relies on: a connection comes out only under the address it was put in for,
  and no operation but \<open>put\<close> adds one.
\<close>

locale conn_pool =
  fixes get :: "'t \<Rightarrow> 'k \<Rightarrow> 'p \<Rightarrow> 's option \<times> 'p"
    and park :: "'t \<Rightarrow> 'k \<Rightarrow> 's \<Rightarrow> 'p \<Rightarrow> 'p"
    and holds :: "'p \<Rightarrow> 'k \<Rightarrow> 's \<Rightarrow> bool"
  assumes get_holds: "get t k p = (Some s, p') \<Longrightarrow> holds p k s"
    and get_shrinks: "holds (snd (get t k p)) k' s \<Longrightarrow> holds p k' s"
    and park_adds: "holds (park t k s p) k' s' \<Longrightarrow> holds p k' s' \<or> k' = k \<and> s' = s"
begin

text \<open>A property of the connections, by address, survives every use of the pool.\<close>

definition all_hold :: "('k \<Rightarrow> 's \<Rightarrow> bool) \<Rightarrow> 'p \<Rightarrow> bool" where
  "all_hold Q p = (\<forall>k s. holds p k s \<longrightarrow> Q k s)"

lemma all_hold_get: "all_hold Q p \<Longrightarrow> get t k p = (r, p') \<Longrightarrow> all_hold Q p' \<and> (\<forall>s. r = Some s \<longrightarrow> Q k s)"
  using get_holds [of t k p] get_shrinks [of t k p] by (fastforce simp: all_hold_def)

lemma all_hold_park: "all_hold Q p \<Longrightarrow> Q k s \<Longrightarrow> all_hold Q (park t k s p)"
  using park_adds by (fastforce simp: all_hold_def)

end

definition pool_holds :: "'s ConnectionPool \<Rightarrow> bytes \<Rightarrow> 's \<Rightarrow> bool" where
  "pool_holds pool a s = (s \<in> stream ` set (held pool a))"

interpretation pool: conn_pool pool_take pool_put pool_holds
proof
  fix t k s and p p' :: "'s ConnectionPool"
  assume "pool_take t k p = (Some s, p')"
  then have "take_loop t (held p k) = (Some s, snd (take_loop t (held p k)))"
    using take_result [of t k p] by (metis fst_conv prod.collapse)
  from take_loop_split [OF this] obtain e st
    where "s = stream e" "held p k = snd (take_loop t (held p k)) @ e # st" by auto
  then show "pool_holds p k s" by (metis imageI in_set_conv_decomp pool_holds_def)
next
  fix t k k' s and p :: "'s ConnectionPool"
  assume "pool_holds (snd (pool_take t k p)) k' s"
  then show "pool_holds p k' s"
    using set_mono_prefix [OF take_loop_prefix [of t "held p k"]]
    by (auto simp: pool_holds_def held_take split: if_splits)
next
  fix t k k' s s' and p :: "'s ConnectionPool"
  assume "pool_holds (pool_put t k s p) k' s'"
  then show "pool_holds p k' s' \<or> k' = k \<and> s' = s"
    by (auto simp: pool_holds_def held_put split: if_splits)
qed

lemma distinct_put: "distinct (map fst pool) \<Longrightarrow> distinct (map fst (pool_put now address s pool))"
  by (simp add: pool_put_def distinct_update Let_def)

lemma distinct_take: "distinct (map fst pool) \<Longrightarrow> distinct (map fst (snd (pool_take now address pool)))"
  by (auto simp: pool_take_def distinct_update split: option.splits prod.splits)

lemma distinct_evict: "distinct (map fst pool) \<Longrightarrow> distinct (map fst (evict_expired now pool))"
  by (auto simp: evict_expired_def comp_def case_prod_unfold intro!: distinct_map_filter)

section \<open>Correctness\<close>

text \<open>
  taking from the pool is LIFO among the connections that are still fresh.  The result is the most
  recently parked connection of that address younger than 45 s; it and the expired ones parked after
  it leave the pool, the others of that address stay in order and other addresses are untouched.
  Without a fresh connection the result is \<open>None\<close> and the address has none left.
\<close>

theorem pool_take_lifo:
  "\<exists>rest. (\<forall>a. held (snd (pool_take now address pool)) a = (if a = address then rest else held pool a)) \<and>
    (case fst (pool_take now address pool) of
       None \<Rightarrow> rest = [] \<and> \<not> list_ex (fresh now) (held pool address)
     | Some s \<Rightarrow> \<exists>e stale. held pool address = rest @ e # stale \<and> s = stream e \<and> fresh now e \<and>
                  \<not> list_ex (fresh now) stale)"
proof -
  obtain r rest where t: "take_loop now (held pool address) = (r, rest)" by fastforce
  show ?thesis
    using take_loop_split [OF t] by (intro exI [of _ rest]) (auto simp: held_take take_result list_ex_iff t)
qed

text \<open>
  C38: a connection put back is the next one taken for that address, unless the address already has 8192
  idle connections (then it is dropped) or 45 s pass; the pool never holds more than that per
  address, and eviction removes exactly the expired ones.
\<close>

theorem pool_put_take:
  assumes "pool_wf pool"
  shows "pool_wf (pool_put now address s pool) \<and> pool_wf (snd (pool_take now address pool)) \<and>
    pool_wf (evict_expired now pool) \<and>
    (length (held pool address) < MAX_IDLE_PER_HOST \<and> later - now < MAX_IDLE_AGE \<longrightarrow>
       fst (pool_take later address (pool_put now address s pool)) = Some s \<and>
       held (snd (pool_take later address (pool_put now address s pool))) address = held pool address) \<and>
    (length (held pool address) = MAX_IDLE_PER_HOST \<longrightarrow> (\<forall>a. held (pool_put now address s pool) a = held pool a)) \<and>
    held (evict_expired now pool) a = filter (fresh now) (held pool a)"
proof -
  have "pool_wf (pool_put now address s pool)"
    using assms distinct_put [of pool now address s] by (auto simp: pool_wf_def held_put)
  moreover have "pool_wf (snd (pool_take now address pool))"
    using assms order.trans [OF prefix_length_le [OF take_loop_prefix]] distinct_take [of pool now address]
    by (auto simp: pool_wf_def held_take)
  moreover have "pool_wf (evict_expired now pool)"
    using assms distinct_evict [of pool now]
    by (auto simp: pool_wf_def held_evict [OF assms] intro: order.trans [OF length_filter_le])
  moreover have "take_loop later (held pool address @ [\<lparr>stream = s, parked_at = now\<rparr>]) = (Some s, held pool address)"
    if "later - now < MAX_IDLE_AGE"
    using that by (simp add: take_loop.simps fresh_def)
  ultimately show ?thesis
    using held_evict [OF assms] by (auto simp: take_result held_take held_put)
qed

theorem pool_put_take_witness:
  "fst (pool_take 44000000000 ''a:1'' (pool_put 0 ''a:1'' (7::nat) pool_new)) = Some 7"
proof -
  have "pool_wf (pool_new :: nat ConnectionPool)" by (simp add: pool_wf_def) (simp add: pool_new_def)
  from pool_put_take [OF this, of 0 "''a:1''" 7 44000000000] show ?thesis
    by (simp add: MAX_IDLE_AGE_def MAX_IDLE_PER_HOST_def)
qed

end
