(* ===== verification/Http_Msg.thy ===== *)
theory Http_Msg
  imports Route_Table Proxy_Hygiene
begin

text \<open>
  The requests and responses of the \<open>http\<close> crate, which the Hyper data plane and the HTTP/2 path of the
  Monoio data plane share, and the forwarding contract that the data planes have in common.  \<open>Uri\<close>
  and its parsers are third-party: \<open>uri_lib\<close> is an argument of the definitions that use them.  A
  body is streamed and never looked at.
\<close>

section \<open>Messages\<close>

record uri =
  uri_host :: "bytes option"
  uri_path :: bytes
  uri_query :: "bytes option"
  uri_pq :: "bytes option"   \<comment> \<open>\<open>path_and_query()\<close>\<close>

record uri_lib =
  authority_try_from :: "bytes \<Rightarrow> bytes option"
  pq_try_from :: "bytes \<Rightarrow> bytes option"
  uri_from_parts :: "bytes \<Rightarrow> bytes \<Rightarrow> uri option"   \<comment> \<open>scheme \<open>http\<close>, authority, path and query\<close>
  uri_parse :: "bytes \<Rightarrow> uri option"

datatype Version = HTTP_10 | HTTP_11 | HTTP_2

datatype 'b BoxedBody = Empty_Body | Full_Body bytes | Incoming 'b

record ('h, 'b) Request =
  req_method :: bytes
  req_uri :: uri
  req_version :: Version
  req_headers :: 'h
  req_body :: "'b BoxedBody"

record ('h, 'b) Response =
  resp_status :: nat
  resp_headers :: 'h
  resp_body :: "'b BoxedBody"

abbreviation HOST :: bytes where
  "HOST \<equiv> ''host''"

text \<open>The host a request is routed by: the authority of the URI, else a readable \<open>Host\<close> header.\<close>

definition host_of :: "'h http_lib \<Rightarrow> uri \<Rightarrow> 'h \<Rightarrow> bytes option" where
  "host_of L u headers =
     (case uri_host u of Some h \<Rightarrow> Some h | None \<Rightarrow> Option.bind (hm_get L headers HOST) (to_str L))"

definition with_query :: "bytes \<Rightarrow> bytes option \<Rightarrow> bytes" where
  "with_query path query = (case query of Some q \<Rightarrow> path @ ''?'' @ q | None \<Rightarrow> path)"

section \<open>The forwarding contract\<close>

text \<open>
  What every data plane promises of the headers it sends upstream: hop-by-hop headers stripped, then
  the \<open>X-Forwarded-*\<close> headers when they are enabled, then the route's filters.
\<close>

definition forward_headers :: "'h http_lib \<Rightarrow> bool \<Rightarrow> bytes \<Rightarrow> RouteFilters \<Rightarrow> 'h \<Rightarrow> 'h" where
  "forward_headers L forwarded peer rf headers =
     (let headers = strip_hop_by_hop L headers;
          headers = (if forwarded then set_forwarded_proto L ''http'' (append_forwarded_for L peer headers)
                     else headers)
      in apply_request_headers L rf headers)"

definition return_headers :: "'h http_lib \<Rightarrow> RouteFilters \<Rightarrow> 'h \<Rightarrow> 'h" where
  "return_headers L rf headers = apply_response_headers L rf (strip_hop_by_hop L headers)"

text \<open>Which headers a route's filters can change.\<close>

definition compiled_name :: "Compiled \<Rightarrow> bytes" where
  "compiled_name c = (case c of C_Set n v \<Rightarrow> n | C_Add n v \<Rightarrow> n | C_Remove n \<Rightarrow> n)"

definition request_touches :: "RouteFilters \<Rightarrow> bytes \<Rightarrow> bool" where
  "request_touches rf n = (case rf of None \<Rightarrow> False | Some p \<Rightarrow> n \<in> compiled_name ` set (request_headers p))"

lemma fold_apply_untouched:
  assumes "http_spec L" "n \<notin> compiled_name ` set cs"
  shows "hm_get_all L (fold (apply_compiled L) cs h) n = hm_get_all L h n"
  using assms(2)
  by (induction cs arbitrary: h)
    (auto simp: apply_compiled_def compiled_name_def http_specD [OF assms(1)] split: Compiled.splits)

lemma apply_request_untouched:
  assumes "http_spec L" "\<not> request_touches rf n"
  shows "hm_get_all L (apply_request_headers L rf h) n = hm_get_all L h n"
  using assms by (auto simp: apply_request_headers_def request_touches_def fold_apply_untouched split: option.splits)

lemma append_forwarded_for_other:
  assumes "http_spec L" "n \<noteq> FORWARDED_FOR"
  shows "hm_get_all L (append_forwarded_for L peer h) n = hm_get_all L h n"
  using assms by (simp add: append_forwarded_for_def http_specD [OF assms(1)] Let_def split: option.split)

lemma forward_headers_untouched:
  assumes "http_spec L" "\<not> request_touches rf n" "n \<noteq> FORWARDED_FOR" "n \<noteq> FORWARDED_PROTO"
  shows "hm_get_all L (forward_headers L fwd peer rf h) n = hm_get_all L (strip_hop_by_hop L h) n"
  using assms
  by (simp add: forward_headers_def Let_def apply_request_untouched append_forwarded_for_other set_forwarded_proto_def
      http_specD(2) [OF assms(1)])

text \<open>
  A data plane's header preparation, as an interface: all of them agree with \<open>forward_headers\<close> but for
  the \<open>Host\<close> header, which each sets its own way.  A plane works on a message of its own (\<open>view\<close> gives
  its headers) under what it relies on of its libraries (\<open>ok\<close>).
\<close>

locale forwarding_plane =
  fixes prepare :: "'h http_lib \<Rightarrow> bool \<Rightarrow> bytes \<Rightarrow> RouteFilters \<Rightarrow> 'q \<Rightarrow> 'q"
    and view :: "'q \<Rightarrow> 'h" and ok :: "'h http_lib \<Rightarrow> bool"
  assumes ok_spec: "ok L \<Longrightarrow> http_spec L"
    and prepare_values:
    "ok L \<Longrightarrow> list_all visible_char peer \<Longrightarrow> n \<noteq> HOST \<Longrightarrow>
       hm_get_all L (view (prepare L fwd peer rf q)) n = hm_get_all L (forward_headers L fwd peer rf (view q)) n"
begin

lemma hop_by_hop_gone:
  assumes "ok L" "list_all visible_char peer" "n \<in> set (CONNECTION # HOP_BY_HOP) \<or> nominates L (view q) n"
    "\<not> request_touches rf n" "n \<noteq> HOST" "n \<noteq> FORWARDED_FOR" "n \<noteq> FORWARDED_PROTO"
  shows "hm_get_all L (view (prepare L fwd peer rf q)) n = []"
  using assms ok_spec [OF assms(1)]
  by (auto simp: prepare_values forward_headers_untouched strip_hop_by_hop_values)

lemma end_to_end_kept:
  assumes "ok L" "list_all visible_char peer" "n \<notin> set (CONNECTION # HOP_BY_HOP)" "\<not> nominates L (view q) n"
    "\<not> request_touches rf n" "n \<noteq> HOST" "n \<noteq> FORWARDED_FOR" "n \<noteq> FORWARDED_PROTO"
  shows "hm_get_all L (view (prepare L fwd peer rf q)) n = hm_get_all L (view q) n"
  using assms ok_spec [OF assms(1)]
  by (auto simp: prepare_values forward_headers_untouched strip_hop_by_hop_values)

lemma peer_is_last:
  assumes "ok L" "list_all visible_char peer" "\<not> request_touches rf FORWARDED_FOR"
  shows "\<exists>chain. hm_get_all L (view (prepare L True peer rf q)) FORWARDED_FOR = [chain @ peer]"
proof -
  have names: "FORWARDED_FOR \<noteq> HOST" "FORWARDED_FOR \<noteq> FORWARDED_PROTO" by code_simp+
  have "hm_get_all L (view (prepare L True peer rf q)) FORWARDED_FOR
      = hm_get_all L (append_forwarded_for L peer (strip_hop_by_hop L (view q))) FORWARDED_FOR"
    using assms names ok_spec [OF assms(1)]
    by (simp add: prepare_values forward_headers_def Let_def apply_request_untouched set_forwarded_proto_def
        http_specD(2) [OF ok_spec [OF assms(1)]])
  then show ?thesis
    by (auto simp: append_forwarded_for_values [OF ok_spec [OF assms(1)] assms(2)])
qed

end

section \<open>Concrete values for evaluation\<close>

definition plain_uri :: uri_lib where
  "plain_uri =
     \<lparr>authority_try_from = (\<lambda>a. if list_all visible_char a then Some a else None),
      pq_try_from = (\<lambda>p. if starts_with p ''/'' then Some p else None),
      uri_from_parts = (\<lambda>a p. Some \<lparr>uri_host = Some a, uri_path = p, uri_query = None, uri_pq = Some p\<rparr>),
      uri_parse = (\<lambda>p. if starts_with p ''/'' then Some \<lparr>uri_host = None, uri_path = p, uri_query = None, uri_pq = Some p\<rparr>
                      else None)\<rparr>"

lemma plain_uri_visible: "\<forall>a au. authority_try_from plain_uri a = Some au \<longrightarrow> list_all visible_char au"
  by (auto simp: plain_uri_def split: if_splits)

definition example_action :: RouteAction where
  "example_action = \<lparr>target_group = 0, filters = Some \<lparr>request_headers = [C_Set ''x-r'' ''1''],
     response_headers = [C_Remove ''server''], url_rewrite = Some (RW_Prefix ''/p'' ''/q'')\<rparr>, route_name = ''r''\<rparr>"

definition example_table :: "(bytes \<times> RouteAction) list RouteTable" where
  "example_table = \<lparr>exact_hosts = [(''h'', [(''/p'', example_action)])], wildcard_hosts = [], default_router = [],
     route_count = 1, groups = [from_endpoints [ep_new ''u:1'' 1]]\<rparr>"

definition example_req :: "((bytes \<times> bytes) list, unit) Request" where
  "example_req = \<lparr>req_method = ''GET'', req_uri = \<lparr>uri_host = None, uri_path = ''/p'', uri_query = Some ''x'', uri_pq = Some ''/p?x''\<rparr>,
     req_version = HTTP_11, req_headers = [(''host'', ''h''), (''te'', ''gzip''), (''a'', ''b'')], req_body = Empty_Body\<rparr>"

lemma example_lookup:
  "lookup memchr_scan Other_Arch list_router example_table (host_of list_http (req_uri example_req) (req_headers example_req))
     (uri_path (req_uri example_req)) = Some example_action"
  by code_simp

lemma example_select: "fst (action_select example_table example_action) = Some (ep_new ''u:1'' 1)"
  by (simp add: action_select_def example_table_def example_action_def from_endpoints_def select_def ep_new_def)

lemma plain_uri_from_parts: "\<exists>u. uri_from_parts plain_uri a p = Some u"
  by (simp add: plain_uri_def)

end
