(* ===== verification/Hyper_Server.thy ===== *)
theory Hyper_Server
  imports Http_Msg
begin

text \<open>
  \<open>src/crates/proxy-hyper/src/server.rs\<close> and \<open>client.rs\<close>: the Hyper data plane.  Hyper itself (HTTP
  parsing, the connection builder, the pooled client) is third-party: a request arrives parsed, and
  the client is the argument \<open>request\<close>, which answers a request or fails.  \<open>handle_request\<close> returns the
  response, the request sent upstream if one was, and the route table with its cursor moved; \<open>None\<close> is
  the panic of a selection from an empty group.
\<close>

section \<open>Configuration\<close>

record ServerConfig =
  listen_addr :: bytes
  workers :: nat
  forwarded_headers :: bool
  h1_max_buf_size :: nat
  h2_stream_window :: nat
  h2_connection_window :: nat

definition server_config_new :: "nat \<Rightarrow> bytes \<Rightarrow> ServerConfig" where
  "server_config_new num_cpus addr =
     \<lparr>listen_addr = addr, workers = num_cpus, forwarded_headers = True, h1_max_buf_size = 64 * 1024,
      h2_stream_window = 1024 * 1024, h2_connection_window = 4 * 1024 * 1024\<rparr>"

record ClientConfig =
  pool_max_idle_per_host :: nat
  pool_idle_timeout :: nat   \<comment> \<open>seconds\<close>
  connect_timeout :: nat
  http2_upstream :: bool

definition client_config_default :: ClientConfig where
  "client_config_default =
     \<lparr>pool_max_idle_per_host = 8192, pool_idle_timeout = 90, connect_timeout = 5, http2_upstream = False\<rparr>"

text \<open>The pooled client: what it speaks upstream and the third-party call that sends a request.\<close>

record ('h, 'b) UpstreamClient =
  request :: "('h, 'b) Request \<Rightarrow> ('h, 'b) Response option"
  uc_http2 :: bool

definition upstream_new ::
  "(ClientConfig \<Rightarrow> ('h, 'b) Request \<Rightarrow> ('h, 'b) Response option) \<Rightarrow> ClientConfig \<Rightarrow> ('h, 'b) UpstreamClient" where
  "upstream_new build cfg = \<lparr>request = build cfg, uc_http2 = http2_upstream cfg\<rparr>"

definition is_http2_upstream :: "('h, 'b) UpstreamClient \<Rightarrow> bool" where
  "is_http2_upstream self = uc_http2 self"

definition upstream_forward :: "('h, 'b) UpstreamClient \<Rightarrow> ('h, 'b) Request \<Rightarrow> ('h, 'b) Response option" where
  "upstream_forward self req = request self req"

definition empty_body :: "'b BoxedBody" where
  "empty_body = Empty_Body"

definition full_body :: "bytes \<Rightarrow> 'b BoxedBody" where
  "full_body data = Full_Body data"

section \<open>Responses of the proxy itself\<close>

definition not_found :: "'h http_lib \<Rightarrow> ('h, 'b) Response" where
  "not_found L =
     \<lparr>resp_status = 404,
      resp_headers = hm_append L ''content-length'' ''0'' (hm_append L ''content-type'' ''text/plain'' (hm_empty L)),
      resp_body = empty_body\<rparr>"

definition status_only :: "'h http_lib \<Rightarrow> nat \<Rightarrow> ('h, 'b) Response" where
  "status_only L status =
     \<lparr>resp_status = status, resp_headers = hm_append L ''content-length'' ''0'' (hm_empty L), resp_body = empty_body\<rparr>"

definition authority_of :: "uri_lib \<Rightarrow> bytes \<Rightarrow> bytes option" where
  "authority_of U addr = authority_try_from U addr"

section \<open>One request\<close>

text \<open>The path and query sent upstream; \<open>None\<close> when the rewritten path is not a valid one.\<close>

definition upstream_pq :: "uri_lib \<Rightarrow> RouteFilters \<Rightarrow> uri \<Rightarrow> bytes option" where
  "upstream_pq U rf u =
     (if rewrites_path rf then pq_try_from U (with_query (apply_url_rewrite rf (uri_path u)) (uri_query u))
      else Some (case uri_pq u of Some pq \<Rightarrow> pq | None \<Rightarrow> ''/''))"

definition hyper_headers ::
  "bool \<Rightarrow> bytes \<Rightarrow> 'h http_lib \<Rightarrow> bool \<Rightarrow> bytes \<Rightarrow> RouteFilters \<Rightarrow> 'h \<Rightarrow> 'h" where
  "hyper_headers http2 authority L forwarded peer rf headers =
     (let headers = strip_hop_by_hop L headers;
          headers = (if forwarded then set_forwarded_proto L ''http'' (append_forwarded_for L peer headers)
                     else headers);
          headers = apply_request_headers L rf headers
      in if \<not> http2
         then (case value_of L authority of Some v \<Rightarrow> hm_insert L HOST v headers | None \<Rightarrow> headers)
         else hm_remove L HOST headers)"

definition handle_request ::
  "'h http_lib \<Rightarrow> uri_lib \<Rightarrow> memchr \<Rightarrow> arch \<Rightarrow> ('r, RouteAction) router_lib \<Rightarrow> ServerConfig
     \<Rightarrow> ('h, 'b) UpstreamClient \<Rightarrow> 'r RouteTable \<Rightarrow> bytes \<Rightarrow> ('h, 'b) Request
     \<Rightarrow> (('h, 'b) Response \<times> ('h, 'b) Request option \<times> 'r RouteTable) option" where
  "handle_request L U memchr arch R config upstream table peer_ip req =
     (case lookup memchr arch R table (host_of L (req_uri req) (req_headers req)) (uri_path (req_uri req)) of
        None \<Rightarrow> Some (not_found L, None, table)
      | Some action \<Rightarrow>
          (case action_select table action of
             (None, _) \<Rightarrow> None
           | (Some target, table') \<Rightarrow>
               (case fst (ep_authority (authority_try_from U) target) of
                  None \<Rightarrow> Some (status_only L 502, None, table')
                | Some authority \<Rightarrow>
                    (case upstream_pq U (filters action) (req_uri req) of
                       None \<Rightarrow> Some (status_only L 500, None, table')
                     | Some pq \<Rightarrow>
                         (case uri_from_parts U authority pq of
                            None \<Rightarrow> Some (status_only L 500, None, table')
                          | Some upstream_uri \<Rightarrow>
                              (let out_req = req\<lparr>req_headers :=
                                      hyper_headers (is_http2_upstream upstream) authority L (forwarded_headers config)
                                        peer_ip (filters action) (req_headers req),
                                    req_version := (if is_http2_upstream upstream then HTTP_2 else HTTP_11),
                                    req_uri := upstream_uri\<rparr>
                               in case upstream_forward upstream out_req of
                                    Some resp \<Rightarrow> Some (resp\<lparr>resp_headers := apply_response_headers L (filters action)
                                        (strip_hop_by_hop L (resp_headers resp))\<rparr>, Some out_req, table')
                                  | None \<Rightarrow> Some (status_only L 502, Some out_req, table')))))))"

section \<open>The accept loop\<close>

text \<open>
  What the \<open>select!\<close> of a worker's loop can observe: a connection, a failed \<open>accept\<close>, or a change of
  the shutdown flag.  The loop spawns a task per connection and ends when the flag is true.
\<close>

datatype 'c loop_event = Accepted 'c | Accept_Failed | Shutdown_Changed bool

fun accept_loop :: "'c loop_event list \<Rightarrow> 'c list \<times> bool" where
  "accept_loop [] = ([], False)"
| "accept_loop (Accepted c # es) = (case accept_loop es of (spawned, stopped) \<Rightarrow> (c # spawned, stopped))"
| "accept_loop (Accept_Failed # es) = accept_loop es"
| "accept_loop (Shutdown_Changed b # es) = (if b then ([], True) else accept_loop es)"

text \<open>\<open>run\<close>: one listener and accept loop per worker; a failed bind ends it with an error.\<close>

fun start_workers :: "(nat \<Rightarrow> bool) \<Rightarrow> nat \<Rightarrow> nat \<Rightarrow> nat + nat" where
  "start_workers binds worker_id 0 = Inr worker_id"
| "start_workers binds worker_id (Suc k) =
     (if binds worker_id then start_workers binds (Suc worker_id) k else Inl worker_id)"

definition hyper_run :: "(nat \<Rightarrow> bool) \<Rightarrow> ServerConfig \<Rightarrow> nat + nat" where
  "hyper_run binds config = start_workers binds 0 (max (workers config) 1)"

lemma start_workers_result:
  "start_workers binds w k = (if \<forall>i<k. binds (w + i) then Inr (w + k) else Inl (w + (LEAST i. \<not> binds (w + i))))"
proof (induction k arbitrary: w)
  case (Suc k)
  show ?case
  proof (cases "binds w")
    case True
    have all: "(\<forall>i<Suc k. binds (w + i)) \<longleftrightarrow> (\<forall>i<k. binds (Suc w + i))"
      using True by (metis (no_types, lifting) add_0_right add_Suc add_Suc_right less_Suc_eq_0_disj not_less_eq)
    show ?thesis
    proof (cases "\<forall>i<k. binds (Suc w + i)")
      case False
      then obtain i where "\<not> binds (w + Suc i)" by auto
      then have "(LEAST i. \<not> binds (w + i)) = Suc (LEAST i. \<not> binds (Suc w + i))"
        using True Least_Suc [of "\<lambda>i. \<not> binds (w + i)" "Suc i"] by simp
      then show ?thesis using True all False Suc by simp
    qed (use True all Suc in simp)
  next
    case False
    then have "(LEAST i. \<not> binds (w + i)) = 0" by (intro Least_equality) auto
    then show ?thesis using False by auto
  qed
qed simp

lemma accept_loop_spawns:
  "accept_loop es =
     (List.map_filter (\<lambda>e. case e of Accepted c \<Rightarrow> Some c | _ \<Rightarrow> None) (takeWhile (\<lambda>e. e \<noteq> Shutdown_Changed True) es),
      Shutdown_Changed True \<in> set es)"
  by (induction es rule: accept_loop.induct) (auto simp: List.map_filter_simps)

section \<open>What is sent and answered\<close>

interpretation hyper: forwarding_plane "hyper_headers http2 authority" "\<lambda>h. h" http_spec
  by unfold_locales
    (auto simp: hyper_headers_def forward_headers_def Let_def http_specD split: option.split)

lemma hyper_host:
  assumes "http_spec L" "list_all visible_char authority"
  shows "hm_get_all L (hyper_headers http2 authority L fwd peer rf h) HOST = (if http2 then [] else [authority])"
  using assms by (auto simp: hyper_headers_def Let_def http_specD)

lemma response_status_values [simp]: "resp_status (not_found L) = 404" "resp_status (status_only L s) = s"
  by (simp_all add: not_found_def status_only_def)

text \<open>
  C12: a forwarded request.  When the Hyper data plane sends a request upstream, it is the client's method
  and body, addressed to the authority of the endpoint selected for the route that matches the
  client's host and path, with the path the route's rewrite gives; its headers are those of the
  forwarding contract, so no hop-by-hop or nominated header is there unless a filter of the route
  adds it, and its \<open>Host\<close> is the upstream's (absent towards an HTTP/2 upstream).  The client gets the
  upstream's status and body with the response headers stripped and filtered, or 502 when the
  upstream fails.
\<close>

theorem hyper_exchange:
  assumes "http_spec L" "list_all visible_char peer" "\<forall>a au. authority_try_from U a = Some au \<longrightarrow> list_all visible_char au"
    "authority_cell target = None \<or> authority_cell target = Some (authority_try_from U (address target))"
    "lookup m arch R table (host_of L (req_uri req) (req_headers req)) (uri_path (req_uri req)) = Some action"
    "action_select table action = (Some target, table')"
    "handle_request L U m arch R config upstream table peer req = Some (resp, Some out, table'')"
  shows "table'' = table' \<and> req_method out = req_method req \<and> req_body out = req_body req \<and>
    (\<exists>pq au. upstream_pq U (filters action) (req_uri req) = Some pq \<and> authority_try_from U (address target) = Some au \<and>
       uri_from_parts U au pq = Some (req_uri out) \<and>
       hm_get_all L (req_headers out) HOST = (if uc_http2 upstream then [] else [au])) \<and>
    (\<forall>n. n \<noteq> HOST \<longrightarrow> hm_get_all L (req_headers out) n =
       hm_get_all L (forward_headers L (forwarded_headers config) peer (filters action) (req_headers req)) n) \<and>
    (\<forall>n. n \<in> set (CONNECTION # HOP_BY_HOP) \<longrightarrow> \<not> request_touches (filters action) n \<longrightarrow>
       hm_get_all L (req_headers out) n = []) \<and>
    (case request upstream out of
       Some r \<Rightarrow> resp = r\<lparr>resp_headers := return_headers L (filters action) (resp_headers r)\<rparr>
     | None \<Rightarrow> resp_status resp = 502)"
proof -
  obtain au pq u where parts: "authority_try_from U (address target) = Some au"
      "upstream_pq U (filters action) (req_uri req) = Some pq" "uri_from_parts U au pq = Some u"
    and out: "out = req\<lparr>req_headers := hyper_headers (uc_http2 upstream) au L (forwarded_headers config) peer
           (filters action) (req_headers req),
         req_version := (if uc_http2 upstream then HTTP_2 else HTTP_11), req_uri := u\<rparr>"
    and table: "table'' = table'"
    and resp: "case request upstream out of
       Some r \<Rightarrow> resp = r\<lparr>resp_headers := return_headers L (filters action) (resp_headers r)\<rparr>
     | None \<Rightarrow> resp_status resp = 502"
    using assms(4-)
    by (auto simp: handle_request_def ep_authority_def upstream_forward_def is_http2_upstream_def return_headers_def
        Let_def split: option.splits)
  have vis: "list_all visible_char au" using assms(3) parts(1) by blast
  have hop: "n \<noteq> HOST \<and> n \<noteq> FORWARDED_FOR \<and> n \<noteq> FORWARDED_PROTO" if "n \<in> set (CONNECTION # HOP_BY_HOP)" for n
    using that unfolding CONNECTION_def HOP_BY_HOP_def FORWARDED_FOR_def FORWARDED_PROTO_def by auto
  show ?thesis
    using parts table resp hyper.prepare_values [OF assms(1,2)] hyper_host [OF assms(1) vis]
      hyper.hop_by_hop_gone [OF assms(1,2)] hop by (auto simp: out)
qed

text \<open>
  the answers the proxy gives itself.  Without a matching route the client gets 404, no cursor moves
  and nothing is sent; a request is never sent when the endpoint is no valid authority (502) or the
  rewritten path is no valid URI (500), and every other request of a route is sent.
\<close>

theorem hyper_local_answers:
  assumes "handle_request L U m arch R config upstream table peer req = Some (resp, sent, table')"
  shows "case lookup m arch R table (host_of L (req_uri req) (req_headers req)) (uri_path (req_uri req)) of
      None \<Rightarrow> resp_status resp = 404 \<and> sent = None \<and> table' = table
    | Some action \<Rightarrow> table' = snd (action_select table action) \<and>
        (case fst (ep_authority (authority_try_from U) (the (fst (action_select table action)))) of
           None \<Rightarrow> resp_status resp = 502 \<and> sent = None
         | Some au \<Rightarrow>
             (case Option.bind (upstream_pq U (filters action) (req_uri req)) (uri_from_parts U au) of
                None \<Rightarrow> resp_status resp = 500 \<and> sent = None
              | Some u \<Rightarrow> \<exists>out. sent = Some out \<and> req_uri out = u))"
  using assms by (auto simp: handle_request_def Let_def split: option.splits prod.splits)

section \<open>A worked request\<close>

definition example_client :: "((bytes \<times> bytes) list, unit) UpstreamClient" where
  "example_client = \<lparr>request = (\<lambda>req. Some \<lparr>resp_status = 200, resp_headers = [(''server'', ''s'')], resp_body = Empty_Body\<rparr>),
     uc_http2 = False\<rparr>"

lemma example_pq: "upstream_pq plain_uri (filters example_action) (req_uri example_req) = Some ''/q?x''"
  by code_simp

lemma example_handle:
  "\<exists>resp out. handle_request list_http plain_uri memchr_scan Other_Arch list_router (server_config_new 1 ''0.0.0.0:80'')
     example_client example_table ''10.0.0.9'' example_req
   = Some (resp, Some out, snd (action_select example_table example_action))"
proof -
  obtain t where sel: "action_select example_table example_action = (Some (ep_new ''u:1'' 1), t)"
    using example_select by (metis prod.collapse)
  have au: "fst (ep_authority (authority_try_from plain_uri) (ep_new ''u:1'' 1)) = Some ''u:1''" by code_simp
  obtain u where u: "uri_from_parts plain_uri ''u:1'' ''/q?x'' = Some u" using plain_uri_from_parts by blast
  have fwd: "upstream_forward example_client r = Some \<lparr>resp_status = 200, resp_headers = [(''server'', ''s'')], resp_body = Empty_Body\<rparr>"
    for r by (simp add: upstream_forward_def example_client_def)
  show ?thesis
    by (simp add: handle_request_def example_lookup sel example_pq au u fwd Let_def)
qed

theorem hyper_exchange_witness:
  "\<exists>resp out t. handle_request list_http plain_uri memchr_scan Other_Arch list_router (server_config_new 1 ''0.0.0.0:80'')
     example_client example_table ''10.0.0.9'' example_req = Some (resp, Some out, t) \<and>
     hm_get_all list_http (req_headers out) HOST = [''u:1''] \<and> hm_get_all list_http (req_headers out) ''te'' = []"
proof -
  obtain resp out where run: "handle_request list_http plain_uri memchr_scan Other_Arch list_router (server_config_new 1 ''0.0.0.0:80'')
     example_client example_table ''10.0.0.9'' example_req
   = Some (resp, Some out, snd (action_select example_table example_action))"
    using example_handle by blast
  have sel: "action_select example_table example_action = (Some (ep_new ''u:1'' 1), snd (action_select example_table example_action))"
    using example_select by (metis prod.collapse)
  have peer: "list_all visible_char ''10.0.0.9''" by code_simp
  have cell: "authority_cell (ep_new ''u:1'' 1) = None" by (simp add: ep_new_def)
  have au: "authority_try_from plain_uri (address (ep_new ''u:1'' 1)) = Some ''u:1''" by code_simp
  have te: "''te'' \<in> set (CONNECTION # HOP_BY_HOP)" "\<not> request_touches (filters example_action) ''te''"
    by (simp add: HOP_BY_HOP_def) (simp add: request_touches_def example_action_def compiled_name_def)
  have h1: "uc_http2 example_client = False" by (simp add: example_client_def)
  note exchange = hyper_exchange [OF list_http_spec peer plain_uri_visible disjI1 [OF cell] example_lookup sel run]
  have "hm_get_all list_http (req_headers out) HOST = [''u:1'']"
    using exchange au h1 by auto
  moreover have "hm_get_all list_http (req_headers out) ''te'' = []"
    using exchange te by blast
  ultimately show ?thesis using run by blast
qed

theorem hyper_local_answers_witness:
  "\<exists>resp. handle_request list_http plain_uri memchr_scan Other_Arch list_router (server_config_new 1 ''0.0.0.0:80'')
     example_client example_table ''10.0.0.9'' (example_req\<lparr>req_headers := []\<rparr>) = Some (resp, None, example_table) \<and>
     resp_status resp = 404"
proof -
  have none: "lookup memchr_scan Other_Arch list_router example_table
      (host_of list_http (req_uri (example_req\<lparr>req_headers := []\<rparr>)) (req_headers (example_req\<lparr>req_headers := []\<rparr>)))
      (uri_path (req_uri (example_req\<lparr>req_headers := []\<rparr>))) = None"
    by code_simp
  obtain resp where run: "handle_request list_http plain_uri memchr_scan Other_Arch list_router (server_config_new 1 ''0.0.0.0:80'')
     example_client example_table ''10.0.0.9'' (example_req\<lparr>req_headers := []\<rparr>) = Some (resp, None, example_table)"
    unfolding handle_request_def none by simp
  from hyper_local_answers [OF this] run show ?thesis unfolding none by auto
qed

end
