(* ===== verification/Async_Io.thy ===== *)
theory Async_Io
  imports Prelude
begin

text \<open>
  Asynchronous byte streams, as the runtimes offer them to the proxies: a read returns some bytes (none
  at the end of the stream), fails, or stays pending while the peer sends nothing; \<open>write_all\<close> succeeds
  or fails.  A connection carries what its peer will deliver, segment by segment, so that a statement
  about every connection is one about every way the network cuts the stream into segments.
\<close>

datatype 'a io = Ready 'a | Io_Error | Pending

datatype rx_event = Rx_Data bytes | Rx_Eof | Rx_Error

record conn =
  conn_peer :: bytes           \<comment> \<open>the address it is connected to\<close>
  rx :: "rx_event list"   \<comment> \<open>what the peer delivers; nothing left means it stays silent\<close>
  tx :: bytes             \<comment> \<open>what was written to it\<close>
  wr_ok :: "bool list"    \<comment> \<open>outcomes of the next writes; those after them succeed\<close>

definition conn_read :: "nat \<Rightarrow> conn \<Rightarrow> bytes io \<times> conn" where
  "conn_read cap c =
     (case rx c of
        [] \<Rightarrow> (Pending, c)
      | Rx_Error # r \<Rightarrow> (Io_Error, c\<lparr>rx := r\<rparr>)
      | Rx_Eof # r \<Rightarrow> (Ready [], c)
      | Rx_Data d # r \<Rightarrow> if length d \<le> cap then (Ready d, c\<lparr>rx := r\<rparr>)
                        else (Ready (take cap d), c\<lparr>rx := Rx_Data (drop cap d) # r\<rparr>))"

definition write_all :: "bytes \<Rightarrow> conn \<Rightarrow> unit io \<times> conn" where
  "write_all d c =
     (case wr_ok c of
        [] \<Rightarrow> (Ready (), c\<lparr>tx := tx c @ d\<rparr>)
      | True # w \<Rightarrow> (Ready (), c\<lparr>tx := tx c @ d, wr_ok := w\<rparr>)
      | False # w \<Rightarrow> (Io_Error, c\<lparr>wr_ok := w\<rparr>))"

text \<open>The bytes a peer delivers before its stream ends or fails.\<close>

fun rx_bytes :: "rx_event list \<Rightarrow> bytes" where
  "rx_bytes (Rx_Data d # r) = d @ rx_bytes r"
| "rx_bytes _ = []"

fun rx_rest :: "rx_event list \<Rightarrow> rx_event list" where
  "rx_rest (Rx_Data d # r) = rx_rest r"
| "rx_rest r = r"

definition no_empty :: "rx_event list \<Rightarrow> bool" where
  "no_empty r = (Rx_Data [] \<notin> set r)"

lemma conn_read_Ready:
  assumes "conn_read cap c = (Ready d, c')"
  shows "rx_bytes (rx c) = d @ rx_bytes (rx c') \<and> length d \<le> cap \<and> rx_rest (rx c') = rx_rest (rx c) \<and>
    tx c' = tx c \<and> wr_ok c' = wr_ok c \<and> conn_peer c' = conn_peer c"
  using assms by (auto simp: conn_read_def split: list.splits rx_event.splits if_splits)

lemma conn_read_no_empty:
  assumes "conn_read cap c = (r, c')" "no_empty (rx c)" "0 < cap"
  shows "no_empty (rx c') \<and> (r = Ready [] \<longrightarrow> c' = c \<and> rx_bytes (rx c) = [] \<and> (\<exists>r. rx_rest (rx c) = Rx_Eof # r))"
  using assms by (auto simp: conn_read_def no_empty_def split: list.splits rx_event.splits if_splits)

lemma conn_read_data:
  assumes "no_empty (rx c)" "0 < cap" "rx_bytes (rx c) \<noteq> []"
  obtains d c' where "conn_read cap c = (Ready d, c')" "d \<noteq> []"
proof (cases "rx c" rule: rx_bytes.cases)
  case (1 d r)
  then have "d \<noteq> []" using assms by (auto simp: no_empty_def)
  then show ?thesis
    using 1 assms(2) that [of d "c\<lparr>rx := r\<rparr>"] that [of "take cap d" "c\<lparr>rx := Rx_Data (drop cap d) # r\<rparr>"]
    by (cases "length d \<le> cap") (auto simp: conn_read_def)
qed (use assms in auto)

lemma conn_read_frame:
  "conn_read cap c = (r, c') \<Longrightarrow> tx c' = tx c \<and> wr_ok c' = wr_ok c \<and> conn_peer c' = conn_peer c"
  by (auto simp: conn_read_def split: list.splits rx_event.splits if_splits)

lemma write_all_frame: "write_all d c = (r, c') \<Longrightarrow> rx c' = rx c \<and> conn_peer c' = conn_peer c \<and> r \<noteq> Pending"
  by (auto simp: write_all_def split: list.splits bool.splits)

text \<open>How much a peer has still to deliver: every read that returns something makes it less.\<close>

fun event_size :: "rx_event \<Rightarrow> nat" where
  "event_size (Rx_Data d) = length d"
| "event_size _ = 0"

definition rx_size :: "conn \<Rightarrow> nat" where
  "rx_size c = sum_list (map event_size (rx c))"

lemma conn_read_size: "conn_read cap c = (Ready d, c') \<Longrightarrow> rx_size c = length d + rx_size c'"
  by (auto simp: conn_read_def rx_size_def split: list.splits rx_event.splits if_splits)

lemma write_all_ok [simp]: "wr_ok c = [] \<Longrightarrow> write_all d c = (Ready (), c\<lparr>tx := tx c @ d\<rparr>)"
  by (simp add: write_all_def)

section \<open>Readers\<close>

text \<open>A reader returns the bytes of its content in order.\<close>

locale byte_reader =
  fixes read :: "nat \<Rightarrow> 't \<Rightarrow> bytes io \<times> 't" and content :: "'t \<Rightarrow> bytes"
  assumes read_content: "read cap t = (Ready d, t') \<Longrightarrow> content t = d @ content t' \<and> length d \<le> cap"

fun reads :: "(nat \<Rightarrow> 't \<Rightarrow> bytes io \<times> 't) \<Rightarrow> nat list \<Rightarrow> 't \<Rightarrow> bytes io \<times> 't" where
  "reads rd [] t = (Ready [], t)"
| "reads rd (cap # caps) t =
     (case rd cap t of
        (Ready d, t') \<Rightarrow> (case reads rd caps t' of (Ready ds, t'') \<Rightarrow> (Ready (d @ ds), t'') | (e, t'') \<Rightarrow> (e, t''))
      | (Io_Error, t') \<Rightarrow> (Io_Error, t')
      | (Pending, t') \<Rightarrow> (Pending, t'))"

context byte_reader
begin

lemma reads_content: "reads read caps t = (Ready d, t') \<Longrightarrow> content t = d @ content t' \<and> length d \<le> sum_list caps"
proof (induction caps arbitrary: t d)
  case (Cons cap caps)
  then obtain d1 t1 d2 where "read cap t = (Ready d1, t1)" "reads read caps t1 = (Ready d2, t')" "d = d1 @ d2"
    by (auto split: prod.splits io.splits)
  then show ?case using Cons.IH read_content by fastforce
qed simp

lemma reads_prefix: "reads read caps t = (Ready d, t') \<Longrightarrow> prefix d (content t)"
  using reads_content by auto

end

interpretation conn: byte_reader conn_read "\<lambda>c. rx_bytes (rx c)"
  by unfold_locales (use conn_read_Ready in blast)

section \<open>What a connection goes through\<close>

text \<open>\<open>consumes c d c'\<close>: the bytes \<open>d\<close> were read from \<open>c\<close>, leaving \<open>c'\<close>.\<close>

definition consumes :: "conn \<Rightarrow> bytes \<Rightarrow> conn \<Rightarrow> bool" where
  "consumes c d c' = (c' = c\<lparr>rx := rx c'\<rparr> \<and> rx_bytes (rx c) = d @ rx_bytes (rx c') \<and>
     rx_rest (rx c') = rx_rest (rx c) \<and> no_empty (rx c'))"

definition sent :: "bytes \<Rightarrow> conn \<Rightarrow> conn" where
  "sent d c = c\<lparr>tx := tx c @ d\<rparr>"

lemma sent_simps [simp]:
  "rx (sent d c) = rx c" "wr_ok (sent d c) = wr_ok c" "tx (sent d c) = tx c @ d" "conn_peer (sent d c) = conn_peer c"
  "sent e (sent d c) = sent (d @ e) c" "sent [] c = c"
  by (simp_all add: sent_def)

lemma write_all_sent: "wr_ok c = [] \<Longrightarrow> write_all d c = (Ready (), sent d c)"
  by (simp add: sent_def)

lemma consumes_refl: "no_empty (rx c) \<Longrightarrow> consumes c [] c"
  by (simp add: consumes_def)

lemma consumes_trans: "consumes c d c' \<Longrightarrow> consumes c' e c'' \<Longrightarrow> consumes c (d @ e) c''"
  unfolding consumes_def by (metis append_assoc conn.surjective conn.update_convs(2))

lemma consumesD:
  "consumes c d c' \<Longrightarrow> rx_bytes (rx c) = d @ rx_bytes (rx c')" "consumes c d c' \<Longrightarrow> rx_rest (rx c') = rx_rest (rx c)"
  "consumes c d c' \<Longrightarrow> no_empty (rx c')" "consumes c d c' \<Longrightarrow> tx c' = tx c" "consumes c d c' \<Longrightarrow> wr_ok c' = wr_ok c"
  "consumes c d c' \<Longrightarrow> conn_peer c' = conn_peer c"
proof -
  assume c: "consumes c d c'"
  then have "c' = c\<lparr>rx := rx c'\<rparr>" by (simp add: consumes_def)
  then show "tx c' = tx c" "wr_ok c' = wr_ok c" "conn_peer c' = conn_peer c"
    by (metis conn.select_convs conn.surjective conn.update_convs(2))+
qed (simp_all add: consumes_def)

lemma conn_read_consumes:
  assumes "conn_read cap c = (Ready d, c')" "no_empty (rx c)" "0 < cap"
  shows "consumes c d c'"
proof -
  have "c' = c\<lparr>rx := rx c'\<rparr>"
    using assms(1) by (auto simp: conn_read_def split: list.splits rx_event.splits if_splits)
  then show ?thesis
    using conn_read_Ready [OF assms(1)] conn_read_no_empty [OF assms] by (simp add: consumes_def)
qed

text \<open>A read at the end of what the peer delivers.\<close>

lemma conn_read_end:
  assumes "rx_bytes (rx c) = []" "no_empty (rx c)"
  shows "conn_read cap c = (case rx_rest (rx c) of
      [] \<Rightarrow> (Pending, c) | Rx_Error # r \<Rightarrow> (Io_Error, c\<lparr>rx := r\<rparr>) | Rx_Eof # r \<Rightarrow> (Ready [], c) | Rx_Data d # r \<Rightarrow> undefined)"
  using assms by (cases "rx c" rule: rx_bytes.cases) (auto simp: conn_read_def no_empty_def)

lemma rx_rest_cases:
  obtains "rx_rest r = []" | s where "rx_rest r = Rx_Eof # s" | s where "rx_rest r = Rx_Error # s"
  by (induction r rule: rx_rest.induct) auto

end
