(* ===== verification/Http2.thy ===== *)
theory Http2
  imports Hyper_Server Async_Io
begin

text \<open>
  \<open>src/crates/proxy-monoio/src/http2.rs\<close>: protocol sniffing, the reader that hands the sniffed bytes
  back, and the HTTP/2 request handler of the Monoio data plane.  The HTTP/2 codec is Hyper's; the
  handler's upstream exchange (\<open>forward_h1\<close>: connect, handshake and send) is an argument.
\<close>

section \<open>Sniffing\<close>

definition H2_PREFACE :: bytes where
  "H2_PREFACE = ''PRI * HTTP/2.0'' @ [CHR 0x0D, CHR 0x0A, CHR 0x0D, CHR 0x0A] @ ''SM'' @ [CHR 0x0D, CHR 0x0A, CHR 0x0D, CHR 0x0A]"

definition detect_h2 :: "bytes \<Rightarrow> bool option" where
  "detect_h2 buf =
     (let n = min (length buf) (length H2_PREFACE)
      in if take n buf \<noteq> take n H2_PREFACE then Some False
         else if length buf \<ge> length H2_PREFACE then Some True
         else None)"

section \<open>Replaying the sniffed bytes\<close>

record 't PrefixedIo =
  px_prefix :: bytes
  px_position :: nat
  px_inner :: 't

definition prefixed_new :: "bytes \<Rightarrow> 't \<Rightarrow> 't PrefixedIo" where
  "prefixed_new pfx io = \<lparr>px_prefix = pfx, px_position = 0, px_inner = io\<rparr>"

definition remaining_prefix :: "'t PrefixedIo \<Rightarrow> nat" where
  "remaining_prefix self = length (px_prefix self) - px_position self"

definition poll_read ::
  "(nat \<Rightarrow> 't \<Rightarrow> bytes io \<times> 't) \<Rightarrow> nat \<Rightarrow> 't PrefixedIo \<Rightarrow> bytes io \<times> 't PrefixedIo" where
  "poll_read rd cap self =
     (if px_position self < length (px_prefix self) then
        (let available = drop (px_position self) (px_prefix self);
             n = min (length available) cap
         in (Ready (take n available), self\<lparr>px_position := px_position self + n\<rparr>))
      else (case rd cap (px_inner self) of (r, inner') \<Rightarrow> (r, self\<lparr>px_inner := inner'\<rparr>)))"

definition poll_write ::
  "(bytes \<Rightarrow> 't \<Rightarrow> unit io \<times> 't) \<Rightarrow> bytes \<Rightarrow> 't PrefixedIo \<Rightarrow> unit io \<times> 't PrefixedIo" where
  "poll_write wr buf self = (case wr buf (px_inner self) of (r, inner') \<Rightarrow> (r, self\<lparr>px_inner := inner'\<rparr>))"

text \<open>What a prefixed reader has to deliver: the rest of the prefix, then the inner stream.\<close>

definition px_content :: "('t \<Rightarrow> bytes) \<Rightarrow> 't PrefixedIo \<Rightarrow> bytes" where
  "px_content content self = drop (px_position self) (px_prefix self) @ content (px_inner self)"

context byte_reader
begin

lemma poll_read_content:
  assumes "poll_read read cap self = (Ready d, self')"
  shows "px_content content self = d @ px_content content self' \<and> length d \<le> cap"
proof (cases "px_position self < length (px_prefix self)")
  case True
  define a where "a = drop (px_position self) (px_prefix self)"
  have "d = take (min (length a) cap) a" "self' = self\<lparr>px_position := px_position self + min (length a) cap\<rparr>"
    using assms True by (auto simp: poll_read_def Let_def a_def)
  moreover have "a = take (min (length a) cap) a @ drop (min (length a) cap) a" by simp
  ultimately show ?thesis
    by (simp add: px_content_def a_def add.commute)
next
  case False
  then show ?thesis
    using assms read_content by (auto simp: poll_read_def px_content_def split: prod.splits)
qed

end

interpretation prefixed_conn: byte_reader "poll_read conn_read" "px_content (\<lambda>c. rx_bytes (rx c))"
  by unfold_locales (rule conn.poll_read_content)

section \<open>One request\<close>

definition h2_headers :: "bytes \<Rightarrow> 'h http_lib \<Rightarrow> bool \<Rightarrow> bytes \<Rightarrow> RouteFilters \<Rightarrow> 'h \<Rightarrow> 'h" where
  "h2_headers authority L forwarded peer rf headers =
     (let headers = strip_hop_by_hop L headers;
          headers = (if forwarded then set_forwarded_proto L ''http'' (append_forwarded_for L peer headers)
                     else headers);
          headers = apply_request_headers L rf headers
      in case value_of L authority of Some v \<Rightarrow> hm_insert L HOST v headers | None \<Rightarrow> headers)"

definition h2_pq :: "uri_lib \<Rightarrow> RouteFilters \<Rightarrow> uri \<Rightarrow> bytes" where
  "h2_pq U rf u =
     (if rewrites_path rf
      then (case pq_try_from U (with_query (apply_url_rewrite rf (uri_path u)) (uri_query u)) of
              Some pq \<Rightarrow> pq | None \<Rightarrow> ''/'')
      else (case uri_pq u of Some pq \<Rightarrow> pq | None \<Rightarrow> ''/''))"

definition h2_status_only :: "'h http_lib \<Rightarrow> nat \<Rightarrow> ('h, 'b) Response" where
  "h2_status_only L status =
     \<lparr>resp_status = status, resp_headers = hm_append L ''content-length'' ''0'' (hm_empty L), resp_body = Empty_Body\<rparr>"

definition h2_handle ::
  "'h http_lib \<Rightarrow> uri_lib \<Rightarrow> memchr \<Rightarrow> arch \<Rightarrow> ('r, RouteAction) router_lib \<Rightarrow> bool
     \<Rightarrow> (bytes \<Rightarrow> ('h, 'b) Request \<Rightarrow> ('h, 'b) Response option) \<Rightarrow> 'r RouteTable \<Rightarrow> bytes \<Rightarrow> ('h, 'b) Request
     \<Rightarrow> (('h, 'b) Response \<times> ('h, 'b) Request option \<times> 'r RouteTable) option" where
  "h2_handle L U memchr arch R forwarded forward_h1 table peer req =
     (case lookup memchr arch R table (host_of L (req_uri req) (req_headers req)) (uri_path (req_uri req)) of
        None \<Rightarrow> Some (h2_status_only L 404, None, table)
      | Some action \<Rightarrow>
          (case action_select table action of
             (None, _) \<Rightarrow> None
           | (Some target, table') \<Rightarrow>
               (case fst (ep_authority (authority_try_from U) target) of
                  None \<Rightarrow> Some (h2_status_only L 502, None, table')
                | Some authority \<Rightarrow>
                    (case uri_from_parts U authority (h2_pq U (filters action) (req_uri req)) of
                       None \<Rightarrow> Some (h2_status_only L 500, None, table')
                     | Some upstream_uri \<Rightarrow>
                         (let out_req = req\<lparr>req_headers := h2_headers authority L forwarded peer (filters action) (req_headers req),
                               req_version := HTTP_11, req_uri := upstream_uri\<rparr>
                          in case forward_h1 (address target) out_req of
                               Some resp \<Rightarrow> Some (resp\<lparr>resp_headers := apply_response_headers L (filters action)
                                   (strip_hop_by_hop L (resp_headers resp))\<rparr>, Some out_req, table')
                             | None \<Rightarrow> Some (h2_status_only L 502, Some out_req, table'))))))"

section \<open>Correctness\<close>

lemma take_min_eq_iff:
  "take (min (length a) (length b)) a = take (min (length a) (length b)) b \<longleftrightarrow> prefix a b \<or> prefix b a"
proof (cases "length a \<le> length b")
  case True
  then have "take (min (length a) (length b)) a = take (min (length a) (length b)) b \<longleftrightarrow> prefix a b"
    by (metis append_eq_conv_conj min.absorb1 prefix_def take_all_iff take_is_prefix)
  then show ?thesis using True by (metis prefix_length_le prefix_order.antisym prefix_order.refl nat_le_linear not_equal_is_parallel parallelE prefix_length_prefix)
next
  case False
  then have "take (min (length a) (length b)) a = take (min (length a) (length b)) b \<longleftrightarrow> prefix b a"
    by (metis append_eq_conv_conj min.absorb2 nat_le_linear prefix_def take_all_iff take_is_prefix)
  then show ?thesis using False prefix_length_le by blast
qed

lemma detect_h2_cases:
  "detect_h2 buf = (if prefix H2_PREFACE buf then Some True else if prefix buf H2_PREFACE then None else Some False)"
proof -
  have "prefix buf H2_PREFACE \<Longrightarrow> length H2_PREFACE \<le> length buf \<Longrightarrow> prefix H2_PREFACE buf"
    by (metis prefix_length_le prefix_order.refl le_antisym not_prefix_cases prefix_def append_Nil2 append_eq_append_conv)
  then show ?thesis
    using take_min_eq_iff [of buf H2_PREFACE] prefix_length_le [of H2_PREFACE buf]
    by (auto simp: detect_h2_def Let_def)
qed

text \<open>
  protocol detection.  On a connection whose bytes arrive in any portions, the decision is postponed
  exactly while what has arrived is a proper prefix of the 24-byte preface, and the final decision is
  HTTP/2 exactly when the bytes start with the preface; a decision never changes when more arrives.
\<close>

theorem detect_h2_correct:
  "(detect_h2 buf = Some True \<longleftrightarrow> prefix H2_PREFACE buf) \<and>
   (detect_h2 buf = None \<longleftrightarrow> strict_prefix buf H2_PREFACE) \<and>
   (detect_h2 buf = None \<or> detect_h2 (buf @ later) = detect_h2 buf)"
  using detect_h2_cases [of buf] detect_h2_cases [of "buf @ later"] prefix_same_cases [of H2_PREFACE "buf @ later" buf]
  by (auto split: if_splits simp: prefix_order.less_le dest: append_prefixD)

lemma poll_read_inner:
  "poll_read rd cap io = (r, io') \<Longrightarrow> px_prefix io' = px_prefix io \<and> px_position io \<le> px_position io' \<and>
     (0 < remaining_prefix io' \<longrightarrow> px_inner io' = px_inner io)"
  by (auto simp: poll_read_def remaining_prefix_def Let_def split: if_splits prod.splits)

lemma reads_inner:
  "reads (poll_read rd) caps io = (r, io') \<Longrightarrow> px_prefix io' = px_prefix io \<and> px_position io \<le> px_position io' \<and>
     (0 < remaining_prefix io' \<longrightarrow> px_inner io' = px_inner io)"
proof (induction caps arbitrary: io r)
  case (Cons cap caps)
  obtain r1 io1 where p: "poll_read rd cap io = (r1, io1)" by fastforce
  note p' = poll_read_inner [OF p]
  show ?case
  proof (cases r1)
    case (Ready d)
    then obtain r2 where "reads (poll_read rd) caps io1 = (r2, io')"
      using Cons.prems p by (auto split: prod.splits io.splits)
    then show ?thesis using Cons.IH p' by (fastforce simp: remaining_prefix_def)
  qed (use Cons.prems p p' in auto)
qed simp

lemma prefix_before_inner:
  "reads (poll_read rd) caps (prefixed_new buffered c) = (r, io') \<Longrightarrow> 0 < remaining_prefix io' \<Longrightarrow> px_inner io' = c"
  using reads_inner by (fastforce simp: prefixed_new_def)

text \<open>
  the sniffed bytes are handed back.  Reading a prefixed stream any number of times, with buffers of
  any sizes, yields the buffered bytes first and then the bytes of the connection, none lost, none
  twice and none out of order.
\<close>

theorem prefixed_io_replays:
  assumes "reads (poll_read conn_read) caps (prefixed_new buffered c) = (Ready d, self')"
  shows "buffered @ rx_bytes (rx c) = d @ px_content (\<lambda>c. rx_bytes (rx c)) self' \<and>
    (0 < remaining_prefix self' \<longrightarrow> px_inner self' = c)"
  using prefixed_conn.reads_content [OF assms] prefix_before_inner [OF assms]
  by (auto simp: px_content_def prefixed_new_def)

theorem prefixed_io_replays_witness:
  "\<exists>self' d. reads (poll_read conn_read) [2, 2, 9] (prefixed_new ''abc'' \<lparr>conn_peer = [], rx = [Rx_Data ''de''], tx = [], wr_ok = []\<rparr>)
     = (Ready d, self') \<and> prefix d ''abcde''"
proof -
  obtain self' where r: "reads (poll_read conn_read) [2, 2, 9] (prefixed_new ''abc'' \<lparr>conn_peer = [], rx = [Rx_Data ''de''], tx = [], wr_ok = []\<rparr>)
     = (Ready ''abcde'', self')"
    by (simp add: poll_read_def prefixed_new_def conn_read_def Let_def)
  from prefixed_io_replays [OF this] show ?thesis using r by auto
qed

section \<open>Agreement with the Hyper data plane\<close>

lemma h2_status_only [simp]: "h2_status_only L s = status_only L s"
  by (simp add: h2_status_only_def status_only_def empty_body_def)

lemma h2_headers_hyper: "h2_headers authority L fwd peer rf h = hyper_headers False authority L fwd peer rf h"
  by (simp add: h2_headers_def hyper_headers_def Let_def)

interpretation h2: forwarding_plane "h2_headers authority" "\<lambda>h. h" http_spec
  by unfold_locales (simp_all add: h2_headers_hyper hyper.prepare_values)



end
