(* ===== verification/Pingora.thy ===== *)
theory Pingora
  imports Http_Msg
begin

text \<open>
  \<open>src/crates/proxy-pingora/src/proxy_service.rs\<close>: the callbacks of the Pingora data plane.  Pingora is
  third-party: its \<open>RequestHeader\<close> and \<open>ResponseHeader\<close> are an abstract type \<open>'q\<close> with the operations of
  \<open>pingora_lib\<close>, and \<open>pingora_spec\<close> is the documented effect of these on the header map inside.  Every
  callback loads the active table anew, so each takes the table it sees.
\<close>

section \<open>Pingora's messages\<close>

record ('q, 'h) pingora_lib =
  p_headers :: "'q \<Rightarrow> 'h"
  p_uri :: "'q \<Rightarrow> uri"
  p_set_uri :: "uri \<Rightarrow> 'q \<Rightarrow> 'q"
  p_insert :: "bytes \<Rightarrow> bytes \<Rightarrow> 'q \<Rightarrow> 'q"
  p_append :: "bytes \<Rightarrow> bytes \<Rightarrow> 'q \<Rightarrow> 'q"
  p_remove :: "bytes \<Rightarrow> 'q \<Rightarrow> 'q"

definition pingora_spec :: "'h http_lib \<Rightarrow> ('q, 'h) pingora_lib \<Rightarrow> bool" where
  "pingora_spec L P =
     (http_spec L \<and>
      (\<forall>q n v m. hm_get_all L (p_headers P (p_insert P n v q)) m = (if m = n then [v] else hm_get_all L (p_headers P q) m)) \<and>
      (\<forall>q n v m. hm_get_all L (p_headers P (p_append P n v q)) m
         = (if m = n then hm_get_all L (p_headers P q) m @ [v] else hm_get_all L (p_headers P q) m)) \<and>
      (\<forall>q n m. hm_get_all L (p_headers P (p_remove P n q)) m = (if m = n then [] else hm_get_all L (p_headers P q) m)) \<and>
      (\<forall>q u. p_headers P (p_set_uri P u q) = p_headers P q))"

section \<open>Configuration and context\<close>

record ServiceConfig =
  sc_listen_addr :: bytes
  sc_threads :: nat
  sc_upstream_keepalive_pool_size :: nat
  sc_forwarded_headers :: bool
  sc_h2c :: bool
  sc_so_reuseport :: bool

definition service_config_new :: "nat \<Rightarrow> bytes \<Rightarrow> ServiceConfig" where
  "service_config_new num_cpus addr =
     \<lparr>sc_listen_addr = addr, sc_threads = num_cpus, sc_upstream_keepalive_pool_size = 8192,
      sc_forwarded_headers = True, sc_h2c = True, sc_so_reuseport = True\<rparr>"

definition server_threads :: "ServiceConfig \<Rightarrow> nat" where
  "server_threads config = max (sc_threads config) 1"

record ProxyCtx =
  matched :: bool

definition ctx_default :: ProxyCtx where
  "ctx_default = \<lparr>matched = False\<rparr>"

record 'r ProxyPingora =
  pp_routes :: "'r RouteTable"
  pp_forwarded :: bool

definition pingora_new :: "'r RouteTable \<Rightarrow> 'r ProxyPingora" where
  "pingora_new routes = \<lparr>pp_routes = routes, pp_forwarded = True\<rparr>"

definition with_forwarded_headers :: "bool \<Rightarrow> 'r ProxyPingora \<Rightarrow> 'r ProxyPingora" where
  "with_forwarded_headers enabled self = self\<lparr>pp_forwarded := enabled\<rparr>"

section \<open>Header hygiene through Pingora's API\<close>

definition strip_hop_by_hop_request :: "'h http_lib \<Rightarrow> ('q, 'h) pingora_lib \<Rightarrow> 'q \<Rightarrow> 'q" where
  "strip_hop_by_hop_request L P req =
     (let nominated = connection_nominated L (p_headers P req);
          req = p_remove P CONNECTION req;
          req = fold (p_remove P) HOP_BY_HOP req
      in fold (p_remove P) nominated req)"

definition strip_hop_by_hop_response :: "'h http_lib \<Rightarrow> ('q, 'h) pingora_lib \<Rightarrow> 'q \<Rightarrow> 'q" where
  "strip_hop_by_hop_response L P resp =
     (let nominated = connection_nominated L (p_headers P resp);
          resp = p_remove P CONNECTION resp;
          resp = fold (p_remove P) HOP_BY_HOP resp
      in fold (p_remove P) nominated resp)"

text \<open>Setting one name to the values it has in the staged map.\<close>

definition replay_name :: "'h http_lib \<Rightarrow> ('q, 'h) pingora_lib \<Rightarrow> 'h \<Rightarrow> bytes \<Rightarrow> 'q \<Rightarrow> 'q" where
  "replay_name L P staged name req =
     (case hm_get_all L staged name of
        [] \<Rightarrow> req
      | first # extras \<Rightarrow> fold (p_append P name) extras (p_insert P name first req))"

definition replay_request :: "'h http_lib \<Rightarrow> ('q, 'h) pingora_lib \<Rightarrow> 'q \<Rightarrow> 'h \<Rightarrow> 'q" where
  "replay_request L P req staged =
     (let removed = filter (\<lambda>k. \<not> hm_contains L staged k) (hm_keys L (p_headers P req));
          req = fold (p_remove P) removed req
      in fold (replay_name L P staged) (hm_keys L staged) req)"

definition apply_request_filters :: "'h http_lib \<Rightarrow> ('q, 'h) pingora_lib \<Rightarrow> RouteFilters \<Rightarrow> 'q \<Rightarrow> 'q" where
  "apply_request_filters L P rf req =
     (if is_noop rf then req
      else replay_request L P req (apply_request_headers L rf (p_headers P req)))"

definition apply_response_filters :: "'h http_lib \<Rightarrow> ('q, 'h) pingora_lib \<Rightarrow> RouteFilters \<Rightarrow> 'q \<Rightarrow> 'q" where
  "apply_response_filters L P rf resp =
     (if is_noop rf then resp
      else (let staged = apply_response_headers L rf (p_headers P resp);
                removed = filter (\<lambda>k. \<not> hm_contains L staged k) (hm_keys L (p_headers P resp));
                resp = fold (p_remove P) removed resp
            in fold (replay_name L P staged) (hm_keys L staged) resp))"

section \<open>The callbacks\<close>

text \<open>\<open>Inl 404\<close> is Pingora's error with that status.\<close>

definition upstream_peer ::
  "'h http_lib \<Rightarrow> memchr \<Rightarrow> arch \<Rightarrow> ('r, RouteAction) router_lib \<Rightarrow> ('q, 'h) pingora_lib \<Rightarrow> 'r RouteTable
     \<Rightarrow> 'q \<Rightarrow> ProxyCtx \<Rightarrow> ((nat + bytes) \<times> ProxyCtx \<times> 'r RouteTable) option" where
  "upstream_peer L memchr arch R P table req ctx =
     (case lookup memchr arch R table (host_of L (p_uri P req) (p_headers P req)) (uri_path (p_uri P req)) of
        None \<Rightarrow> Some (Inl 404, ctx\<lparr>matched := False\<rparr>, table)
      | Some action \<Rightarrow>
          (case action_select table action of
             (None, _) \<Rightarrow> None
           | (Some target, table') \<Rightarrow> Some (Inr (address target), ctx\<lparr>matched := True\<rparr>, table')))"

text \<open>\<open>Some 404\<close>: the response was written and Pingora stops there.\<close>

definition request_filter ::
  "'h http_lib \<Rightarrow> memchr \<Rightarrow> arch \<Rightarrow> ('r, RouteAction) router_lib \<Rightarrow> ('q, 'h) pingora_lib \<Rightarrow> 'r RouteTable \<Rightarrow> 'q \<Rightarrow> nat option" where
  "request_filter L memchr arch R P table req =
     (if lookup memchr arch R table (host_of L (p_uri P req) (p_headers P req)) (uri_path (p_uri P req)) \<noteq> None
      then None else Some 404)"

definition pingora_forwarded :: "'h http_lib \<Rightarrow> ('q, 'h) pingora_lib \<Rightarrow> bytes option \<Rightarrow> 'q \<Rightarrow> 'q" where
  "pingora_forwarded L P client_ip req =
     (let chain = map_option (\<lambda>ip. case hm_get L (p_headers P req) FORWARDED_FOR of
                    Some existing \<Rightarrow> (case to_str L existing of Some prev \<Rightarrow> prev @ '', '' @ ip | None \<Rightarrow> ip)
                  | None \<Rightarrow> ip) client_ip;
          req = (case Option.bind chain (value_of L) of Some v \<Rightarrow> p_insert P FORWARDED_FOR v req | None \<Rightarrow> req)
      in p_insert P FORWARDED_PROTO ''http'' req)"

definition upstream_request_filter ::
  "'h http_lib \<Rightarrow> uri_lib \<Rightarrow> memchr \<Rightarrow> arch \<Rightarrow> ('r, RouteAction) router_lib \<Rightarrow> ('q, 'h) pingora_lib \<Rightarrow> bool
     \<Rightarrow> 'r RouteTable \<Rightarrow> bytes option \<Rightarrow> 'q \<Rightarrow> 'q" where
  "upstream_request_filter L U memchr arch R P forwarded table client_ip req =
     (let path = uri_path (p_uri P req);
          (rewritten_path, rf) =
            (case lookup memchr arch R table (host_of L (p_uri P req) (p_headers P req)) path of
               Some action \<Rightarrow> (if rewrites_path (filters action) then Some (apply_url_rewrite (filters action) path) else None,
                               filters action)
             | None \<Rightarrow> (None, None));
          req = (case rewritten_path of
                   None \<Rightarrow> req
                 | Some new_path \<Rightarrow>
                     (case uri_parse U (with_query new_path (uri_query (p_uri P req))) of
                        Some u \<Rightarrow> p_set_uri P u req | None \<Rightarrow> req));
          req = strip_hop_by_hop_request L P req;
          req = (if forwarded then pingora_forwarded L P client_ip req else req)
      in apply_request_filters L P rf req)"

definition response_filter ::
  "'h http_lib \<Rightarrow> memchr \<Rightarrow> arch \<Rightarrow> ('r, RouteAction) router_lib \<Rightarrow> ('q, 'h) pingora_lib \<Rightarrow> ('p, 'h) pingora_lib
     \<Rightarrow> 'r RouteTable \<Rightarrow> 'q \<Rightarrow> 'p \<Rightarrow> 'p" where
  "response_filter L memchr arch R P P' table req resp =
     (let rf = (case lookup memchr arch R table (host_of L (p_uri P req) (p_headers P req)) (uri_path (p_uri P req)) of
                  Some action \<Rightarrow> filters action | None \<Rightarrow> None)
      in apply_response_filters L P' rf (strip_hop_by_hop_response L P' resp))"

section \<open>Replaying a staged map\<close>

lemma pingora_specD:
  assumes "pingora_spec L P"
  shows "http_spec L"
    "hm_get_all L (p_headers P (p_insert P n v q)) m = (if m = n then [v] else hm_get_all L (p_headers P q) m)"
    "hm_get_all L (p_headers P (p_append P n v q)) m = (if m = n then hm_get_all L (p_headers P q) m @ [v] else hm_get_all L (p_headers P q) m)"
    "hm_get_all L (p_headers P (p_remove P n q)) m = (if m = n then [] else hm_get_all L (p_headers P q) m)"
    "p_headers P (p_set_uri P u q) = p_headers P q"
  using assms by (simp_all add: pingora_spec_def)

lemma fold_p_remove:
  assumes "pingora_spec L P"
  shows "hm_get_all L (p_headers P (fold (p_remove P) ns q)) m = (if m \<in> set ns then [] else hm_get_all L (p_headers P q) m)"
  by (induction ns arbitrary: q) (auto simp: pingora_specD(4) [OF assms])

lemma fold_p_append:
  assumes "pingora_spec L P"
  shows "hm_get_all L (p_headers P (fold (p_append P n) vs q)) m =
    (if m = n then hm_get_all L (p_headers P q) m @ vs else hm_get_all L (p_headers P q) m)"
  by (induction vs arbitrary: q) (auto simp: pingora_specD(3) [OF assms])

lemma replay_name_values:
  assumes "pingora_spec L P"
  shows "hm_get_all L (p_headers P (replay_name L P staged n q)) m =
    (if m = n \<and> hm_get_all L staged n \<noteq> [] then hm_get_all L staged n else hm_get_all L (p_headers P q) m)"
  by (auto simp: replay_name_def fold_p_append [OF assms] pingora_specD(2) [OF assms] split: list.split)

lemma fold_replay_values:
  assumes "pingora_spec L P"
  shows "hm_get_all L (p_headers P (fold (replay_name L P staged) ns q)) m =
    (if m \<in> set ns \<and> hm_get_all L staged m \<noteq> [] then hm_get_all L staged m else hm_get_all L (p_headers P q) m)"
  by (induction ns arbitrary: q) (auto simp: replay_name_values [OF assms])

lemma replay_values:
  assumes "pingora_spec L P"
  shows "hm_get_all L (p_headers P (fold (replay_name L P staged) (hm_keys L staged)
      (fold (p_remove P) (filter (\<lambda>k. \<not> hm_contains L staged k) (hm_keys L (p_headers P q))) q))) m = hm_get_all L staged m"
  by (auto simp: fold_replay_values [OF assms] fold_p_remove [OF assms] hm_contains_def
      http_specD(10) [OF pingora_specD(1) [OF assms]])

lemma strip_request_values:
  assumes "pingora_spec L P"
  shows "hm_get_all L (p_headers P (strip_hop_by_hop_request L P q)) m = hm_get_all L (strip_hop_by_hop L (p_headers P q)) m"
  by (simp add: strip_hop_by_hop_request_def strip_hop_by_hop_def Let_def fold_p_remove [OF assms]
      fold_remove_values [OF pingora_specD(1) [OF assms]] pingora_specD [OF assms] http_specD [OF pingora_specD(1) [OF assms]])

lemma strip_response_values:
  assumes "pingora_spec L P"
  shows "hm_get_all L (p_headers P (strip_hop_by_hop_response L P q)) m = hm_get_all L (strip_hop_by_hop L (p_headers P q)) m"
  using strip_request_values [OF assms] by (simp add: strip_hop_by_hop_request_def strip_hop_by_hop_response_def)

section \<open>The forwarding contract\<close>

lemma apply_compiled_cong:
  assumes "http_spec L" "\<And>n. hm_get_all L h n = hm_get_all L h' n"
  shows "hm_get_all L (fold (apply_compiled L) cs h) n = hm_get_all L (fold (apply_compiled L) cs h') n"
  using assms(2)
proof (induction cs arbitrary: h h')
  case (Cons c cs)
  have "hm_get_all L (apply_compiled L c h) m = hm_get_all L (apply_compiled L c h') m" for m
    using Cons.prems by (simp add: apply_compiled_def http_specD(2,3,4) [OF assms(1)] split: Compiled.split)
  from Cons.IH [OF this] show ?case by simp
qed simp

lemma apply_request_cong:
  assumes "http_spec L" "\<And>n. hm_get_all L h n = hm_get_all L h' n"
  shows "hm_get_all L (apply_request_headers L rf h) n = hm_get_all L (apply_request_headers L rf h') n"
  using apply_compiled_cong [OF assms] assms(2) unfolding apply_request_headers_def by (cases rf) simp_all

lemma apply_response_cong:
  assumes "http_spec L" "\<And>n. hm_get_all L h n = hm_get_all L h' n"
  shows "hm_get_all L (apply_response_headers L rf h) n = hm_get_all L (apply_response_headers L rf h') n"
  using apply_compiled_cong [OF assms] assms(2) unfolding apply_response_headers_def by (cases rf) simp_all

lemma request_filters_values:
  assumes "pingora_spec L P"
  shows "hm_get_all L (p_headers P (apply_request_filters L P rf q)) n = hm_get_all L (apply_request_headers L rf (p_headers P q)) n"
  using replay_values [OF assms, of "apply_request_headers L rf (p_headers P q)" q n]
  by (cases rf) (simp_all add: apply_request_filters_def is_noop_def replay_request_def Let_def apply_request_headers_def)

lemma response_filters_values:
  assumes "pingora_spec L P"
  shows "hm_get_all L (p_headers P (apply_response_filters L P rf q)) n = hm_get_all L (apply_response_headers L rf (p_headers P q)) n"
  using replay_values [OF assms, of "apply_response_headers L rf (p_headers P q)" q n]
  by (cases rf) (simp_all add: apply_response_filters_def is_noop_def Let_def apply_response_headers_def)

lemma pingora_forwarded_values:
  assumes "pingora_spec L P" "list_all visible_char peer"
  shows "hm_get_all L (p_headers P (pingora_forwarded L P (Some peer) q)) n =
    hm_get_all L (set_forwarded_proto L ''http'' (append_forwarded_for L peer (p_headers P q))) n"
proof -
  note h = pingora_specD(1) [OF assms(1)]
  have "list_all visible_char '', ''" by code_simp
  then have "value_of L (v @ '', '' @ peer) = Some (v @ '', '' @ peer)" if "list_all visible_char v" for v
    using that assms(2) by (intro http_specD(7) [OF h]) (simp only: list_all_append simp_thms)
  note chain = this http_specD(7) [OF h assms(2)]
  let ?c = "(case hm_get_all L (p_headers P q) FORWARDED_FOR of [] \<Rightarrow> []
     | v # _ \<Rightarrow> if list_all visible_char v then v @ '', '' else []) @ peer"
  have "pingora_forwarded L P (Some peer) q = p_insert P FORWARDED_PROTO ''http'' (p_insert P FORWARDED_FOR ?c q)"
  proof (cases "hm_get_all L (p_headers P q) FORWARDED_FOR")
    case Nil
    then show ?thesis using chain by (simp add: pingora_forwarded_def hm_get_def)
  next
    case (Cons v vs)
    then show ?thesis
      using chain by (cases "list_all visible_char v") (simp_all add: pingora_forwarded_def hm_get_def http_specD(8) [OF h])
  qed
  then show ?thesis
    by (simp only: set_forwarded_proto_def pingora_specD [OF assms(1)] http_specD(2) [OF h] append_forwarded_for_values [OF h assms(2)])
qed

definition pingora_prepare :: "('q, 'h) pingora_lib \<Rightarrow> 'h http_lib \<Rightarrow> bool \<Rightarrow> bytes \<Rightarrow> RouteFilters \<Rightarrow> 'q \<Rightarrow> 'q" where
  "pingora_prepare P L forwarded peer rf req =
     (let req = strip_hop_by_hop_request L P req;
          req = (if forwarded then pingora_forwarded L P (Some peer) req else req)
      in apply_request_filters L P rf req)"

lemma pingora_prepare_values:
  assumes "pingora_spec L P" "list_all visible_char peer"
  shows "hm_get_all L (p_headers P (pingora_prepare P L fwd peer rf q)) n =
    hm_get_all L (forward_headers L fwd peer rf (p_headers P q)) n"
proof -
  note h = pingora_specD(1) [OF assms(1)]
  have "hm_get_all L (p_headers P (if fwd then pingora_forwarded L P (Some peer) (strip_hop_by_hop_request L P q)
      else strip_hop_by_hop_request L P q)) m
    = hm_get_all L (if fwd then set_forwarded_proto L ''http'' (append_forwarded_for L peer (strip_hop_by_hop L (p_headers P q)))
      else strip_hop_by_hop L (p_headers P q)) m" for m
    by (simp add: pingora_forwarded_values [OF assms] strip_request_values [OF assms(1)] set_forwarded_proto_def
        http_specD(2) [OF h] append_forwarded_for_values [OF h assms(2)])
  from apply_request_cong [OF h this] show ?thesis
    by (simp add: pingora_prepare_def forward_headers_def Let_def request_filters_values [OF assms(1)])
qed

interpretation pingora: forwarding_plane "pingora_prepare P" "p_headers P" "\<lambda>L. pingora_spec L P"
  by unfold_locales (auto simp: pingora_prepare_values dest: pingora_specD(1))

section \<open>Correctness\<close>

lemma upstream_request_prepare:
  "\<exists>q'. (q' = q \<or> (\<exists>u. q' = p_set_uri P u q)) \<and>
     upstream_request_filter L U m arch R P fwd table (Some peer) q = pingora_prepare P L fwd peer
       (case lookup m arch R table (host_of L (p_uri P q) (p_headers P q)) (uri_path (p_uri P q)) of
          Some action \<Rightarrow> filters action | None \<Rightarrow> None) q'"
  by (auto simp: upstream_request_filter_def pingora_prepare_def Let_def split: option.split)

text \<open>
  filters through Pingora's API.  Staging the filtered headers in a copy and replaying the difference
  (removing the names that are gone, setting the others) leaves the message with exactly the values
  that applying the filters to its header map would give, for every name, in requests and responses.
\<close>

theorem pingora_replay_exact:
  assumes "pingora_spec L P"
  shows "hm_get_all L (p_headers P (apply_request_filters L P rf q)) n = hm_get_all L (apply_request_headers L rf (p_headers P q)) n
    \<and> hm_get_all L (p_headers P (apply_response_filters L P rf q)) n = hm_get_all L (apply_response_headers L rf (p_headers P q)) n"
  by (intro conjI request_filters_values [OF assms] response_filters_values [OF assms])


section \<open>A concrete message type\<close>

text \<open>A URI and a header map, with the operations acting on the map.\<close>

definition pair_pingora :: "'h http_lib \<Rightarrow> (uri \<times> 'h, 'h) pingora_lib" where
  "pair_pingora L =
     \<lparr>p_headers = snd, p_uri = fst, p_set_uri = (\<lambda>u (_, h). (u, h)),
      p_insert = (\<lambda>n v (u, h). (u, hm_insert L n v h)), p_append = (\<lambda>n v (u, h). (u, hm_append L n v h)),
      p_remove = (\<lambda>n (u, h). (u, hm_remove L n h))\<rparr>"

lemma pair_pingora_spec: "http_spec L \<Longrightarrow> pingora_spec L (pair_pingora L)"
  by (auto simp: pingora_spec_def pair_pingora_def http_specD split: prod.split)

theorem pingora_replay_exact_witness:
  "hm_get_all list_http (p_headers (pair_pingora list_http) (apply_request_filters list_http (pair_pingora list_http)
     (filters example_action) (req_uri example_req, [(''x-r'', ''0''), (''x-r'', ''2''), (''a'', ''b'')]))) ''x-r'' = [''1'']"
proof -
  have "hm_get_all list_http (apply_request_headers list_http (filters example_action)
      (p_headers (pair_pingora list_http) (req_uri example_req, [(''x-r'', ''0''), (''x-r'', ''2''), (''a'', ''b'')]))) ''x-r'' = [''1'']"
    by code_simp
  then show ?thesis
    using pingora_replay_exact [OF pair_pingora_spec [OF list_http_spec], of "filters example_action"] by simp
qed


end
