(* ===== verification/Monoio_Relay.thy ===== *)
theory Monoio_Relay
  imports Http1 Async_Io
begin

text \<open>
  \<open>src/crates/proxy-monoio/src/server.rs\<close>, lines 33 to 60 and 383 to 614: buffers, the relay loops and
  the response path of the Monoio data plane.  A \<open>Vec\<close> used as a read buffer is a byte list together
  with the number of bytes \<open>filled\<close>; a read puts its bytes behind them.  A routine returns its result,
  an I/O error or \<open>Pending\<close> (it waits for a peer that sends nothing more), with the connections as they
  are then.
\<close>

section \<open>Buffers\<close>

definition IO_BUF_SIZE :: nat where
  "IO_BUF_SIZE = 32 * 1024"

definition IO_BUF_INITIAL :: nat where
  "IO_BUF_INITIAL = 4 * 1024"

definition vec_resize :: "nat \<Rightarrow> bytes \<Rightarrow> bytes" where
  "vec_resize n buf = take n buf @ replicate (n - length buf) (CHR 0x00)"

definition grow_for_read :: "bytes \<Rightarrow> nat \<Rightarrow> bytes" where
  "grow_for_read buf filled =
     (let headroom = length buf - filled
      in if headroom \<ge> IO_BUF_INITIAL then buf
         else if length buf < IO_BUF_INITIAL then vec_resize IO_BUF_INITIAL buf
         else (let target = min (length buf * 2) (filled + IO_BUF_SIZE)
               in vec_resize (max target (filled + IO_BUF_INITIAL)) buf))"

text \<open>The effect of a completed read into \<open>buf[off..]\<close>, and of \<open>copy_within\<close> to the front.\<close>

definition buf_put :: "bytes \<Rightarrow> nat \<Rightarrow> bytes \<Rightarrow> bytes" where
  "buf_put buf off d = take off buf @ d @ drop (off + length d) buf"

definition copy_within :: "bytes \<Rightarrow> nat \<Rightarrow> nat \<Rightarrow> bytes" where
  "copy_within buf a b = take (b - a) (drop a buf) @ drop (b - a) buf"

section \<open>Relay loops\<close>

function relay_exact_loop :: "bytes \<Rightarrow> nat \<Rightarrow> conn \<Rightarrow> conn \<Rightarrow> bytes io \<times> conn \<times> conn" where
  "relay_exact_loop buf remaining src dst =
     (if remaining = 0 then (Ready buf, src, dst)
      else (let want = min remaining (length buf)
            in case conn_read want src of
                 (Io_Error, src') \<Rightarrow> (Io_Error, src', dst)
               | (Pending, src') \<Rightarrow> (Pending, src', dst)
               | (Ready d, src') \<Rightarrow>
                   if d = [] then (Io_Error, src', dst)
                   else (case write_all d dst of
                           (Ready u, dst') \<Rightarrow> relay_exact_loop (buf_put buf 0 d) (remaining - length d) src' dst'
                         | (e, dst') \<Rightarrow> (Io_Error, src', dst'))))"
  by pat_completeness auto
termination
  by (relation "measure (\<lambda>(buf, remaining, src, dst). remaining)") auto

definition relay_exact :: "conn \<Rightarrow> conn \<Rightarrow> bytes \<Rightarrow> nat \<Rightarrow> bytes io \<times> conn \<times> conn" where
  "relay_exact src dst buf remaining =
     relay_exact_loop (if length buf < IO_BUF_SIZE then vec_resize IO_BUF_SIZE buf else buf) remaining src dst"

definition TERMINATOR :: bytes where
  "TERMINATOR = ''0'' @ CRLF @ CRLF"

function relay_chunked_loop :: "memmem \<Rightarrow> bytes \<Rightarrow> conn \<Rightarrow> conn \<Rightarrow> bytes io \<times> conn \<times> conn" where
  "relay_chunked_loop memmem buf src dst =
     (case conn_read (length buf) src of
        (Io_Error, src') \<Rightarrow> (Io_Error, src', dst)
      | (Pending, src') \<Rightarrow> (Pending, src', dst)
      | (Ready d, src') \<Rightarrow>
          if d = [] then (Ready buf, src', dst)
          else (let saw_terminator = (memmem d TERMINATOR \<noteq> None)
                in case write_all d dst of
                     (Ready u, dst') \<Rightarrow> if saw_terminator then (Ready (buf_put buf 0 d), src', dst')
                                        else relay_chunked_loop memmem (buf_put buf 0 d) src' dst'
                   | (e, dst') \<Rightarrow> (Io_Error, src', dst')))"
  by pat_completeness auto
termination
  by (relation "measure (\<lambda>(memmem, buf, src, dst). rx_size src)") (auto dest: conn_read_size [OF sym])

definition relay_chunked :: "memmem \<Rightarrow> conn \<Rightarrow> conn \<Rightarrow> bytes \<Rightarrow> bytes io \<times> conn \<times> conn" where
  "relay_chunked memmem src dst buf =
     relay_chunked_loop memmem (if length buf < IO_BUF_SIZE then vec_resize IO_BUF_SIZE buf else buf) src dst"

function relay_close_loop :: "bytes \<Rightarrow> conn \<Rightarrow> conn \<Rightarrow> bytes io \<times> conn \<times> conn" where
  "relay_close_loop buf src dst =
     (case conn_read (length buf) src of
        (Io_Error, src') \<Rightarrow> (Io_Error, src', dst)
      | (Pending, src') \<Rightarrow> (Pending, src', dst)
      | (Ready d, src') \<Rightarrow>
          if d = [] then (Ready buf, src', dst)
          else (case write_all d dst of
                  (Ready u, dst') \<Rightarrow> relay_close_loop (buf_put buf 0 d) src' dst'
                | (e, dst') \<Rightarrow> (Io_Error, src', dst')))"
  by pat_completeness auto
termination
  by (relation "measure (\<lambda>(buf, src, dst). rx_size src)") (auto dest: conn_read_size [OF sym])

definition relay_until_close :: "conn \<Rightarrow> conn \<Rightarrow> bytes \<Rightarrow> bytes io \<times> conn \<times> conn" where
  "relay_until_close src dst buf =
     relay_close_loop (if length buf < IO_BUF_SIZE then vec_resize IO_BUF_SIZE buf else buf) src dst"

declare relay_exact_loop.simps [simp del] relay_chunked_loop.simps [simp del] relay_close_loop.simps [simp del]

section \<open>The response\<close>

datatype 'h head_read = Got 'h | Malformed | Peer_Closed | Head_Error | Head_Pending

function response_head ::
  "http1_lib \<Rightarrow> bytes \<Rightarrow> bytes \<Rightarrow> nat \<Rightarrow> conn \<Rightarrow> ResponseHead head_read \<times> bytes \<times> nat \<times> conn" where
  "response_head P request_method buf filled up =
     (case (if filled > 0 then parse_response P (take filled buf) request_method else Partial) of
        Complete head \<Rightarrow> (Got head, buf, filled, up)
      | Invalid reason \<Rightarrow> (Malformed, buf, filled, up)
      | Partial \<Rightarrow>
          (let buf = grow_for_read buf filled
           in case conn_read (length buf - filled) up of
                (Io_Error, up') \<Rightarrow> (Head_Error, buf, filled, up')
              | (Pending, up') \<Rightarrow> (Head_Pending, buf, filled, up')
              | (Ready d, up') \<Rightarrow>
                  if d = [] then (Peer_Closed, buf, filled, up')
                  else response_head P request_method (buf_put buf filled d) (filled + length d) up'))"
  by pat_completeness auto
termination
  by (relation "measure (\<lambda>(P, m, buf, filled, up). rx_size up)") (auto dest: conn_read_size [OF sym])

declare response_head.simps [simp del]

record RelayOutcome =
  upstream_reusable :: bool
  downstream_reusable :: bool

text \<open>Writing a part of the buffer that may be empty, as the source guards it.\<close>

definition write_some :: "bytes \<Rightarrow> conn \<Rightarrow> unit io \<times> conn" where
  "write_some d c = (if d = [] then (Ready (), c) else write_all d c)"

definition relay_response_body ::
  "http1_lib \<Rightarrow> ResponseHead \<Rightarrow> bytes \<Rightarrow> nat \<Rightarrow> conn \<Rightarrow> conn \<Rightarrow> unit io \<times> conn \<times> conn" where
  "relay_response_body P head buf filled up down =
     (let body_start = rsp_head_len head;
          buffered = take (filled - body_start) (drop body_start buf);
          finish = (\<lambda>(r :: bytes io, up', down'). (case r of Ready b \<Rightarrow> Ready () | Io_Error \<Rightarrow> Io_Error | Pending \<Rightarrow> Pending, up', down'))
      in case rsp_body head of
           Empty \<Rightarrow> (Ready (), up, down)
         | Fixed len \<Rightarrow>
             (let already = min (length buffered) len
              in case write_some (take already buffered) down of
                   (Ready u, down') \<Rightarrow> if len - already > 0 then finish (relay_exact up down' buf (len - already))
                                       else (Ready (), up, down')
                 | (e, down') \<Rightarrow> (Io_Error, up, down'))
         | Chunked \<Rightarrow>
             (case write_some buffered down of
                (Ready u, down') \<Rightarrow> finish (relay_chunked (l_memmem P) up down' buf)
              | (e, down') \<Rightarrow> (Io_Error, up, down'))
         | UntilClose \<Rightarrow>
             (case write_some buffered down of
                (Ready u, down') \<Rightarrow> finish (relay_until_close up down' buf)
              | (e, down') \<Rightarrow> (Io_Error, up, down')))"

definition relay_response ::
  "http1_lib \<Rightarrow> conn \<Rightarrow> conn \<Rightarrow> bytes \<Rightarrow> bool \<Rightarrow> RelayOutcome io \<times> conn \<times> conn" where
  "relay_response P up down request_method keep_alive =
     (case response_head P request_method [] 0 up of
        (Malformed, buf, filled, up') \<Rightarrow>
          (Ready \<lparr>upstream_reusable = False, downstream_reusable = False\<rparr>, up',
           snd (write_all (error_response 502 ''Bad Gateway'') down))
      | (Peer_Closed, buf, filled, up') \<Rightarrow>
          (Ready \<lparr>upstream_reusable = False, downstream_reusable = False\<rparr>, up', down)
      | (Head_Error, buf, filled, up') \<Rightarrow> (Io_Error, up', down)
      | (Head_Pending, buf, filled, up') \<Rightarrow> (Pending, up', down)
      | (Got head, buf, filled, up') \<Rightarrow>
          (let reusable = (\<not> rsp_close head \<and> rsp_body head \<noteq> UntilClose);
               downstream_keep = (keep_alive \<and> rsp_body head \<noteq> UntilClose)
           in case write_all (write_return_head P (take filled buf) head downstream_keep) down of
                (Ready u, down') \<Rightarrow>
                  (case relay_response_body P head buf filled up' down' of
                     (Ready u, up'', down'') \<Rightarrow>
                       (Ready \<lparr>upstream_reusable = reusable, downstream_reusable = downstream_keep\<rparr>, up'', down'')
                   | (Io_Error, up'', down'') \<Rightarrow> (Io_Error, up'', down'')
                   | (Pending, up'', down'') \<Rightarrow> (Pending, up'', down''))
              | (e, down') \<Rightarrow> (Io_Error, up', down')))"

section \<open>Request targets\<close>

definition path_of :: "memchr \<Rightarrow> bytes \<Rightarrow> bytes" where
  "path_of memchr target = (case memchr (CHR ''?'') target of Some pos \<Rightarrow> take pos target | None \<Rightarrow> target)"

definition split_target :: "memchr \<Rightarrow> bytes \<Rightarrow> bytes \<times> bytes option" where
  "split_target memchr target =
     (case memchr (CHR ''?'') target of
        Some pos \<Rightarrow> (take pos target, Some (drop (pos + 1) target))
      | None \<Rightarrow> (target, None))"

definition body_prefix_len :: "RequestHead \<Rightarrow> nat \<Rightarrow> nat" where
  "body_prefix_len head available =
     (case rh_body head of Empty \<Rightarrow> 0 | Fixed n \<Rightarrow> min n available | _ \<Rightarrow> available)"

section \<open>Buffers: lemmas\<close>

lemma vec_resize_length [simp]: "length (vec_resize n buf) = n"
  by (simp add: vec_resize_def)

lemma buf_put_length: "off + length d \<le> length buf \<Longrightarrow> length (buf_put buf off d) = length buf"
  by (simp add: buf_put_def)

lemma buf_put_take: "off \<le> length buf \<Longrightarrow> take (off + length d) (buf_put buf off d) = take off buf @ d"
  by (simp add: buf_put_def)

lemma vec_resize_take: "n \<le> length buf \<Longrightarrow> n \<le> m \<Longrightarrow> take n (vec_resize m buf) = take n buf"
  by (simp add: vec_resize_def)

text \<open>A grown buffer keeps what is filled, has room for the next read, and stays near its ceiling.\<close>

lemma grow_for_read_length:
  assumes "filled \<le> length buf"
  shows "length buf \<le> length (grow_for_read buf filled) \<and> filled < length (grow_for_read buf filled) \<and>
    length (grow_for_read buf filled) \<le> max (length buf) (filled + IO_BUF_SIZE)"
  using assms by (auto simp: grow_for_read_def Let_def IO_BUF_INITIAL_def IO_BUF_SIZE_def)

lemma grow_for_read_take:
  assumes "filled \<le> length buf"
  shows "take filled (grow_for_read buf filled) = take filled buf"
  using assms by (auto simp: grow_for_read_def Let_def vec_resize_take)

section \<open>Relay loops: lemmas\<close>

lemma relay_exact_loop_enough:
  assumes "no_empty (rx src)" "wr_ok dst = []" "0 < length buf" "n \<le> length (rx_bytes (rx src))"
  shows "\<exists>buf' src'. relay_exact_loop buf n src dst = (Ready buf', src', sent (take n (rx_bytes (rx src))) dst) \<and>
    length buf' = length buf \<and> consumes src (take n (rx_bytes (rx src))) src'"
  using assms
proof (induction buf n src dst rule: relay_exact_loop.induct)
  case (1 buf n src dst)
  show ?case
  proof (cases "n = 0")
    case True
    then show ?thesis using 1 consumes_refl by (simp add: relay_exact_loop.simps)
  next
    case False
    let ?w = "min n (length buf)"
    have w: "0 < ?w" using False "1.prems" by simp
    obtain d src' where r: "conn_read ?w src = (Ready d, src')" and d: "d \<noteq> []"
      using conn_read_data [OF "1.prems"(1) w] False "1.prems"(4) by (metis le_zero_eq length_0_conv)
    have c: "consumes src d src'" by (rule conn_read_consumes [OF r "1.prems"(1) w])
    have dl: "length d \<le> ?w" using conn_read_Ready [OF r] by blast
    have bytes: "rx_bytes (rx src) = d @ rx_bytes (rx src')" by (rule consumesD(1) [OF c])
    then have tk: "take n (rx_bytes (rx src)) = d @ take (n - length d) (rx_bytes (rx src'))"
      using dl by simp
    have len: "length (buf_put buf 0 d) = length buf" using dl by (simp add: buf_put_length)
    have "\<exists>buf' src''. relay_exact_loop (buf_put buf 0 d) (n - length d) src' (sent d dst)
        = (Ready buf', src'', sent (take (n - length d) (rx_bytes (rx src'))) (sent d dst)) \<and>
        length buf' = length (buf_put buf 0 d) \<and> consumes src' (take (n - length d) (rx_bytes (rx src'))) src''"
      using "1.IH" [OF False refl r [symmetric] refl d write_all_sent [OF "1.prems"(2), symmetric] refl]
        consumesD(3) [OF c] "1.prems" len bytes dl by simp
    then show ?thesis
      using False r d w tk len c consumes_trans
      by (auto simp: relay_exact_loop.simps [of buf n] write_all_sent [OF "1.prems"(2)])
  qed
qed

lemma relay_exact_loop_short:
  assumes "no_empty (rx src)" "wr_ok dst = []" "0 < length buf" "length (rx_bytes (rx src)) < n"
  shows "\<exists>src'. relay_exact_loop buf n src dst =
    (if rx_rest (rx src) = [] then Pending else Io_Error, src', sent (rx_bytes (rx src)) dst)"
  using assms
proof (induction buf n src dst rule: relay_exact_loop.induct)
  case (1 buf n src dst)
  let ?w = "min n (length buf)"
  have n: "n \<noteq> 0" and w: "0 < ?w" using "1.prems" by auto
  show ?case
  proof (cases "rx_bytes (rx src) = []")
    case True
    have "conn_read ?w src = (case rx_rest (rx src) of
      [] \<Rightarrow> (Pending, src) | Rx_Error # r \<Rightarrow> (Io_Error, src\<lparr>rx := r\<rparr>) | Rx_Eof # r \<Rightarrow> (Ready [], src) | Rx_Data d # r \<Rightarrow> undefined)"
      by (rule conn_read_end [OF True "1.prems"(1)])
    then show ?thesis
      using n True by (cases rule: rx_rest_cases [of "rx src"]) (auto simp: relay_exact_loop.simps [of buf n])
  next
    case False
    obtain d src' where r: "conn_read ?w src = (Ready d, src')" and d: "d \<noteq> []"
      using conn_read_data [OF "1.prems"(1) w False] by metis
    have c: "consumes src d src'" by (rule conn_read_consumes [OF r "1.prems"(1) w])
    have dl: "length d \<le> ?w" using conn_read_Ready [OF r] by blast
    have bytes: "rx_bytes (rx src) = d @ rx_bytes (rx src')" by (rule consumesD(1) [OF c])
    have "\<exists>src''. relay_exact_loop (buf_put buf 0 d) (n - length d) src' (sent d dst)
        = (if rx_rest (rx src') = [] then Pending else Io_Error, src'', sent (rx_bytes (rx src')) (sent d dst))"
      using "1.IH" [OF n refl r [symmetric] refl d write_all_sent [OF "1.prems"(2), symmetric] refl]
        consumesD(3) [OF c] "1.prems" bytes dl buf_put_length [of 0 d buf] by simp
    then show ?thesis
      using n r d bytes consumesD(2) [OF c]
      by (auto simp: relay_exact_loop.simps [of buf n] write_all_sent [OF "1.prems"(2)])
  qed
qed

lemma relay_close_loop_result:
  assumes "no_empty (rx src)" "wr_ok dst = []" "0 < length buf"
  shows "\<exists>buf' src'. relay_close_loop buf src dst =
    (case rx_rest (rx src) of [] \<Rightarrow> Pending | Rx_Eof # r \<Rightarrow> Ready buf' | _ \<Rightarrow> Io_Error, src', sent (rx_bytes (rx src)) dst)"
  using assms
proof (induction buf src dst rule: relay_close_loop.induct)
  case (1 buf src dst)
  show ?case
  proof (cases "rx_bytes (rx src) = []")
    case True
    have "conn_read (length buf) src = (case rx_rest (rx src) of
      [] \<Rightarrow> (Pending, src) | Rx_Error # r \<Rightarrow> (Io_Error, src\<lparr>rx := r\<rparr>) | Rx_Eof # r \<Rightarrow> (Ready [], src) | Rx_Data d # r \<Rightarrow> undefined)"
      by (rule conn_read_end [OF True "1.prems"(1)])
    then show ?thesis
      using True by (cases rule: rx_rest_cases [of "rx src"]) (auto simp: relay_close_loop.simps [of buf])
  next
    case False
    obtain d src' where r: "conn_read (length buf) src = (Ready d, src')" and d: "d \<noteq> []"
      using conn_read_data [OF "1.prems"(1,3) False] by metis
    have c: "consumes src d src'" by (rule conn_read_consumes [OF r "1.prems"(1,3)])
    have dl: "length d \<le> length buf" using conn_read_Ready [OF r] by blast
    have bytes: "rx_bytes (rx src) = d @ rx_bytes (rx src')" by (rule consumesD(1) [OF c])
    have "\<exists>buf' src''. relay_close_loop (buf_put buf 0 d) src' (sent d dst)
        = (case rx_rest (rx src') of [] \<Rightarrow> Pending | Rx_Eof # r \<Rightarrow> Ready buf' | _ \<Rightarrow> Io_Error, src'', sent (rx_bytes (rx src')) (sent d dst))"
      using "1.IH" [OF r [symmetric] refl d write_all_sent [OF "1.prems"(2), symmetric] refl]
        consumesD(3) [OF c] "1.prems" dl buf_put_length [of 0 d buf] by simp
    then show ?thesis
      using r d bytes consumesD(2) [OF c]
      by (auto simp: relay_close_loop.simps [of buf] write_all_sent [OF "1.prems"(2)])
  qed
qed

section \<open>Reading a head\<close>

text \<open>
  What the code relies on of a head parser, on the stream \<open>s\<close>: it asks for more until the head of \<open>H\<close>
  bytes is there, and then gives the head whatever follows it.
\<close>

definition head_at :: "(bytes \<Rightarrow> 'h Parsed) \<Rightarrow> bytes \<Rightarrow> nat \<Rightarrow> 'h \<Rightarrow> bool" where
  "head_at parse s H h = (0 < H \<and> H \<le> length s \<and>
     (\<forall>k\<le>length s. 0 < k \<longrightarrow> parse (take k s) = (if k < H then Partial else Complete h)))"

lemma head_atD:
  "head_at parse s H h \<Longrightarrow> 0 < k \<Longrightarrow> k \<le> length s \<Longrightarrow> parse (take k s) = (if k < H then Partial else Complete h)"
  by (simp add: head_at_def)

text \<open>One read into a grown buffer, while the head is incomplete.\<close>

lemma read_step:
  assumes "filled \<le> length buf" "no_empty (rx c)" "rx_bytes (rx c) \<noteq> []"
  obtains d c' where "conn_read (length (grow_for_read buf filled) - filled) c = (Ready d, c')" "d \<noteq> []"
    "consumes c d c'" "filled + length d \<le> length (buf_put (grow_for_read buf filled) filled d)"
    "take (filled + length d) (buf_put (grow_for_read buf filled) filled d) = take filled buf @ d"
proof -
  let ?g = "grow_for_read buf filled"
  have g: "filled < length ?g" using grow_for_read_length [OF assms(1)] by blast
  then have cap: "0 < length ?g - filled" by simp
  obtain d c' where r: "conn_read (length ?g - filled) c = (Ready d, c')" and d: "d \<noteq> []"
    using conn_read_data [OF assms(2) cap assms(3)] by metis
  have "length d \<le> length ?g - filled" using conn_read_Ready [OF r] by blast
  then have "filled + length d \<le> length (buf_put ?g filled d)" using g by (simp add: buf_put_length)
  moreover have "take (filled + length d) (buf_put ?g filled d) = take filled buf @ d"
    using buf_put_take [of filled ?g d] g grow_for_read_take [OF assms(1)] by simp
  ultimately show ?thesis using that r d conn_read_consumes [OF r assms(2) cap] by blast
qed

lemma response_head_found:
  assumes "head_at (\<lambda>b. parse_response P b m) (take filled buf @ rx_bytes (rx up)) (rsp_head_len h) h"
    "filled \<le> length buf" "no_empty (rx up)"
  shows "\<exists>buf' filled' up' d. response_head P m buf filled up = (Got h, buf', filled', up') \<and>
    rsp_head_len h \<le> filled' \<and> filled' \<le> length buf' \<and> consumes up d up' \<and> take filled' buf' = take filled buf @ d"
  using assms
proof (induction P m buf filled up rule: response_head.induct)
  case (1 P m buf filled up)
  let ?s = "take filled buf @ rx_bytes (rx up)"
  have fl: "length (take filled buf) = filled" using "1.prems"(2) by simp
  then have parse: "0 < filled \<Longrightarrow> parse_response P (take filled buf) m = (if filled < rsp_head_len h then Partial else Complete h)"
    using head_atD [OF "1.prems"(1), of filled] by simp
  show ?case
  proof (cases "filled < rsp_head_len h")
    case False
    moreover have "0 < filled" using False "1.prems"(1) by (simp add: head_at_def)
    ultimately have "response_head P m buf filled up = (Got h, buf, filled, up)"
      using parse by (simp add: response_head.simps [of P m buf])
    then show ?thesis
      using False "1.prems"(2) consumes_refl [OF "1.prems"(3)] by auto
  next
    case True
    then have more: "rx_bytes (rx up) \<noteq> []"
      using "1.prems"(1) fl by (auto simp: head_at_def)
    have part: "(if filled > 0 then parse_response P (take filled buf) m else Partial) = Partial"
      using True parse by simp
    let ?g = "grow_for_read buf filled"
    obtain d up' where r: "conn_read (length ?g - filled) up = (Ready d, up')" and d: "d \<noteq> []"
      and c: "consumes up d up'" and l: "filled + length d \<le> length (buf_put ?g filled d)"
      and t: "take (filled + length d) (buf_put ?g filled d) = take filled buf @ d"
      by (rule read_step [OF "1.prems"(2,3) more])
    have s: "take (filled + length d) (buf_put ?g filled d) @ rx_bytes (rx up') = ?s"
      unfolding t consumesD(1) [OF c] by simp
    have "\<exists>buf' filled' up'' d'. response_head P m (buf_put ?g filled d) (filled + length d) up' = (Got h, buf', filled', up'') \<and>
        rsp_head_len h \<le> filled' \<and> filled' \<le> length buf' \<and> consumes up' d' up'' \<and>
        take filled' buf' = take (filled + length d) (buf_put ?g filled d) @ d'"
      using "1.IH" [OF part refl r [symmetric] refl d] "1.prems"(1) consumesD(3) [OF c] l unfolding s by blast
    then obtain buf' filled' up'' d' where *: "response_head P m (buf_put ?g filled d) (filled + length d) up' = (Got h, buf', filled', up'')"
      "rsp_head_len h \<le> filled'" "filled' \<le> length buf'" "consumes up' d' up''" "take filled' buf' = take filled buf @ d @ d'"
      unfolding t by auto
    have "response_head P m buf filled up = (Got h, buf', filled', up'')"
      using part r d *(1) by (simp add: response_head.simps [of P m buf] Let_def)
    then show ?thesis using *(2-) consumes_trans [OF c] by blast
  qed
qed

section \<open>The response, relayed\<close>

lemma memmem_bound:
  assumes "memmem_spec f" "f h n = Some i"
  shows "i + length n \<le> length h"
proof -
  have "case f h n of None \<Rightarrow> \<forall>i. i \<le> length h \<longrightarrow> \<not> prefix n (drop i h)
    | Some i \<Rightarrow> i + length n \<le> length h \<and> prefix n (drop i h) \<and> (\<forall>j<i. \<not> prefix n (drop j h))"
    using assms(1) unfolding memmem_spec_def by blast
  then show ?thesis by (simp add: assms(2))
qed

text \<open>The head is rewritten from its own bytes only, whatever was read after it.\<close>

lemma first_line_end_le:
  assumes "http1_spec P" "n \<le> length original"
  shows "first_line_end P original n \<le> n"
proof -
  have "i + length CRLF \<le> length (take n original)" if "l_memmem P (take n original) CRLF = Some i" for i
    using memmem_bound [of "l_memmem P" "take n original" CRLF i] that assms(1) by (simp add: http1_spec_def)
  then show ?thesis using assms(2) by (auto simp: first_line_end_def split: option.split)
qed

lemma write_return_head_append:
  assumes "http1_spec P" "rsp_head_len head \<le> length a"
  shows "write_return_head P (a @ b) head k = write_return_head P a head k"
proof -
  have "first_line_end P (a @ b) (rsp_head_len head) = first_line_end P a (rsp_head_len head)"
    using assms(2) by (simp add: first_line_end_def)
  then show ?thesis
    using assms(2) first_line_end_le [OF assms] by (simp add: write_return_head_def Let_def)
qed

text \<open>What of a stream \<open>s\<close> is the payload of a response with head \<open>h\<close>, and when all of it arrives.\<close>

definition response_payload :: "ResponseHead \<Rightarrow> bytes \<Rightarrow> bytes" where
  "response_payload h s = (case rsp_body h of Empty \<Rightarrow> [] | Fixed n \<Rightarrow> take n (drop (rsp_head_len h) s) | _ \<Rightarrow> drop (rsp_head_len h) s)"

definition response_complete :: "ResponseHead \<Rightarrow> rx_event list \<Rightarrow> bool" where
  "response_complete h r = (case rsp_body h of
     Empty \<Rightarrow> True | Fixed n \<Rightarrow> rsp_head_len h + n \<le> length (rx_bytes r) | Chunked \<Rightarrow> False
   | UntilClose \<Rightarrow> (\<exists>s. rx_rest r = Rx_Eof # s))"

lemma io_buf_nonempty: "0 < length (if length buf < IO_BUF_SIZE then vec_resize IO_BUF_SIZE buf else buf)"
proof -
  have "IO_BUF_SIZE \<le> length (if length buf < IO_BUF_SIZE then vec_resize IO_BUF_SIZE buf else buf)" by simp
  then show ?thesis by (rule less_le_trans [rotated]) (simp add: IO_BUF_SIZE_def)
qed

lemmas relay_exact_enough = relay_exact_loop_enough [OF _ _ io_buf_nonempty, folded relay_exact_def]
  and relay_exact_short = relay_exact_loop_short [OF _ _ io_buf_nonempty, folded relay_exact_def]
  and relay_until_close_result = relay_close_loop_result [OF _ _ io_buf_nonempty, folded relay_until_close_def]

lemma write_some_sent: "wr_ok c = [] \<Longrightarrow> write_some d c = (Ready (), sent d c)"
  by (simp add: write_some_def write_all_sent)

lemma relay_response_body_relayed:
  assumes "rsp_head_len h \<le> filled" "filled \<le> length buf" "take filled buf @ rx_bytes (rx up) = s"
    "no_empty (rx up)" "wr_ok down = []" "rsp_body h \<noteq> Chunked"
    "case rsp_body h of Fixed n \<Rightarrow> rsp_head_len h + n \<le> length s | UntilClose \<Rightarrow> \<exists>r. rx_rest (rx up) = Rx_Eof # r | _ \<Rightarrow> True"
  shows "\<exists>up'. relay_response_body P h buf filled up down = (Ready (), up', sent (response_payload h s) down) \<and>
    (rsp_body h \<noteq> UntilClose \<longrightarrow> (\<exists>d. consumes up d up'))"
proof -
  define b where "b = drop (rsp_head_len h) (take filled buf)"
  have b: "take (filled - rsp_head_len h) (drop (rsp_head_len h) buf) = b"
    by (simp add: b_def drop_take)
  have s: "drop (rsp_head_len h) s = b @ rx_bytes (rx up)"
    using assms(1,2,3) by (auto simp: b_def)
  show ?thesis
  proof (cases "rsp_body h")
    case (Fixed n)
    then have "rsp_head_len h + n \<le> length s" using assms(7) by simp
    then have enough: "n \<le> length (b @ rx_bytes (rx up))" unfolding s [symmetric] by simp
    show ?thesis
    proof (cases "n \<le> length b")
      case True
      then have "relay_response_body P h buf filled up down = (Ready (), up, sent (take n b) down)"
        unfolding relay_response_body_def Let_def b by (simp add: Fixed write_some_sent [OF assms(5)] min_def)
      then show ?thesis
        using True Fixed consumes_refl [OF assms(4)] by (auto simp: response_payload_def s)
    next
      case False
      have "n - length b \<le> length (rx_bytes (rx up))" using enough by simp
      from relay_exact_enough [OF assms(4) _ this, of "sent b down" buf] assms(5)
      obtain buf' up' where "relay_exact up (sent b down) buf (n - length b)
          = (Ready buf', up', sent (take (n - length b) (rx_bytes (rx up))) (sent b down))"
        "consumes up (take (n - length b) (rx_bytes (rx up))) up'"
        by auto
      moreover from this False have "relay_response_body P h buf filled up down
          = (Ready (), up', sent (b @ take (n - length b) (rx_bytes (rx up))) down)"
        unfolding relay_response_body_def Let_def b by (simp add: Fixed write_some_sent [OF assms(5)] min_def)
      ultimately show ?thesis
        using Fixed False by (auto simp: response_payload_def s)
    qed
  next
    case UntilClose
    then obtain r where eof: "rx_rest (rx up) = Rx_Eof # r" using assms(7) by auto
    from relay_until_close_result [OF assms(4), of "sent b down" buf] assms(5) eof
    obtain buf' up' where "relay_until_close up (sent b down) buf = (Ready buf', up', sent (rx_bytes (rx up)) (sent b down))"
      by auto
    then have "relay_response_body P h buf filled up down = (Ready (), up', sent (b @ rx_bytes (rx up)) down)"
      unfolding relay_response_body_def Let_def b by (simp add: UntilClose write_some_sent [OF assms(5)])
    then show ?thesis
      using UntilClose by (simp add: response_payload_def s)
  next
    case Empty
    then show ?thesis using consumes_refl [OF assms(4)] by (auto simp: relay_response_body_def response_payload_def)
  qed (use assms(6) in simp)
qed

lemma relay_response_relayed:
  assumes "http1_spec P" "head_at (\<lambda>b. parse_response P b m) (rx_bytes (rx up)) (rsp_head_len h) h"
    "no_empty (rx up)" "wr_ok down = []" "response_complete h (rx up)"
  shows "\<exists>up'. relay_response P up down m keep_alive =
      (Ready \<lparr>upstream_reusable = (\<not> rsp_close h \<and> rsp_body h \<noteq> UntilClose),
              downstream_reusable = (keep_alive \<and> rsp_body h \<noteq> UntilClose)\<rparr>, up',
       sent (write_return_head P (rx_bytes (rx up)) h (keep_alive \<and> rsp_body h \<noteq> UntilClose)
             @ response_payload h (rx_bytes (rx up))) down) \<and>
    (rsp_body h \<noteq> UntilClose \<longrightarrow> (\<exists>d. consumes up d up' \<and> prefix (take (rsp_head_len h) (rx_bytes (rx up))) d))"
proof -
  let ?s = "rx_bytes (rx up)" and ?k = "keep_alive \<and> rsp_body h \<noteq> UntilClose"
  from response_head_found [of P m 0 "[]" up h] assms(2,3)
  obtain buf filled up1 d where head: "response_head P m [] 0 up = (Got h, buf, filled, up1)"
    and f: "rsp_head_len h \<le> filled" "filled \<le> length buf" and c: "consumes up d up1" and t: "take filled buf = d" by auto
  have s: "take filled buf @ rx_bytes (rx up1) = ?s" using consumesD(1) [OF c] t by simp
  have len: "rsp_head_len h \<le> length d" using f t by auto
  have wr: "write_return_head P (take filled buf) h ?k = write_return_head P ?s h ?k"
    using write_return_head_append [OF assms(1) len] by (simp add: t consumesD(1) [OF c])
  have nc: "rsp_body h \<noteq> Chunked" using assms(5) by (auto simp: response_complete_def)
  have ok: "case rsp_body h of Fixed n \<Rightarrow> rsp_head_len h + n \<le> length ?s | UntilClose \<Rightarrow> \<exists>r. rx_rest (rx up1) = Rx_Eof # r | _ \<Rightarrow> True"
    using assms(5) consumesD(2) [OF c] by (auto simp: response_complete_def split: BodyLength.splits)
  let ?down = "sent (write_return_head P ?s h ?k) down"
  have "wr_ok ?down = []" using assms(4) by simp
  from relay_response_body_relayed [OF f s consumesD(3) [OF c] this nc ok, of P]
  obtain up2 where body: "relay_response_body P h buf filled up1 ?down = (Ready (), up2, sent (response_payload h ?s) ?down)"
    and c2: "rsp_body h \<noteq> UntilClose \<longrightarrow> (\<exists>e. consumes up1 e up2)" by blast
  have "relay_response P up down m keep_alive =
      (Ready \<lparr>upstream_reusable = (\<not> rsp_close h \<and> rsp_body h \<noteq> UntilClose), downstream_reusable = ?k\<rparr>, up2,
       sent (response_payload h ?s) ?down)"
    by (simp add: relay_response_def head Let_def wr write_all_sent [OF assms(4)] body)
  moreover have "take (rsp_head_len h) ?s = take (rsp_head_len h) d" using len by (simp add: consumesD(1) [OF c])
  ultimately show ?thesis
    using c2 consumes_trans [OF c] take_is_prefix prefix_prefix by fastforce
qed

section \<open>Correctness\<close>

text \<open>
  relaying a body of known length.  However the source's bytes are cut into segments, exactly the
  next \<open>n\<close> bytes are written to the destination, in order, and the source is left at the byte after
  them.  When the source ends or fails earlier the relay is an error (and waits when the source is
  merely silent), with what did arrive written.
\<close>

theorem relay_exact_correct:
  assumes "no_empty (rx src)" "wr_ok dst = []"
  shows "if n \<le> length (rx_bytes (rx src))
    then \<exists>buf' src'. relay_exact src dst buf n = (Ready buf', src', sent (take n (rx_bytes (rx src))) dst) \<and>
           consumes src (take n (rx_bytes (rx src))) src'
    else \<exists>src'. relay_exact src dst buf n =
           (if rx_rest (rx src) = [] then Pending else Io_Error, src', sent (rx_bytes (rx src)) dst)"
  using relay_exact_enough [OF assms, of n buf] relay_exact_short [OF assms, of n buf] by (auto simp: not_le)

theorem relay_exact_correct_witness:
  "\<exists>buf' src'. relay_exact \<lparr>conn_peer = [], rx = [Rx_Data ''ab'', Rx_Data ''cde''], tx = [], wr_ok = []\<rparr>
       \<lparr>conn_peer = [], rx = [], tx = ''x'', wr_ok = []\<rparr> [] 3
     = (Ready buf', src', \<lparr>conn_peer = [], rx = [], tx = ''xabc'', wr_ok = []\<rparr>)"
  using relay_exact_correct [of "\<lparr>conn_peer = [], rx = [Rx_Data ''ab'', Rx_Data ''cde''], tx = [], wr_ok = []\<rparr>"
      "\<lparr>conn_peer = [], rx = [], tx = ''x'', wr_ok = []\<rparr>" 3 "[]"]
  by (auto simp: no_empty_def sent_def)

text \<open>
  C17: relaying a response.  For every segmentation of the upstream's stream, the client gets the rewritten
  head followed by the payload its framing says (none, the \<open>Content-Length\<close> bytes, or everything up to
  the end of the stream); the upstream connection is offered for reuse exactly when neither side
  closes it, the downstream one is kept when the client asked for that and the body is delimited.
\<close>

theorem relay_response_correct:
  assumes "http1_spec P" "head_at (\<lambda>b. parse_response P b m) (rx_bytes (rx up)) (rsp_head_len h) h"
    "no_empty (rx up)" "wr_ok down = []" "response_complete h (rx up)"
  shows "\<exists>up'. relay_response P up down m keep_alive =
      (Ready \<lparr>upstream_reusable = (\<not> rsp_close h \<and> rsp_body h \<noteq> UntilClose),
              downstream_reusable = (keep_alive \<and> rsp_body h \<noteq> UntilClose)\<rparr>, up',
       sent (write_return_head P (rx_bytes (rx up)) h (keep_alive \<and> rsp_body h \<noteq> UntilClose)
             @ response_payload h (rx_bytes (rx up))) down)"
  using relay_response_relayed [OF assms] by blast

text \<open>A parser of heads that are always four bytes long, for evaluation.\<close>

definition four_http1 :: "nat \<Rightarrow> (bytes \<times> bytes) list \<Rightarrow> http1_lib" where
  "four_http1 code headers = mini_http1\<lparr>l_parse_response := (\<lambda>m b. if length b < 4 then HP_Partial
     else HP_Complete 4 \<lparr>rs_version = Some 1, rs_code = Some code, rs_headers = headers\<rparr>)\<rparr>"

lemma four_http1_spec: "http1_spec (four_http1 code headers)"
  using mini_http1_spec by (simp add: http1_spec_def four_http1_def)

lemma four_head_at:
  assumes "parse_response (four_http1 code headers) (replicate 4 (CHR ''x'')) m = Complete h" "4 \<le> length s"
  shows "head_at (\<lambda>b. parse_response (four_http1 code headers) b m) s (rsp_head_len h) h"
proof -
  have l: "l_parse_response (four_http1 code headers) n b = (if length b < 4 then HP_Partial
      else HP_Complete 4 \<lparr>rs_version = Some 1, rs_code = Some code, rs_headers = headers\<rparr>)" for n b
    by (simp add: four_http1_def)
  have "parse_response (four_http1 code headers) b m = (if length b < 4 then Partial else Complete h)" for b
    using assms(1) unfolding parse_response_def l by simp
  moreover have "rsp_head_len h = 4"
    using assms(1) unfolding parse_response_def l by (auto simp: Let_def)
  ultimately show ?thesis
    using assms(2) by (simp add: head_at_def)
qed

definition two_head :: ResponseHead where
  "two_head = \<lparr>rsp_head_len = 4, rsp_status = 200, rsp_body = Fixed 3, rsp_close = False\<rparr>"

lemma two_head_parse:
  "parse_response (four_http1 200 [(''Content-Length'', ''3'')]) (replicate 4 (CHR ''x'')) ''GET'' = Complete two_head"
proof -
  have "content_length_of (four_http1 c hs) v = content_length_of mini_http1 v" for c hs v
    by (simp add: content_length_of_def four_http1_def mini_http1_def)
  then have cl: "content_length_of (four_http1 c hs) ''3'' = Some 3" for c hs by (simp add: example_length)
  have "eq_icase ''Content-Length'' ''content-length''" "\<not> bodyless ''GET'' 200" by code_simp+
  then have "scan_response (four_http1 c hs) (''Content-Length'', ''3'') st = st\<lparr>hs_length := Some 3\<rparr>" for c hs st
    by (simp add: scan_response_def cl)
  then have "fold (scan_response (four_http1 200 hs)) [(''Content-Length'', ''3'')] st = st\<lparr>hs_length := Some 3\<rparr>" for hs st
    by simp
  moreover have "l_parse_response (four_http1 200 hs) MAX_HEADERS (replicate 4 (CHR ''x'')) =
      HP_Complete 4 \<lparr>rs_version = Some 1, rs_code = Some 200, rs_headers = hs\<rparr>" for hs
    by (simp add: four_http1_def)
  ultimately show ?thesis
    using \<open>\<not> bodyless ''GET'' 200\<close> unfolding parse_response_def two_head_def by (simp del: fold_simps)
qed

theorem relay_response_correct_witness:
  "\<exists>up'. relay_response (four_http1 200 [(''Content-Length'', ''3'')])
       \<lparr>conn_peer = [], rx = [Rx_Data ''HE'', Rx_Data ''ADab'', Rx_Data ''cd''], tx = [], wr_ok = []\<rparr>
       \<lparr>conn_peer = [], rx = [], tx = [], wr_ok = []\<rparr> ''GET'' True
     = (Ready \<lparr>upstream_reusable = True, downstream_reusable = True\<rparr>, up',
        \<lparr>conn_peer = [], rx = [], tx = ''HEAD'' @ ''Connection: keep-alive'' @ CRLF @ CRLF @ ''abc'', wr_ok = []\<rparr>)"
proof -
  let ?P = "four_http1 200 [(''Content-Length'', ''3'')]"
  let ?up = "\<lparr>conn_peer = [], rx = [Rx_Data ''HE'', Rx_Data ''ADab'', Rx_Data ''cd''], tx = [], wr_ok = []\<rparr>"
  let ?down = "\<lparr>conn_peer = [], rx = [], tx = [], wr_ok = []\<rparr>"
  have bytes: "rx_bytes (rx ?up) = ''HEADabcd''" by simp
  have h: "head_at (\<lambda>b. parse_response ?P b ''GET'') (rx_bytes (rx ?up)) (rsp_head_len two_head) two_head"
    by (rule four_head_at [OF two_head_parse]) simp
  have "no_empty (rx ?up)" "wr_ok ?down = []" "response_complete two_head (rx ?up)"
    by (simp_all add: no_empty_def response_complete_def two_head_def)
  note relayed = relay_response_correct [OF four_http1_spec h this, of True]
  have head: "write_return_head ?P ''HEADabcd'' two_head True = ''HEAD'' @ ''Connection: keep-alive'' @ CRLF @ CRLF"
    by code_simp
  have "response_payload two_head ''HEADabcd'' = ''abc''" by (simp add: response_payload_def two_head_def)
  then show ?thesis
    using relayed head unfolding bytes by (simp add: sent_def two_head_def)
qed

section \<open>Where the relay goes wrong\<close>

lemma conn_read_one: "rx c = [Rx_Data s] \<Longrightarrow> length s \<le> cap \<Longrightarrow> conn_read cap c = (Ready s, c\<lparr>rx := []\<rparr>)"
  by (simp add: conn_read_def)

lemma response_head_one_segment:
  assumes "head_at (\<lambda>b. parse_response P b m) s (rsp_head_len h) h" "rx up = [Rx_Data s]" "length s \<le> IO_BUF_INITIAL"
  shows "\<exists>buf. response_head P m [] 0 up = (Got h, buf, length s, up\<lparr>rx := []\<rparr>) \<and> take (length s) buf = s \<and> length s \<le> length buf"
proof -
  let ?g = "grow_for_read [] 0"
  have g: "length ?g = IO_BUF_INITIAL" by (simp add: grow_for_read_def IO_BUF_INITIAL_def)
  have s: "s \<noteq> []" and parse: "parse_response P s m = Complete h"
    using assms(1) head_atD [OF assms(1), of "length s"] by (auto simp: head_at_def)
  have r: "conn_read (length ?g - 0) up = (Ready s, up\<lparr>rx := []\<rparr>)"
    using conn_read_one [OF assms(2)] assms(3) g by simp
  have b: "take (length s) (buf_put ?g 0 s) = s" "length s \<le> length (buf_put ?g 0 s)"
    by (simp_all add: buf_put_def)
  have "response_head P m (buf_put ?g 0 s) (length s) (up\<lparr>rx := []\<rparr>) = (Got h, buf_put ?g 0 s, length s, up\<lparr>rx := []\<rparr>)"
    using s b parse by (simp add: response_head.simps [of P m "buf_put ?g 0 s"])
  then have "response_head P m [] 0 up = (Got h, buf_put ?g 0 s, length s, up\<lparr>rx := []\<rparr>)"
    using r s by (simp add: response_head.simps [of P m "[]"] Let_def)
  then show ?thesis using b by blast
qed

text \<open>
  C39: a chunked response that arrives together with its head is not recognised as complete.  All of it is
  passed on, terminator included, but the relay then waits for a further read from an upstream that
  has nothing more to say: the exchange ends only when the upstream closes the connection.
\<close>

theorem chunked_response_stalls:
  assumes "http1_spec P" "head_at (\<lambda>b. parse_response P b m) s (rsp_head_len h) h" "rsp_body h = Chunked"
    "rx up = [Rx_Data s]" "length s \<le> IO_BUF_INITIAL" "wr_ok down = []"
  shows "\<exists>up'. relay_response P up down m keep_alive =
    (Pending, up', sent (write_return_head P s h keep_alive @ drop (rsp_head_len h) s) down)"
proof -
  obtain buf where head: "response_head P m [] 0 up = (Got h, buf, length s, up\<lparr>rx := []\<rparr>)"
    and buf: "take (length s) buf = s" "length s \<le> length buf"
    using response_head_one_segment [OF assms(2,4,5)] by blast
  have b: "take (length s - rsp_head_len h) (drop (rsp_head_len h) buf) = drop (rsp_head_len h) s"
    using buf by (metis drop_take)
  have wait: "relay_chunked mm (up\<lparr>rx := []\<rparr>) d buf = (Pending, up\<lparr>rx := []\<rparr>, d)" for mm d
    by (simp add: relay_chunked_def relay_chunked_loop.simps conn_read_def)
  let ?down = "sent (write_return_head P s h keep_alive) down"
  have "relay_response_body P h buf (length s) (up\<lparr>rx := []\<rparr>) ?down
      = (Pending, up\<lparr>rx := []\<rparr>, sent (drop (rsp_head_len h) s) ?down)"
    using assms(6) unfolding relay_response_body_def Let_def b by (simp add: assms(3) write_some_sent wait)
  then show ?thesis
    using buf by (simp add: relay_response_def head assms(3) write_all_sent [OF assms(6)] Let_def)
qed

theorem chunked_response_stalls_witness:
  "\<exists>up'. relay_response (four_http1 200 [(''Transfer-Encoding'', ''chunked'')])
       \<lparr>conn_peer = [], rx = [Rx_Data (''HEAD'' @ TERMINATOR)], tx = [], wr_ok = []\<rparr>
       \<lparr>conn_peer = [], rx = [], tx = [], wr_ok = []\<rparr> ''GET'' True
     = (Pending, up', \<lparr>conn_peer = [], rx = [], tx = ''HEAD'' @ ''Connection: keep-alive'' @ CRLF @ CRLF @ TERMINATOR, wr_ok = []\<rparr>)"
proof -
  let ?P = "four_http1 200 [(''Transfer-Encoding'', ''chunked'')]"
  let ?h = "\<lparr>rsp_head_len = 4, rsp_status = 200, rsp_body = Chunked, rsp_close = False\<rparr>"
  let ?down = "\<lparr>conn_peer = [], rx = [], tx = [], wr_ok = []\<rparr>"
  have "parse_response ?P (replicate 4 (CHR ''x'')) ''GET'' = Complete ?h" by code_simp
  from four_head_at [OF this, of "''HEAD'' @ TERMINATOR"]
  have h: "head_at (\<lambda>b. parse_response ?P b ''GET'') (''HEAD'' @ TERMINATOR) (rsp_head_len ?h) ?h" by simp
  have len: "length (''HEAD'' @ TERMINATOR) \<le> IO_BUF_INITIAL" by (simp add: TERMINATOR_def IO_BUF_INITIAL_def)
  have head: "write_return_head ?P (''HEAD'' @ TERMINATOR) ?h True = ''HEAD'' @ ''Connection: keep-alive'' @ CRLF @ CRLF"
    by code_simp
  show ?thesis
    using chunked_response_stalls [OF four_http1_spec h _ _ len, of
        "\<lparr>conn_peer = [], rx = [Rx_Data (''HEAD'' @ TERMINATOR)], tx = [], wr_ok = []\<rparr>" ?down True]
    unfolding head by (simp add: sent_def)
qed

text \<open>
  C40: an interim response ends the exchange.  A 1xx head is taken for the whole response: it is passed on
  with a \<open>Connection\<close> line and without a body, and the upstream connection, on which the final response
  is still to come, is offered for reuse by the next request.
\<close>

theorem interim_response_ends_exchange:
  assumes "http1_spec P" "head_at (\<lambda>b. parse_response P b m) (rx_bytes (rx up)) (rsp_head_len h) h"
    "rsp_status h div 100 = 1" "no_empty (rx up)" "wr_ok down = []"
  shows "\<exists>up' d. relay_response P up down m keep_alive =
      (Ready \<lparr>upstream_reusable = (\<not> rsp_close h), downstream_reusable = keep_alive\<rparr>, up',
       sent (write_return_head P (rx_bytes (rx up)) h keep_alive) down) \<and> consumes up d up'"
proof -
  have "parse_response P (rx_bytes (rx up)) m = Complete h"
    using assms(2) head_atD [OF assms(2), of "length (rx_bytes (rx up))"] by (auto simp: head_at_def)
  then have e: "rsp_body h = Empty"
    using assms(3) by (auto simp: parse_response_def Let_def bodyless_def split: hp_result.splits option.splits)
  then have "response_complete h (rx up)" by (simp add: response_complete_def)
  from relay_response_relayed [OF assms(1,2,4,5) this, of keep_alive] e show ?thesis
    by (auto simp: response_payload_def)
qed

theorem interim_response_ends_exchange_witness:
  "\<exists>up' d. relay_response (four_http1 103 [])
       \<lparr>conn_peer = [], rx = [Rx_Data ''HEAD'', Rx_Data ''HTTP/1.1 200 OK''], tx = [], wr_ok = []\<rparr>
       \<lparr>conn_peer = [], rx = [], tx = [], wr_ok = []\<rparr> ''GET'' True
     = (Ready \<lparr>upstream_reusable = True, downstream_reusable = True\<rparr>, up', d)"
proof -
  let ?P = "four_http1 103 []"
  let ?up = "\<lparr>conn_peer = [], rx = [Rx_Data ''HEAD'', Rx_Data ''HTTP/1.1 200 OK''], tx = [], wr_ok = []\<rparr>"
  let ?down = "\<lparr>conn_peer = [], rx = [], tx = [], wr_ok = []\<rparr>"
  let ?h = "\<lparr>rsp_head_len = 4, rsp_status = 103, rsp_body = Empty, rsp_close = False\<rparr>"
  have "parse_response ?P (replicate 4 (CHR ''x'')) ''GET'' = Complete ?h" by code_simp
  from four_head_at [OF this, of "rx_bytes (rx ?up)"]
  have h: "head_at (\<lambda>b. parse_response ?P b ''GET'') (rx_bytes (rx ?up)) (rsp_head_len ?h) ?h" by simp
  show ?thesis
    using interim_response_ends_exchange [OF four_http1_spec h, of ?down True] by (auto simp: no_empty_def)
qed

section \<open>Connections keep their peer\<close>

lemma write_some_peer: "write_some d c = (r, c') \<Longrightarrow> conn_peer c' = conn_peer c"
  by (auto simp: write_some_def dest: write_all_frame split: if_splits)

lemma relay_exact_loop_peer:
  "relay_exact_loop buf n src dst = (r, src', dst') \<Longrightarrow> conn_peer src' = conn_peer src \<and> tx src' = tx src \<and> conn_peer dst' = conn_peer dst"
proof (induction buf n src dst arbitrary: r src' dst' rule: relay_exact_loop.induct)
  case (1 buf n src dst)
  show ?case
    using "1.prems" "1.IH"
    by (subst (asm) relay_exact_loop.simps)
      (fastforce simp: Let_def dest: conn_read_frame write_all_frame split: if_splits prod.splits io.splits)
qed

lemma relay_chunked_loop_peer:
  "relay_chunked_loop mm buf src dst = (r, src', dst') \<Longrightarrow> conn_peer src' = conn_peer src \<and> tx src' = tx src \<and> conn_peer dst' = conn_peer dst"
proof (induction mm buf src dst arbitrary: r src' dst' rule: relay_chunked_loop.induct)
  case (1 mm buf src dst)
  show ?case
    using "1.prems" "1.IH"
    by (subst (asm) relay_chunked_loop.simps)
      (fastforce simp: Let_def dest: conn_read_frame write_all_frame split: if_splits prod.splits io.splits)
qed

lemma relay_close_loop_peer:
  "relay_close_loop buf src dst = (r, src', dst') \<Longrightarrow> conn_peer src' = conn_peer src \<and> tx src' = tx src \<and> conn_peer dst' = conn_peer dst"
proof (induction buf src dst arbitrary: r src' dst' rule: relay_close_loop.induct)
  case (1 buf src dst)
  show ?case
    using "1.prems" "1.IH"
    by (subst (asm) relay_close_loop.simps)
      (fastforce simp: Let_def dest: conn_read_frame write_all_frame split: if_splits prod.splits io.splits)
qed

lemma response_head_peer: "response_head P m buf filled up = (r, buf', filled', up') \<Longrightarrow> conn_peer up' = conn_peer up \<and> tx up' = tx up"
proof (induction P m buf filled up arbitrary: r buf' filled' up' rule: response_head.induct)
  case (1 P m buf filled up)
  show ?case
    using "1.prems" "1.IH"
    by (subst (asm) response_head.simps)
      (fastforce simp: Let_def dest: conn_read_frame split: if_splits prod.splits io.splits Parsed.splits)
qed

lemma relay_peers:
  "tx (fst (snd (relay_exact src dst buf n))) = tx src" "tx (fst (snd (relay_chunked mm src dst buf))) = tx src"
  "tx (fst (snd (relay_until_close src dst buf))) = tx src"
  "conn_peer (fst (snd (relay_exact src dst buf n))) = conn_peer src" "conn_peer (snd (snd (relay_exact src dst buf n))) = conn_peer dst"
  "conn_peer (fst (snd (relay_chunked mm src dst buf))) = conn_peer src" "conn_peer (snd (snd (relay_chunked mm src dst buf))) = conn_peer dst"
  "conn_peer (fst (snd (relay_until_close src dst buf))) = conn_peer src"
  unfolding relay_exact_def relay_chunked_def relay_until_close_def
  by (metis prod.collapse relay_exact_loop_peer relay_chunked_loop_peer relay_close_loop_peer)+

lemma relay_response_body_peer:
  assumes "relay_response_body P h buf filled up down = (r, up', down')"
  shows "conn_peer up' = conn_peer up \<and> tx up' = tx up"
proof -
  let ?b = "take (filled - rsp_head_len h) (drop (rsp_head_len h) buf)"
  have "conn_peer (fst (snd (relay_response_body P h buf filled up down))) = conn_peer up \<and>
      tx (fst (snd (relay_response_body P h buf filled up down))) = tx up"
  proof (cases "rsp_body h")
    case (Fixed n)
    then show ?thesis
      by (cases "fst (write_some (take (min (length ?b) n) ?b) down)")
        (simp_all only: relay_response_body_def Let_def case_prod_unfold relay_peers BodyLength.case io.case fst_conv snd_conv
          if_distrib [of fst] if_distrib [of snd] if_distrib [of conn_peer] if_distrib [of tx] if_cancel simp_thms)
  next
    case Chunked
    then show ?thesis
      by (cases "fst (write_some ?b down)")
        (simp_all only: relay_response_body_def Let_def case_prod_unfold relay_peers BodyLength.case io.case fst_conv snd_conv simp_thms)
  next
    case UntilClose
    then show ?thesis
      by (cases "fst (write_some ?b down)")
        (simp_all only: relay_response_body_def Let_def case_prod_unfold relay_peers BodyLength.case io.case fst_conv snd_conv simp_thms)
  next
    case Empty
    then show ?thesis by (simp add: relay_response_body_def)
  qed
  then show ?thesis by (simp add: assms)
qed

lemma relay_response_peer: "relay_response P up down m k = (r, up', down') \<Longrightarrow> conn_peer up' = conn_peer up \<and> tx up' = tx up"
  by (auto simp: relay_response_def Let_def dest!: relay_response_body_peer response_head_peer
      split: prod.splits io.splits head_read.splits)

end
