(* ===== verification/Monoio_Server.thy ===== *)
theory Monoio_Server
  imports Monoio_Relay Pool Http2
begin

text \<open>
  \<open>src/crates/proxy-monoio/src/server.rs\<close>, lines 46 to 376: the connection loop of the Monoio data
  plane.  A worker has its pool, the active route table (with the cursors of its groups) and the
  number of connections it has dialled; \<open>w_log\<close> is a history of the exchanges, the address and the
  upstream connection as each ended, for the statements only.  Dialling is third-party: \<open>connect\<close>, by
  the number of the dial and the address.  The clock is read once per exchange (\<open>now\<close>).  Every request
  loads the shared table anew, and between two requests of a connection other connections and the
  controller may have moved its cursors or replaced it: \<open>active n t\<close> is the table the request number \<open>n\<close>
  (from 0) loads when this connection last left \<open>t\<close>; nothing is assumed of it here.
\<close>

section \<open>Configuration and state\<close>

definition MAX_REQUESTS_PER_CONNECTION :: nat where
  "MAX_REQUESTS_PER_CONNECTION = 100000"

definition LISTEN_BACKLOG :: nat where
  "LISTEN_BACKLOG = 65535"

record WorkerConfig =
  wc_listen_addr :: bytes
  wc_workers :: nat
  wc_forwarded_headers :: bool

definition worker_config_new :: "nat \<Rightarrow> bytes \<Rightarrow> WorkerConfig" where
  "worker_config_new num_cpus addr = \<lparr>wc_listen_addr = addr, wc_workers = num_cpus, wc_forwarded_headers = True\<rparr>"

record 'r Worker =
  w_pool :: "conn ConnectionPool"
  w_table :: "'r RouteTable"
  w_dials :: nat
  w_log :: "(bytes \<times> conn) list"

type_synonym connector = "nat \<Rightarrow> bytes \<Rightarrow> conn option"

text \<open>How serving a connection ends: \<open>Ok\<close>, the hand-over to HTTP/2, \<open>Err\<close>, waiting for a peer, or the panic of a
  selection from an empty group.\<close>

datatype serve_end = Served_Ok | Upgraded bytes | Served_Err | Waiting | Panicked

section \<open>Reading a request head\<close>

datatype request_read = Request RequestHead | Sniffed bytes | Reject nat bytes

text \<open>What the bytes read so far decide, if anything.\<close>

definition head_decision :: "http1_lib \<Rightarrow> nat \<Rightarrow> bytes \<Rightarrow> request_read option" where
  "head_decision P served buf =
     (if length buf > 0 then
        (case (if served = 0 then detect_h2 buf else Some False) of
           Some True \<Rightarrow> Some (Sniffed buf)
         | None \<Rightarrow> None
         | Some False \<Rightarrow>
             (case parse_request P buf of
                Complete head \<Rightarrow> Some (Request head)
              | Invalid reason \<Rightarrow> Some (Reject 400 ''Bad Request'')
              | Partial \<Rightarrow> if length buf \<ge> MAX_HEAD_SIZE then Some (Reject 431 ''Request Header Fields Too Large'') else None))
      else None)"

function request_head ::
  "http1_lib \<Rightarrow> nat \<Rightarrow> bytes \<Rightarrow> nat \<Rightarrow> conn \<Rightarrow> request_read head_read \<times> bytes \<times> nat \<times> conn" where
  "request_head P served buf filled down =
     (case head_decision P served (take filled buf) of
        Some r \<Rightarrow> (Got r, buf, filled, down)
      | None \<Rightarrow>
          (let buf = grow_for_read buf filled
           in case conn_read (length buf - filled) down of
                (Io_Error, down') \<Rightarrow> (Head_Error, buf, filled, down')
              | (Pending, down') \<Rightarrow> (Head_Pending, buf, filled, down')
              | (Ready d, down') \<Rightarrow>
                  if d = [] then (Peer_Closed, buf, filled, down')
                  else request_head P served (buf_put buf filled d) (filled + length d) down'))"
  by pat_completeness auto
termination
  by (relation "measure (\<lambda>(P, served, buf, filled, down). rx_size down)") (auto dest: conn_read_size [OF sym])

declare request_head.simps [simp del]

section \<open>The request body and what follows it\<close>

definition next_buffer :: "RequestHead \<Rightarrow> bytes \<Rightarrow> nat \<Rightarrow> nat \<Rightarrow> bytes \<times> nat" where
  "next_buffer head buf filled leftover =
     (let consumed = head_len head
      in if leftover > 0
         then (copy_within buf (consumed + (filled - consumed - leftover)) filled, leftover)
         else (let pipelined_start = consumed + body_prefix_len head (filled - consumed)
               in if pipelined_start < filled
                  then (copy_within buf pipelined_start filled, filled - pipelined_start)
                  else (buf, 0)))"

definition relay_request_body ::
  "http1_lib \<Rightarrow> RequestHead \<Rightarrow> bytes \<Rightarrow> nat \<Rightarrow> conn \<Rightarrow> conn \<Rightarrow> (bytes \<times> nat) io \<times> conn \<times> conn" where
  "relay_request_body P head buf filled down up =
     (let consumed = head_len head;
          leftover = filled - consumed;
          finish = (\<lambda>(r, down', up'). (case r of Ready buf' \<Rightarrow> Ready (next_buffer head buf' filled 0)
                                       | Io_Error \<Rightarrow> Io_Error | Pending \<Rightarrow> Pending, down', up'))
      in case rh_body head of
           Empty \<Rightarrow> (Ready (next_buffer head buf filled leftover), down, up)
         | Fixed len \<Rightarrow>
             (let already = min leftover len
              in case write_some (take already (drop consumed buf)) up of
                   (Ready u, up') \<Rightarrow>
                     if len - already > 0 then finish (relay_exact down up' buf (len - already))
                     else (Ready (next_buffer head buf filled (leftover - already)), down, up')
                 | (e, up') \<Rightarrow> (Io_Error, down, up'))
         | Chunked \<Rightarrow>
             (case write_some (take leftover (drop consumed buf)) up of
                (Ready u, up') \<Rightarrow> finish (relay_chunked (l_memmem P) down up' buf)
              | (e, up') \<Rightarrow> (Io_Error, down, up'))
         | UntilClose \<Rightarrow> (Ready (next_buffer head buf filled leftover), down, up))"

section \<open>One exchange\<close>

definition acquire_upstream :: "connector \<Rightarrow> nat \<Rightarrow> bytes \<Rightarrow> 'r Worker \<Rightarrow> conn option \<times> 'r Worker" where
  "acquire_upstream connect now addr w =
     (case pool_take now addr (w_pool w) of
        (Some c, pool') \<Rightarrow> (Some c, w\<lparr>w_pool := pool'\<rparr>)
      | (None, pool') \<Rightarrow> (connect (w_dials w) addr, w\<lparr>w_pool := pool', w_dials := w_dials w + 1\<rparr>))"

definition forward_target :: "memchr \<Rightarrow> RouteFilters \<Rightarrow> bytes \<Rightarrow> bytes" where
  "forward_target memchr rf target =
     (if rewrites_path rf
      then (case split_target memchr target of (path, query) \<Rightarrow> with_query (apply_url_rewrite rf path) query)
      else target)"

text \<open>\<open>Inl\<close> ends the connection; \<open>Inr\<close> goes on with what is buffered of the next request.\<close>

definition log_end :: "bytes \<Rightarrow> conn \<Rightarrow> 'r Worker \<Rightarrow> 'r Worker" where
  "log_end addr up w = w\<lparr>w_log := w_log w @ [(addr, up)]\<rparr>"

definition serve_exchange ::
  "http1_lib \<Rightarrow> arch \<Rightarrow> ('r, RouteAction) router_lib \<Rightarrow> connector \<Rightarrow> bool \<Rightarrow> bytes \<Rightarrow> nat \<Rightarrow> nat
     \<Rightarrow> RequestHead \<Rightarrow> bytes \<Rightarrow> nat \<Rightarrow> conn \<Rightarrow> 'r Worker \<Rightarrow> (serve_end + bytes \<times> nat) \<times> conn \<times> 'r Worker" where
  "serve_exchange P arch R connect fwd_headers peer now served head buf filled down w =
     (case lookup (l_memchr P) arch R (w_table w) (rh_host head) (path_of (l_memchr P) (rh_target head)) of
        None \<Rightarrow> (Inl Served_Ok, snd (write_all (error_response 404 ''Not Found'') down), w)
      | Some action \<Rightarrow>
          (case action_select (w_table w) action of
             (None, t') \<Rightarrow> (Inl Panicked, down, w)
           | (Some target, t') \<Rightarrow>
               (let w = w\<lparr>w_table := t'\<rparr>;
                    upstream_addr = address target;
                    head_bytes = write_forward_head P (take filled buf) head
                      (forward_target (l_memchr P) (filters action) (rh_target head)) upstream_addr
                      (if fwd_headers then Some peer else None)
                in case acquire_upstream connect now upstream_addr w of
                     (None, w) \<Rightarrow> (Inl Served_Ok, snd (write_all (error_response 502 ''Bad Gateway'') down), w)
                   | (Some up, w) \<Rightarrow>
                       (case write_all head_bytes up of
                          (Ready u, up) \<Rightarrow>
                            (case relay_request_body P head buf filled down up of
                               (Ready (buf', filled'), down, up) \<Rightarrow>
                                 (let keep_alive = (\<not> rh_close head \<and> served < MAX_REQUESTS_PER_CONNECTION)
                                  in case relay_response P up down (rh_method head) keep_alive of
                                       (Ready outcome, up, down) \<Rightarrow>
                                         (let w = log_end upstream_addr up w;
                                              w = (if upstream_reusable outcome
                                                   then w\<lparr>w_pool := pool_put now upstream_addr up (w_pool w)\<rparr> else w)
                                          in if \<not> keep_alive \<or> \<not> downstream_reusable outcome then (Inl Served_Ok, down, w)
                                             else (Inr (buf', filled'), down, w))
                                     | (Io_Error, up, down) \<Rightarrow> (Inl Served_Err, down, log_end upstream_addr up w)
                                     | (Pending, up, down) \<Rightarrow> (Inl Waiting, down, log_end upstream_addr up w))
                             | (Io_Error, down, up) \<Rightarrow> (Inl Served_Err, down, log_end upstream_addr up w)
                             | (Pending, down, up) \<Rightarrow> (Inl Waiting, down, log_end upstream_addr up w))
                        | (e, up) \<Rightarrow> (Inl Served_Err, down, log_end upstream_addr up w)))))"

section \<open>The connection loop\<close>

lemma serve_exchange_continues:
  assumes "serve_exchange P arch R connect fwd peer now served head buf filled down w = (Inr s, down', w')"
  shows "served < MAX_REQUESTS_PER_CONNECTION"
  using assms by (auto simp: serve_exchange_def Let_def split: option.splits prod.splits io.splits if_splits)

function serve_loop ::
  "http1_lib \<Rightarrow> arch \<Rightarrow> ('r, RouteAction) router_lib \<Rightarrow> (nat \<Rightarrow> 'r RouteTable \<Rightarrow> 'r RouteTable) \<Rightarrow> connector \<Rightarrow> bool \<Rightarrow> bytes \<Rightarrow> (nat \<Rightarrow> nat) \<Rightarrow> nat
     \<Rightarrow> bytes \<Rightarrow> nat \<Rightarrow> conn \<Rightarrow> 'r Worker \<Rightarrow> serve_end \<times> conn \<times> 'r Worker" where
  "serve_loop P arch R active connect fwd_headers peer now served buf filled down w =
     (case request_head P served buf filled down of
        (Got (Request head), buf, filled, down) \<Rightarrow>
          (case serve_exchange P arch R connect fwd_headers peer (now served) (served + 1) head buf filled down
                  (w\<lparr>w_table := active served (w_table w)\<rparr>) of
             (Inl e, down, w) \<Rightarrow> (e, down, w)
           | (Inr (buf', filled'), down, w) \<Rightarrow>
               serve_loop P arch R active connect fwd_headers peer now (served + 1) buf' filled' down w)
      | (Got (Sniffed buffered), buf, filled, down) \<Rightarrow> (Upgraded buffered, down, w)
      | (Got (Reject status reason), buf, filled, down) \<Rightarrow>
          (Served_Ok, snd (write_all (error_response status reason) down), w)
      | (Peer_Closed, buf, filled, down) \<Rightarrow> (Served_Ok, down, w)
      | (Malformed, buf, filled, down) \<Rightarrow> (Served_Ok, down, w)
      | (Head_Error, buf, filled, down) \<Rightarrow> (Served_Err, down, w)
      | (Head_Pending, buf, filled, down) \<Rightarrow> (Waiting, down, w))"
  by pat_completeness auto
termination
  by (relation "measure (\<lambda>(P, arch, R, active, connect, fwd, peer, now, served, buf, filled, down, w).
        MAX_REQUESTS_PER_CONNECTION - served)")
    (auto dest!: serve_exchange_continues [OF sym])

declare serve_loop.simps [simp del]

definition serve_connection ::
  "http1_lib \<Rightarrow> arch \<Rightarrow> ('r, RouteAction) router_lib \<Rightarrow> (nat \<Rightarrow> 'r RouteTable \<Rightarrow> 'r RouteTable) \<Rightarrow> connector \<Rightarrow> bool \<Rightarrow> bytes \<Rightarrow> (nat \<Rightarrow> nat)
     \<Rightarrow> conn \<Rightarrow> 'r Worker \<Rightarrow> serve_end \<times> conn \<times> 'r Worker" where
  "serve_connection P arch R active connect fwd_headers peer now down w =
     serve_loop P arch R active connect fwd_headers peer now 0 [] 0 down w"

text \<open>
  \<open>run_worker\<close>: the accept loop never ends; per event it spawns the serving of a connection, or waits 5 ms
  after a failed \<open>accept\<close>.  The model gives the connections spawned and the milliseconds slept.
\<close>

fun monoio_accept :: "(unit + conn \<times> bytes) list \<Rightarrow> (conn \<times> bytes) list \<times> nat" where
  "monoio_accept [] = ([], 0)"
| "monoio_accept (Inr c # es) = (case monoio_accept es of (spawned, slept) \<Rightarrow> (c # spawned, slept))"
| "monoio_accept (Inl e # es) = (case monoio_accept es of (spawned, slept) \<Rightarrow> (spawned, 5 + slept))"

lemma monoio_accept_spawns:
  "monoio_accept es = (List.map_filter (\<lambda>e. case e of Inr c \<Rightarrow> Some c | Inl _ \<Rightarrow> None) es,
     5 * length (filter (\<lambda>e. case e of Inl _ \<Rightarrow> True | Inr _ \<Rightarrow> False) es))"
  by (induction es rule: monoio_accept.induct) (auto simp: List.map_filter_simps)

section \<open>The request body\<close>

text \<open>How long the body of a request is, when its length is known.\<close>

definition body_size :: "RequestHead \<Rightarrow> nat" where
  "body_size head = (case rh_body head of Fixed n \<Rightarrow> n | _ \<Rightarrow> 0)"

lemma copy_within_take: "a \<le> b \<Longrightarrow> b \<le> length buf \<Longrightarrow> take (b - a) (copy_within buf a b) = drop a (take b buf)"
  by (simp add: copy_within_def drop_take)

lemma copy_within_length: "a \<le> b \<Longrightarrow> b \<le> length buf \<Longrightarrow> length (copy_within buf a b) = length buf"
  by (simp add: copy_within_def)

lemma next_buffer_rest:
  assumes "head_len head + k \<le> filled" "filled \<le> length buf" "leftover = filled - head_len head - k"
    "leftover = 0 \<Longrightarrow> body_prefix_len head (filled - head_len head) = filled - head_len head"
  shows "\<exists>buf'. next_buffer head buf filled leftover = (buf', leftover) \<and> take leftover buf' = drop (head_len head + k) (take filled buf) \<and>
    leftover \<le> length buf'"
proof (cases "leftover = 0")
  case True
  then show ?thesis using assms by (simp add: next_buffer_def Let_def)
next
  case False
  have start: "head_len head + (filled - head_len head - leftover) = head_len head + k" using assms(1,3) by simp
  have l: "leftover = filled - (head_len head + k)" using assms(3) by simp
  show ?thesis
    using False copy_within_take [OF assms(1,2)] copy_within_length [OF assms(1,2)] assms(1,2)
    by (simp add: next_buffer_def Let_def start l)
qed

lemma request_body_relayed:
  assumes "head_len head \<le> filled" "filled \<le> length buf" "rh_body head = Empty \<or> (\<exists>n. rh_body head = Fixed n)"
    "no_empty (rx down)" "wr_ok up = []" "s = take filled buf @ rx_bytes (rx down)" "head_len head + body_size head \<le> length s"
  shows "\<exists>buf' filled' down' d. relay_request_body P head buf filled down up =
      (Ready (buf', filled'), down', sent (take (body_size head) (drop (head_len head) s)) up) \<and>
    filled' \<le> length buf' \<and> consumes down d down' \<and>
    take filled' buf' @ rx_bytes (rx down') = drop (head_len head + body_size head) s"
proof -
  define b where "b = drop (head_len head) (take filled buf)"
  have b: "take (filled - head_len head) (drop (head_len head) buf) = b" by (simp add: b_def drop_take)
  have lb: "length b = filled - head_len head" using assms(2) by (simp add: b_def)
  have s: "drop (head_len head) s = b @ rx_bytes (rx down)" using assms(1,2) by (simp add: b_def assms(6))
  have drop_b: "drop (head_len head + k) (take filled buf) = drop k b" for k by (simp add: b_def add.commute)
  show ?thesis
  proof (cases "rh_body head")
    case Empty
    then have n0: "body_size head = 0" by (simp add: body_size_def)
    have "\<exists>buf'. next_buffer head buf filled (filled - head_len head) = (buf', filled - head_len head) \<and>
        take (filled - head_len head) buf' = drop (head_len head + 0) (take filled buf) \<and> filled - head_len head \<le> length buf'"
      by (rule next_buffer_rest) (use assms(1,2) Empty in \<open>auto simp: body_prefix_len_def\<close>)
    then obtain buf' where "next_buffer head buf filled (filled - head_len head) = (buf', filled - head_len head)"
      "take (filled - head_len head) buf' = b" "filled - head_len head \<le> length buf'"
      by (auto simp: b_def)
    then show ?thesis
      using Empty s consumes_refl [OF assms(4)] by (auto simp: relay_request_body_def Let_def n0)
  next
    case (Fixed n)
    then have n: "body_size head = n" by (simp add: body_size_def)
    show ?thesis
    proof (cases "n \<le> length b")
      case True
      let ?l = "filled - head_len head - n"
      have "\<exists>buf'. next_buffer head buf filled ?l = (buf', ?l) \<and> take ?l buf' = drop (head_len head + n) (take filled buf) \<and> ?l \<le> length buf'"
        by (rule next_buffer_rest) (use assms(1,2) Fixed True lb in \<open>auto simp: body_prefix_len_def\<close>)
      then obtain buf' where nb: "next_buffer head buf filled ?l = (buf', ?l)" "take ?l buf' = drop n b" "?l \<le> length buf'"
        by (auto simp: drop_b)
      have "take (min (filled - head_len head) n) (drop (head_len head) buf) = take n b"
        unfolding b [symmetric] by (simp add: min.commute)
      then have "relay_request_body P head buf filled down up = (Ready (buf', ?l), down, sent (take n b) up)"
        using True lb nb(1) by (simp add: relay_request_body_def Let_def Fixed write_some_sent [OF assms(5)])
      moreover have "drop (head_len head + n) s = drop n b @ rx_bytes (rx down)"
        using True s by (metis add.commute drop_append drop_drop diff_is_0_eq' drop_0)
      ultimately show ?thesis
        using n nb(2,3) s True consumes_refl [OF assms(4)] by auto
    next
      case False
      have "n - length b \<le> length (rx_bytes (rx down))"
        using assms(7) arg_cong [OF s, of length] n by simp
      from relay_exact_enough [OF assms(4) _ this, of "sent b up" buf] assms(5)
      obtain buf1 down1 where r: "relay_exact down (sent b up) buf (n - length b)
          = (Ready buf1, down1, sent (take (n - length b) (rx_bytes (rx down))) (sent b up))"
        and c: "consumes down (take (n - length b) (rx_bytes (rx down))) down1" by auto
      have "min (filled - head_len head) n = filled - head_len head" using False lb by simp
      then have "take (min (filled - head_len head) n) (drop (head_len head) buf) = b" by (simp only: b)
      moreover have "next_buffer head buf1 filled 0 = (buf1, 0)"
        using False lb assms(1) by (simp add: next_buffer_def Let_def body_prefix_len_def Fixed)
      ultimately have "relay_request_body P head buf filled down up
          = (Ready (buf1, 0), down1, sent (b @ take (n - length b) (rx_bytes (rx down))) up)"
        using False lb r by (simp add: relay_request_body_def Let_def Fixed write_some_sent [OF assms(5)])
      moreover have "drop (head_len head + n) s = rx_bytes (rx down1)"
      proof -
        have "drop (head_len head + n) s = drop n (b @ rx_bytes (rx down))" unfolding s [symmetric] by (simp add: add.commute)
        also have "\<dots> = drop (n - length b) (rx_bytes (rx down))" using False by simp
        also have "\<dots> = rx_bytes (rx down1)"
          using consumesD(1) [OF c] by (metis append_eq_conv_conj append_take_drop_id same_append_eq)
        finally show ?thesis .
      qed
      ultimately show ?thesis using n s False c by auto
    qed
  qed (use assms(3) in auto)
qed

section \<open>One exchange, end to end\<close>

text \<open>
  C16: the request body and pipelining.  For every segmentation of the client's stream, a request whose body
  length is known has exactly its body sent upstream, and what the connection goes on with (the
  bytes kept in the buffer followed by those still to be read) is exactly the stream after this
  request: no byte of a pipelined request is lost, repeated or sent upstream.
\<close>

theorem request_body_framing:
  assumes "head_len head \<le> filled" "filled \<le> length buf" "rh_body head = Empty \<or> (\<exists>n. rh_body head = Fixed n)"
    "no_empty (rx down)" "wr_ok up = []" "s = take filled buf @ rx_bytes (rx down)" "head_len head + body_size head \<le> length s"
  shows "\<exists>buf' filled' down'. relay_request_body P head buf filled down up =
      (Ready (buf', filled'), down', sent (take (body_size head) (drop (head_len head) s)) up) \<and>
    filled' \<le> length buf' \<and> take filled' buf' @ rx_bytes (rx down') = drop (head_len head + body_size head) s"
  using request_body_relayed [OF assms] by blast

definition post_head :: RequestHead where
  "post_head = \<lparr>head_len = 2, rh_method = ''POST'', rh_target = ''/'', rh_host = None, rh_body = Fixed 3,
     rh_close = False, rh_target_span = (0, 0)\<rparr>"

theorem request_body_framing_witness:
  "\<exists>buf' filled' down'. relay_request_body mini_http1 post_head ''HHabcG'' 6
       \<lparr>conn_peer = [], rx = [Rx_Data ''ET''], tx = [], wr_ok = []\<rparr> \<lparr>conn_peer = [], rx = [], tx = [], wr_ok = []\<rparr> =
      (Ready (buf', filled'), down', \<lparr>conn_peer = [], rx = [], tx = ''abc'', wr_ok = []\<rparr>) \<and>
    take filled' buf' @ rx_bytes (rx down') = ''GET''"
  using request_body_framing [of post_head 6 "''HHabcG''" "\<lparr>conn_peer = [], rx = [Rx_Data ''ET''], tx = [], wr_ok = []\<rparr>"
      "\<lparr>conn_peer = [], rx = [], tx = [], wr_ok = []\<rparr>" "''HHabcGET''" mini_http1]
  by (auto simp: post_head_def body_size_def no_empty_def sent_def)


definition example_http1 :: http1_lib where
  "example_http1 = four_http1 200 [(''Content-Length'', ''3'')]"

definition example_upstream :: conn where
  "example_upstream = \<lparr>conn_peer = ''u:1'', rx = [Rx_Data ''HEADa'', Rx_Data ''bc''], tx = [], wr_ok = []\<rparr>"

definition example_worker :: "(bytes \<times> RouteAction) list Worker" where
  "example_worker = \<lparr>w_pool = pool_new, w_table = example_table, w_dials = 0, w_log = []\<rparr>"

definition routed_head :: RequestHead where
  "routed_head = post_head\<lparr>rh_method := ''GET'', rh_target := ''/p'', rh_host := Some ''h''\<rparr>"

lemma example_routed:
  "lookup (l_memchr example_http1) Other_Arch list_router (w_table example_worker) (rh_host routed_head)
     (path_of (l_memchr example_http1) (rh_target routed_head)) = Some example_action"
  by code_simp


section \<open>Requests reach their endpoint\<close>

text \<open>Every pooled or logged connection is one to the address it is filed under.\<close>

definition coherent :: "'r Worker \<Rightarrow> bool" where
  "coherent w = (pool.all_hold (\<lambda>a c. conn_peer c = a) (w_pool w) \<and> (\<forall>(a, c)\<in>set (w_log w). conn_peer c = a))"

definition connector_spec :: "connector \<Rightarrow> bool" where
  "connector_spec connect = (\<forall>n a c. connect n a = Some c \<longrightarrow> conn_peer c = a)"

lemma acquire_coherent:
  assumes "coherent w" "connector_spec connect" "acquire_upstream connect now addr w = (r, w')"
  shows "coherent w' \<and> w_log w' = w_log w \<and> (\<forall>c. r = Some c \<longrightarrow> conn_peer c = addr)"
proof -
  obtain x pool' where t: "pool_take now addr (w_pool w) = (x, pool')" by fastforce
  have "pool.all_hold (\<lambda>a c. conn_peer c = a) pool' \<and> (\<forall>c. x = Some c \<longrightarrow> conn_peer c = addr)"
    using pool.all_hold_get [OF _ t, of "\<lambda>a c. conn_peer c = a"] assms(1) by (auto simp: coherent_def)
  then show ?thesis
    using assms t by (cases x) (auto simp: acquire_upstream_def coherent_def connector_spec_def)
qed

lemma log_end_coherent: "coherent w \<Longrightarrow> conn_peer up = addr \<Longrightarrow> coherent (log_end addr up w)"
  by (auto simp: coherent_def log_end_def)

lemma put_coherent: "coherent w \<Longrightarrow> conn_peer up = addr \<Longrightarrow> coherent (w\<lparr>w_pool := pool_put now addr up (w_pool w)\<rparr>)"
  using pool.all_hold_park by (fastforce simp: coherent_def)

lemma relay_request_body_peer:
  assumes "relay_request_body P head buf filled down up = (r, down', up')"
  shows "conn_peer up' = conn_peer up"
proof -
  have w: "conn_peer (snd (write_some d up)) = conn_peer up" for d
    using write_some_peer [of d up] by (metis prod.collapse)
  have "conn_peer (snd (snd (relay_request_body P head buf filled down up))) = conn_peer up"
  proof (cases "rh_body head")
    case (Fixed n)
    then show ?thesis
      by (cases "fst (write_some (take (min (filled - head_len head) n) (drop (head_len head) buf)) up)")
        (simp_all add: relay_request_body_def Let_def case_prod_unfold relay_peers w)
  next
    case Chunked
    then show ?thesis
      by (cases "fst (write_some (take (filled - head_len head) (drop (head_len head) buf)) up)")
        (simp_all add: relay_request_body_def Let_def case_prod_unfold relay_peers w)
  qed (simp_all add: relay_request_body_def Let_def)
  then show ?thesis by (simp add: assms)
qed

text \<open>
  An exchange leaves its log longer by at most one entry and keeps coherence; the shape of its five
  outcomes after the upstream was acquired.
\<close>

lemma exchange_coherent:
  assumes "coherent w" "connector_spec connect"
    "serve_exchange P arch R connect fwd_headers peer now served head buf filled down w = (r, down', w')"
  shows "coherent w' \<and> length (w_log w') \<le> length (w_log w) + 1"
proof (cases "lookup (l_memchr P) arch R (w_table w) (rh_host head) (path_of (l_memchr P) (rh_target head))")
  case None
  then show ?thesis using assms by (auto simp: serve_exchange_def)
next
  case (Some action)
  obtain tgt t' where sel: "action_select (w_table w) action = (tgt, t')" by fastforce
  show ?thesis
  proof (cases tgt)
    case None
    then show ?thesis using assms Some sel by (auto simp: serve_exchange_def)
  next
    case tgt: (Some target)
    let ?addr = "address target"
    have cw: "coherent (w\<lparr>w_table := t'\<rparr>)" using assms(1) by (simp add: coherent_def)
    obtain mup w1 where acq: "acquire_upstream connect now ?addr (w\<lparr>w_table := t'\<rparr>) = (mup, w1)" by fastforce
    note a = acquire_coherent [OF cw assms(2) acq]
    show ?thesis
    proof (cases mup)
      case None
      then show ?thesis using assms(3) Some sel tgt acq a by (auto simp: serve_exchange_def Let_def)
    next
      case mup: (Some up)
      have "\<exists>up'. conn_peer up' = ?addr \<and> (w' = log_end ?addr up' w1 \<or>
          w' = (log_end ?addr up' w1)\<lparr>w_pool := pool_put now ?addr up' (w_pool (log_end ?addr up' w1))\<rparr>)"
        using assms(3) a mup
        by (auto simp: serve_exchange_def Some sel tgt acq Let_def
            dest!: relay_request_body_peer relay_response_peer write_all_frame split: prod.splits io.splits if_splits)
      then obtain up' where p: "conn_peer up' = ?addr" and w': "w' = log_end ?addr up' w1 \<or>
          w' = (log_end ?addr up' w1)\<lparr>w_pool := pool_put now ?addr up' (w_pool (log_end ?addr up' w1))\<rparr>" by blast
      have "coherent (log_end ?addr up' w1)" using log_end_coherent a p by blast
      moreover from put_coherent [OF this p, of now] w' this have "coherent w'" by blast
      moreover have "w_log w' = w_log w @ [(?addr, up')]" using w' a by (auto simp: log_end_def)
      ultimately show ?thesis by simp
    qed
  qed
qed

text \<open>
  The connection loop, once and for all: what holds before the first request, is kept by every exchange (on the
  table its request loads) and is enough at every end without an exchange, holds at the end.
\<close>

lemma serve_loop_rule:
  assumes "serve_loop P arch R active connect fwd_headers peer now served buf filled down w = (r, down', w')" "I served w"
    and ends: "\<And>n w e. I n w \<Longrightarrow> e \<noteq> Panicked \<Longrightarrow> F e w"
    and exchange: "\<And>n head buf filled down w r down' w'. I n w \<Longrightarrow>
      serve_exchange P arch R connect fwd_headers peer (now n) (n + 1) head buf filled down (w\<lparr>w_table := active n (w_table w)\<rparr>)
        = (r, down', w') \<Longrightarrow> (case r of Inl e \<Rightarrow> F e w' | Inr next \<Rightarrow> I (n + 1) w')"
  shows "F r w'"
  using assms(1,2)
proof (induction "MAX_REQUESTS_PER_CONNECTION - served" arbitrary: served buf filled down w rule: less_induct)
  case less
  note simps = serve_loop.simps [of P arch R active connect fwd_headers peer now served buf filled down w]
  obtain hr buf1 filled1 down1 where h: "request_head P served buf filled down = (hr, buf1, filled1, down1)"
    using prod_cases4 by blast
  show ?case
  proof (cases "\<exists>head. hr = Got (Request head)")
    case False
    then have "r \<noteq> Panicked \<and> w' = w"
      using less.prems(1) h by (auto simp: simps split: head_read.splits request_read.splits)
    then show ?thesis using ends [OF less.prems(2)] by simp
  next
    case True
    then obtain head where head: "hr = Got (Request head)" by blast
    obtain er down2 w2 where e: "serve_exchange P arch R connect fwd_headers peer (now served) (served + 1) head buf1 filled1 down1
        (w\<lparr>w_table := active served (w_table w)\<rparr>) = (er, down2, w2)"
      using prod_cases3 by blast
    note step = exchange [OF less.prems(2) e]
    show ?thesis
    proof (cases er)
      case (Inl x)
      then show ?thesis using less.prems(1) h head e step by (simp add: simps)
    next
      case (Inr y)
      obtain buf2 filled2 where y: "y = (buf2, filled2)" by fastforce
      have "served + 1 < MAX_REQUESTS_PER_CONNECTION" using serve_exchange_continues e Inr by blast
      moreover have "serve_loop P arch R active connect fwd_headers peer now (served + 1) buf2 filled2 down2 w2 = (r, down', w')"
        using less.prems(1) h head e Inr y by (simp add: simps)
      ultimately show ?thesis using less.hyps [of "served + 1"] step Inr by simp
    qed
  qed
qed

lemma serve_loop_coherent:
  assumes "serve_loop P arch R active connect fwd_headers peer now 0 buf filled down w = (r, down', w')"
    "coherent w" "connector_spec connect"
  shows "coherent w' \<and> length (w_log w') \<le> length (w_log w) + MAX_REQUESTS_PER_CONNECTION"
proof (rule serve_loop_rule [where I = "\<lambda>n v. coherent v \<and> n < MAX_REQUESTS_PER_CONNECTION \<and> length (w_log v) \<le> length (w_log w) + n", OF assms(1)])
  fix n head buf filled down r down' w'
  fix v :: "'a Worker"
  assume v: "coherent v \<and> n < MAX_REQUESTS_PER_CONNECTION \<and> length (w_log v) \<le> length (w_log w) + n"
    and e: "serve_exchange P arch R connect fwd_headers peer (now n) (n + 1) head buf filled down (v\<lparr>w_table := active n (w_table v)\<rparr>)
      = (r, down', w')"
  have "coherent (v\<lparr>w_table := active n (w_table v)\<rparr>)" using v by (simp add: coherent_def)
  from exchange_coherent [OF this assms(3) e] v serve_exchange_continues e
  show "case r of Inl e \<Rightarrow> coherent w' \<and> length (w_log w') \<le> length (w_log w) + MAX_REQUESTS_PER_CONNECTION
      | Inr next \<Rightarrow> coherent w' \<and> n + 1 < MAX_REQUESTS_PER_CONNECTION \<and> length (w_log w') \<le> length (w_log w) + (n + 1)"
    by (cases r) auto
qed (use assms(2) in \<open>auto simp: MAX_REQUESTS_PER_CONNECTION_def\<close>)

text \<open>
  Where an exchange goes: nowhere, or to the endpoint selected from the table it loaded.  The table it leaves is
  that one, with at most one cursor moved by a selection.
\<close>

lemma exchange_log:
  assumes "serve_exchange P arch R connect fwd_headers peer now served head buf filled down w = (r, down', w')"
    and sel: "\<And>host path a. lookup (l_memchr P) arch R (w_table w) host path = Some a \<Longrightarrow>
      \<exists>e t'. action_select (w_table w) a = (Some e, t') \<and> Q (address e)"
  shows "r \<noteq> Inl Panicked \<and> (w_table w' = w_table w \<or> (\<exists>a. w_table w' = snd (action_select (w_table w) a))) \<and>
    (w_log w' = w_log w \<or> (\<exists>addr up. Q addr \<and> w_log w' = w_log w @ [(addr, up)]))"
proof (cases "lookup (l_memchr P) arch R (w_table w) (rh_host head) (path_of (l_memchr P) (rh_target head))")
  case None
  then show ?thesis using assms(1) by (auto simp: serve_exchange_def)
next
  case (Some action)
  from sel [OF this] obtain e t' where e: "action_select (w_table w) action = (Some e, t')" "Q (address e)" by blast
  obtain mup w1 where acq: "acquire_upstream connect now (address e) (w\<lparr>w_table := t'\<rparr>) = (mup, w1)" by fastforce
  have w1: "w_log w1 = w_log w" "w_table w1 = snd (action_select (w_table w) action)"
    using acq e(1) by (auto simp: acquire_upstream_def split: prod.splits option.splits)
  show ?thesis
  proof (cases mup)
    case None
    then have "r \<noteq> Inl Panicked \<and> w' = w1" using assms(1) Some e acq by (auto simp: serve_exchange_def Let_def)
    then show ?thesis using w1 by blast
  next
    case mup: (Some up)
    have "r \<noteq> Inl Panicked \<and> w_table w' = w_table w1 \<and> (\<exists>up'. w_log w' = w_log w1 @ [(address e, up')])"
      using assms(1) mup
      by (auto simp: serve_exchange_def Some e acq Let_def log_end_def split: prod.splits io.splits if_splits)
    then show ?thesis using e(2) w1 by auto
  qed
qed

text \<open>
  A connection under an environment: if the table is one of a class \<open>K\<close> that selections keep and in which every route
  found has an endpoint, and the environment only ever replaces it by one of this class, no request panics, every
  exchange goes to a selected endpoint, and the table left is of the class again.
\<close>

lemma serve_loop_log:
  fixes w w' :: "'r Worker"
  assumes "serve_loop P arch R active connect fwd_headers peer now served buf filled down w = (r, down', w')" "K (w_table w)"
    and env: "\<And>n t. K t \<Longrightarrow> K (active n t)" and keeps: "\<And>t a. K t \<Longrightarrow> K (snd (action_select t a))"
    and sel: "\<And>t host path a. K t \<Longrightarrow> lookup (l_memchr P) arch R t host path = Some a \<Longrightarrow>
      \<exists>e t'. action_select t a = (Some e, t') \<and> Q (address e)"
  shows "r \<noteq> Panicked \<and> K (w_table w') \<and> (\<exists>made. w_log w' = w_log w @ made \<and> (\<forall>(addr, up)\<in>set made. Q addr))"
proof -
  define G where "G v \<longleftrightarrow> K (w_table v) \<and> (\<exists>made. w_log v = w_log w @ made \<and> (\<forall>(addr, up)\<in>set made. Q addr))" for v :: "'r Worker"
  have "r \<noteq> Panicked \<and> G w'"
  proof (rule serve_loop_rule [where I = "\<lambda>n. G", OF assms(1)])
    show "G w" using assms(2) by (simp add: G_def)
  next
    fix n head buf filled down r down' w'
    fix v :: "'r Worker"
    assume v: "G v"
      and e: "serve_exchange P arch R connect fwd_headers peer (now n) (n + 1) head buf filled down (v\<lparr>w_table := active n (w_table v)\<rparr>)
        = (r, down', w')"
    have K: "K (active n (w_table v))" using v env by (simp add: G_def)
    from exchange_log [OF e, of Q] sel [OF K]
    have x: "r \<noteq> Inl Panicked" "w_table w' = active n (w_table v) \<or> (\<exists>a. w_table w' = snd (action_select (active n (w_table v)) a))"
      "w_log w' = w_log v \<or> (\<exists>addr up. Q addr \<and> w_log w' = w_log v @ [(addr, up)])" by simp_all
    obtain made where made: "w_log v = w_log w @ made" "\<forall>(addr, up)\<in>set made. Q addr" using v by (auto simp: G_def)
    from x(3) made have "\<exists>made. w_log w' = w_log w @ made \<and> (\<forall>(addr, up)\<in>set made. Q addr)"
    proof (elim disjE exE conjE)
      fix addr up
      assume "Q addr" "w_log w' = w_log v @ [(addr, up)]"
      then show ?thesis using made by (intro exI [of _ "made @ [(addr, up)]"]) auto
    qed auto
    moreover have "K (w_table w')" using x(2) K keeps by metis
    ultimately have "G w'" by (simp add: G_def)
    with x(1) show "case r of Inl e \<Rightarrow> e \<noteq> Panicked \<and> G w' | Inr next \<Rightarrow> G w'" by (cases r) simp_all
  qed simp
  then show ?thesis by (simp add: G_def)
qed

text \<open>
  C11: a request is only ever sent over a connection to the endpoint selected for it.  Whatever happens on a
  client connection (pipelining, reuse, errors, a stalled peer, a table replaced between two requests), if every pooled upstream connection
  leads to the address it is filed under before, this holds after, and every exchange went to a
  connection of its own endpoint's address.  At most 100000 requests are forwarded per connection.
\<close>

theorem requests_reach_their_endpoint:
  assumes "coherent w" "connector_spec connect"
    "serve_connection P arch R active connect fwd_headers peer now down w = (r, down', w')"
  shows "pool.all_hold (\<lambda>a c. conn_peer c = a) (w_pool w') \<and> (\<forall>(a, c)\<in>set (w_log w'). conn_peer c = a) \<and>
    length (w_log w') \<le> length (w_log w) + MAX_REQUESTS_PER_CONNECTION"
  using serve_loop_coherent [OF assms(3) [unfolded serve_connection_def] assms(1,2)]
  by (simp add: coherent_def)

theorem requests_reach_their_endpoint_witness:
  "\<exists>r down' w'. serve_connection example_http1 Other_Arch list_router (\<lambda>n t. t)
       (\<lambda>n a. Some \<lparr>conn_peer = a, rx = [], tx = [], wr_ok = []\<rparr>) True ''10.0.0.9'' id
       \<lparr>conn_peer = [], rx = [Rx_Data ''GET /''], tx = [], wr_ok = []\<rparr> example_worker = (r, down', w') \<and>
     length (w_log w') \<le> 100000"
proof -
  let ?connect = "\<lambda>n a. Some \<lparr>conn_peer = a, rx = [], tx = [], wr_ok = []\<rparr>"
  let ?down = "\<lparr>conn_peer = [], rx = [Rx_Data ''GET /''], tx = [], wr_ok = []\<rparr>"
  obtain r down' w' where run: "serve_connection example_http1 Other_Arch list_router (\<lambda>n t. t) ?connect True ''10.0.0.9'' id ?down example_worker
      = (r, down', w')" by (rule prod_cases3)
  have "coherent example_worker"
    by (simp add: coherent_def example_worker_def pool.all_hold_def pool_holds_def)
  moreover have "connector_spec ?connect" by (simp add: connector_spec_def)
  ultimately have "length (w_log w') \<le> length (w_log example_worker) + MAX_REQUESTS_PER_CONNECTION"
    using requests_reach_their_endpoint [OF _ _ run] by blast
  then show ?thesis using run by (simp add: example_worker_def MAX_REQUESTS_PER_CONNECTION_def)
qed

section \<open>Errors and bounds\<close>

lemma head_decision_sniffed: "head_decision P served b = Some (Sniffed x) \<Longrightarrow> x = b \<and> prefix H2_PREFACE b"
  by (auto simp: head_decision_def detect_h2_cases split: if_splits Parsed.splits)

lemma head_decision_reject: "head_decision P served b = Some (Reject st reason) \<Longrightarrow> st = 400 \<or> st = 431"
  by (auto simp: head_decision_def split: if_splits Parsed.splits option.splits bool.splits)

lemma head_decision_undecided: "head_decision P served b = None \<Longrightarrow> length b < MAX_HEAD_SIZE"
proof -
  assume u: "head_decision P served b = None"
  show ?thesis
  proof (cases "served = 0 \<and> detect_h2 b = None")
    case True
    then have "length b \<le> length H2_PREFACE"
      by (auto simp: detect_h2_cases dest: prefix_length_le split: if_splits)
    then show ?thesis by (simp add: H2_PREFACE_def MAX_HEAD_SIZE_def)
  next
    case False
    then show ?thesis
      using u by (auto simp: head_decision_def MAX_HEAD_SIZE_def split: if_splits Parsed.splits option.splits bool.splits)
  qed
qed

lemma request_head_decision:
  "request_head P served buf filled down = (hr, buf', filled', down') \<Longrightarrow> hr = Got x \<Longrightarrow>
     head_decision P served (take filled' buf') = Some x"
proof (induction P served buf filled down rule: request_head.induct)
  case (1 P served buf filled down)
  show ?case
    using "1.prems" "1.IH"
    by (subst (asm) request_head.simps [of P served buf])
      (fastforce simp: Let_def split: if_splits prod.splits io.splits option.splits)
qed

text \<open>
  memory per connection.  While a request head is read, the buffer never exceeds 64 KiB plus the 32 KiB
  read ahead, whatever the client sends, and the bytes in it are exactly those that were there and
  those read since.
\<close>

theorem request_buffer_bounded:
  assumes "request_head P served buf filled down = (hr, buf', filled', down')" "filled \<le> length buf"
    "length buf \<le> MAX_HEAD_SIZE + IO_BUF_SIZE"
  shows "filled' \<le> length buf' \<and> length buf' \<le> MAX_HEAD_SIZE + IO_BUF_SIZE \<and>
    (hr \<noteq> Head_Error \<longrightarrow> take filled buf @ rx_bytes (rx down) = take filled' buf' @ rx_bytes (rx down'))"
  using assms
proof (induction P served buf filled down rule: request_head.induct)
  case (1 P served buf filled down)
  show ?case
  proof (cases "head_decision P served (take filled buf)")
    case (Some x)
    then show ?thesis using "1.prems" by (simp add: request_head.simps [of P served buf])
  next
    case None
    let ?g = "grow_for_read buf filled"
    have small: "filled < MAX_HEAD_SIZE" using head_decision_undecided [OF None] "1.prems"(2) by simp
    have g: "filled < length ?g" "length ?g \<le> MAX_HEAD_SIZE + IO_BUF_SIZE"
      using grow_for_read_length [OF "1.prems"(2)] "1.prems"(3) small by (auto simp: max_def split: if_splits)
    have tk: "take filled ?g = take filled buf" by (rule grow_for_read_take [OF "1.prems"(2)])
    obtain res down1 where r: "conn_read (length ?g - filled) down = (res, down1)" by fastforce
    show ?thesis
    proof (cases "\<exists>d. res = Ready d \<and> d \<noteq> []")
      case False
      then show ?thesis
        using "1.prems"(1) None r g tk
        by (auto simp: request_head.simps [of P served buf] Let_def conn_read_def
            split: io.splits if_splits list.splits rx_event.splits)
    next
      case True
      then obtain d where d: "res = Ready d" "d \<noteq> []" by blast
      have dl: "length d \<le> length ?g - filled" and bytes: "rx_bytes (rx down) = d @ rx_bytes (rx down1)"
        using conn_read_Ready r d by blast+
      let ?b = "buf_put ?g filled d"
      have b: "length ?b = length ?g" "take (filled + length d) ?b = take filled buf @ d"
        using g dl buf_put_length [of filled d ?g] buf_put_take [of filled ?g d] tk by simp_all
      have run: "request_head P served ?b (filled + length d) down1 = (hr, buf', filled', down')"
        using "1.prems"(1) None r d by (simp add: request_head.simps [of P served buf] Let_def)
      show ?thesis
        using "1.IH" [OF None refl r [symmetric] d run] g b dl bytes by simp
    qed
  qed
qed

theorem request_buffer_bounded_witness:
  "\<exists>hr buf' filled' down'. request_head mini_http1 1 [] 0 \<lparr>conn_peer = [], rx = [Rx_Data ''GE'', Rx_Data ''T /'', Rx_Eof], tx = [], wr_ok = []\<rparr>
     = (hr, buf', filled', down') \<and> length buf' \<le> 98304 \<and> (hr \<noteq> Head_Error \<longrightarrow> ''GET /'' = take filled' buf' @ rx_bytes (rx down'))"
proof -
  obtain hr buf' filled' down' where run: "request_head mini_http1 1 [] 0
      \<lparr>conn_peer = [], rx = [Rx_Data ''GE'', Rx_Data ''T /'', Rx_Eof], tx = [], wr_ok = []\<rparr> = (hr, buf', filled', down')"
    using prod_cases4 by blast
  from request_buffer_bounded [OF run] run show ?thesis by (auto simp: MAX_HEAD_SIZE_def IO_BUF_SIZE_def)
qed



end
