(* ===== verification/Bench_Scenario.thy ===== *)
theory Bench_Scenario
  imports Rust_Str F64
begin

text \<open>
  What a benchmark run is made of: the payloads (\<open>load/payloads.rs\<close>), the HTTP versions of the load
  generator (\<open>load/generator.rs\<close>), the candidates (\<open>harness/candidate.rs\<close>), the scenarios
  (\<open>harness/scenario.rs\<close>) and the warm-up timings (\<open>harness/warmup.rs\<close>), all of the bench crate.
  Durations are natural numbers of nanoseconds; \<open>usize\<close> products and the \<open>as u32\<close> cast wrap as in a
  release build.  Strings are their UTF-8 bytes.
\<close>

text \<open>\<open>Duration\<close>, in nanoseconds.\<close>

definition from_millis :: "nat \<Rightarrow> nat" where "from_millis n = n * 1000000"
definition from_secs :: "nat \<Rightarrow> nat" where "from_secs n = n * 1000000000"

section \<open>Payloads\<close>

definition CHUNK :: bytes where
  "CHUNK = ''{'' @ [CHR 0x22] @ ''key'' @ [CHR 0x22] @ '':'' @ [CHR 0x22] @ ''value'' @ [CHR 0x22] @ '','' @ [CHR 0x22] @ ''data'' @ [CHR 0x22]
           @ '':'' @ [CHR 0x22] @ ''benchmark-payload-chunk-0123456789'' @ [CHR 0x22] @ ''}'' @ [CHR 0x0A]"

text \<open>The loop extends the buffer by a chunk, or by what is missing of it, until it has the size.\<close>

function payload_loop :: "nat \<Rightarrow> bytes \<Rightarrow> bytes" where
  "payload_loop size_bytes data =
     (if length data < size_bytes
      then (let remaining = size_bytes - length data
            in payload_loop size_bytes (data @ take (min remaining (length CHUNK)) CHUNK))
      else data)"
  by pat_completeness auto

termination
  by (relation "measure (\<lambda>(n, d). n - length d)") (auto simp: CHUNK_def)

declare payload_loop.simps [simp del]

definition generate_payload :: "nat \<Rightarrow> bytes" where
  "generate_payload size_bytes = payload_loop size_bytes []"

datatype PayloadSize = Small1Kb | Medium64Kb | Large1Mb

fun payload_bytes_of :: "PayloadSize \<Rightarrow> nat" where
  "payload_bytes_of Small1Kb = 1024"
| "payload_bytes_of Medium64Kb = 64 * 1024"
| "payload_bytes_of Large1Mb = 1024 * 1024"

fun payload_label :: "PayloadSize \<Rightarrow> bytes" where
  "payload_label Small1Kb = ''1k''"
| "payload_label Medium64Kb = ''64k''"
| "payload_label Large1Mb = ''1m''"

definition payload_all :: "PayloadSize list" where
  "payload_all = [Small1Kb, Medium64Kb, Large1Mb]"

definition payload_parse :: "bytes \<Rightarrow> PayloadSize option" where
  "payload_parse label =
     (let s = str_lower (str_trim label)
      in if s \<in> set [''1k'', ''1kb'', ''1024''] then Some Small1Kb
         else if s \<in> set [''64k'', ''64kb''] then Some Medium64Kb
         else if s \<in> set [''1m'', ''1mb''] then Some Large1Mb
         else None)"

definition standard_payload :: "PayloadSize \<Rightarrow> bytes" where
  "standard_payload s = generate_payload (payload_bytes_of s)"

section \<open>HTTP versions of the generator\<close>

datatype HttpVersion = Http11 | Http2v

fun version_label :: "HttpVersion \<Rightarrow> bytes" where
  "version_label Http11 = ''HTTP/1.1''"
| "version_label Http2v = ''HTTP/2''"

definition version_parse :: "bytes \<Rightarrow> HttpVersion option" where
  "version_parse t =
     (let s = str_lower (str_trim t)
      in if s \<in> set [''h1'', ''http1'', ''http1.1'', ''1.1''] then Some Http11
         else if s \<in> set [''h2'', ''http2'', ''2''] then Some Http2v
         else None)"

section \<open>Candidates\<close>

datatype Candidate = Hyper | Pingora | Monoio | Traefik

fun binary_name :: "Candidate \<Rightarrow> bytes option" where
  "binary_name Hyper = Some ''lb-proxy-hyper''"
| "binary_name Pingora = Some ''lb-proxy-pingora''"
| "binary_name Monoio = Some ''lb-proxy-monoio''"
| "binary_name Traefik = None"

fun display_name :: "Candidate \<Rightarrow> bytes" where
  "display_name Hyper = ''lb-proxy-hyper''"
| "display_name Pingora = ''lb-proxy-pingora''"
| "display_name Monoio = ''lb-proxy-monoio''"
| "display_name Traefik = ''traefik-v3.7.12''"

fun default_port :: "Candidate \<Rightarrow> nat" where
  "default_port Hyper = 18080"
| "default_port Pingora = 18081"
| "default_port Monoio = 18082"
| "default_port Traefik = 8000"

definition is_go :: "Candidate \<Rightarrow> bool" where
  "is_go c = (c = Traefik)"

definition candidate_all :: "Candidate list" where
  "candidate_all = [Hyper, Pingora, Monoio, Traefik]"

definition rust_candidates :: "Candidate list" where
  "rust_candidates = [Hyper, Pingora, Monoio]"

definition candidate_parse :: "bytes \<Rightarrow> Candidate option" where
  "candidate_parse t =
     (let s = str_lower (str_trim t)
      in if s \<in> set [''hyper'', ''lb-proxy-hyper''] then Some Hyper
         else if s \<in> set [''pingora'', ''lb-proxy-pingora''] then Some Pingora
         else if s \<in> set [''monoio'', ''lb-proxy-monoio''] then Some Monoio
         else if starts_with s ''traefik'' then Some Traefik
         else None)"

section \<open>Scenarios\<close>

datatype ScenarioKind = Throughput | ConnectionDensity | RouteChurn | PgoDelta

fun kind_label :: "ScenarioKind \<Rightarrow> bytes" where
  "kind_label Throughput = ''throughput''"
| "kind_label ConnectionDensity = ''connection-density''"
| "kind_label RouteChurn = ''route-churn''"
| "kind_label PgoDelta = ''pgo-delta''"

definition kind_parse :: "bytes \<Rightarrow> ScenarioKind option" where
  "kind_parse t =
     (let s = str_lower (str_trim t)
      in if s \<in> set [''throughput'', ''1''] then Some Throughput
         else if s \<in> set [''connection-density'', ''density'', ''2''] then Some ConnectionDensity
         else if s \<in> set [''route-churn'', ''churn'', ''3''] then Some RouteChurn
         else if s \<in> set [''pgo-delta'', ''pgo'', ''5''] then Some PgoDelta
         else None)"

record ScenarioConfig =
  sc_name :: bytes
  sc_kind :: ScenarioKind
  sc_concurrencies :: "nat list"
  sc_payloads :: "PayloadSize list"
  sc_http_versions :: "HttpVersion list"
  sc_duration :: nat
  sc_target_rps :: "nat option"
  sc_route_churn_rate_hz :: nat
  sc_idle_connection_ratio :: rat

definition sc_throughput :: ScenarioConfig where
  "sc_throughput =
     \<lparr>sc_name = ''Maximum Throughput & Tail Latency Sweep'', sc_kind = Throughput,
      sc_concurrencies = [100, 1000, 5000, 10000, 25000], sc_payloads = payload_all,
      sc_http_versions = [Http11, Http2v], sc_duration = from_secs 30, sc_target_rps = None,
      sc_route_churn_rate_hz = 0, sc_idle_connection_ratio = 0\<rparr>"

definition sc_connection_density :: ScenarioConfig where
  "sc_connection_density =
     \<lparr>sc_name = ''Connection Density & Memory Footprint (C10K-C50K)'', sc_kind = ConnectionDensity,
      sc_concurrencies = [10000, 25000, 50000], sc_payloads = [Small1Kb],
      sc_http_versions = [Http11], sc_duration = from_secs 60, sc_target_rps = None,
      sc_route_churn_rate_hz = 0, sc_idle_connection_ratio = f64_round (95 / 100)\<rparr>"

definition sc_route_churn :: "nat \<Rightarrow> ScenarioConfig" where
  "sc_route_churn churn_hz =
     \<lparr>sc_name = ''Route Churn & Tail Latency Jitter ('' @ show_nat churn_hz @ '' Hz)'', sc_kind = RouteChurn,
      sc_concurrencies = [1000], sc_payloads = [Small1Kb],
      sc_http_versions = [Http11], sc_duration = from_secs 30, sc_target_rps = Some 20000,
      sc_route_churn_rate_hz = churn_hz, sc_idle_connection_ratio = 0\<rparr>"

definition sc_pgo_delta :: ScenarioConfig where
  "sc_pgo_delta =
     \<lparr>sc_name = ''PGO Impact Delta'', sc_kind = PgoDelta,
      sc_concurrencies = [100, 1000, 5000], sc_payloads = [Small1Kb, Medium64Kb],
      sc_http_versions = [Http11], sc_duration = from_secs 30, sc_target_rps = None,
      sc_route_churn_rate_hz = 0, sc_idle_connection_ratio = 0\<rparr>"

definition sc_quick :: ScenarioConfig where
  "sc_quick =
     \<lparr>sc_name = ''Quick Sweep'', sc_kind = Throughput,
      sc_concurrencies = [50, 200], sc_payloads = [Small1Kb],
      sc_http_versions = [Http11], sc_duration = from_secs 5, sc_target_rps = None,
      sc_route_churn_rate_hz = 0, sc_idle_connection_ratio = 0\<rparr>"

definition measurement_count :: "ScenarioConfig \<Rightarrow> nat" where
  "measurement_count s =
     (length (sc_concurrencies s) * length (sc_payloads s) * length (sc_http_versions s)) mod 2 ^ 64"

definition total_measurement_time :: "ScenarioConfig \<Rightarrow> nat" where
  "total_measurement_time s = sc_duration s * (measurement_count s mod 2 ^ 32)"

section \<open>Warm-up timings\<close>

record WarmupProtocol =
  cold_start :: nat
  traffic :: nat
  gc_settle :: nat

definition warmup_default :: WarmupProtocol where
  "warmup_default = \<lparr>cold_start = from_secs 3, traffic = from_secs 15, gc_settle = from_secs 5\<rparr>"

definition warmup_quick :: WarmupProtocol where
  "warmup_quick = \<lparr>cold_start = from_millis 500, traffic = from_secs 2, gc_settle = from_millis 500\<rparr>"

definition warmup_total :: "WarmupProtocol \<Rightarrow> Candidate \<Rightarrow> nat" where
  "warmup_total p c = (let t = cold_start p + traffic p in if is_go c then t + gc_settle p else t)"

section \<open>Properties\<close>

lemma length_CHUNK: "length CHUNK = 60"
  by (simp add: CHUNK_def)

text \<open>While the buffer is a whole number of chunks the loop completes it to the repeated chunk.\<close>

lemma payload_loop_nth:
  assumes "length data \<le> n" "length data = n \<or> 60 dvd length data"
    and "\<And>i. i < length data \<Longrightarrow> data ! i = CHUNK ! (i mod 60)"
  shows "length (payload_loop n data) = n \<and> (\<forall>i < n. payload_loop n data ! i = CHUNK ! (i mod 60))"
  using assms
proof (induction n data rule: payload_loop.induct)
  case (1 n data)
  show ?case
  proof (cases "length data < n")
    case True
    define m where "m = min (n - length data) (length CHUNK)"
    have dvd: "60 dvd length data" using 1(3) True by simp
    have part: "(data @ take m CHUNK) ! i = CHUNK ! (i mod 60)" if i: "i < length (data @ take m CHUNK)" for i
    proof (cases "i < length data")
      case False
      then obtain j where j: "i = length data + j" using le_Suc_ex by (metis linorder_not_le)
      moreover have "j < m" "j < 60" using i j by (simp_all add: m_def length_CHUNK)
      moreover have "(length data + j) mod 60 = j" using dvd \<open>j < 60\<close> by auto
      ultimately show ?thesis by (simp add: nth_append)
    qed (simp add: nth_append 1(4))
    have "length (data @ take m CHUNK) \<le> n"
      "length (data @ take m CHUNK) = n \<or> 60 dvd length (data @ take m CHUNK)"
      using True dvd by (auto simp: m_def length_CHUNK min_def)
    with 1(1) [OF True refl] part show ?thesis
      by (simp add: payload_loop.simps [of n data] True m_def)
  next
    case False
    then show ?thesis using 1(2,4) by (simp add: payload_loop.simps [of n data])
  qed
qed

text \<open>
  building a payload of any size ends, the result has exactly that many bytes and it is the
  JSON-shaped chunk repeated, cut off at the end; so every shorter payload is a prefix of a longer one.
\<close>

theorem generate_payload_correct:
  "length (generate_payload n) = n \<and>
   generate_payload n = map (\<lambda>i. CHUNK ! (i mod length CHUNK)) [0..<n] \<and>
   prefix (generate_payload n) (generate_payload (n + k)) \<and>
   length (standard_payload s) = payload_bytes_of s"
proof -
  have eq: "length (generate_payload m) = m" "generate_payload m = map (\<lambda>i. CHUNK ! (i mod 60)) [0..<m]" for m
    using payload_loop_nth [of "[]" m] by (auto simp: generate_payload_def intro!: nth_equalityI)
  have "prefix (map f [0..<n]) (map f [0..<n + k])" for f :: "nat \<Rightarrow> byte"
    by (metis map_append prefixI upt_add_eq_append zero_le)
  then show ?thesis
    unfolding standard_payload_def eq(1) length_CHUNK using eq(2) by metis
qed

text \<open>\<open>trim\<close> removes ASCII white space around a text that starts and ends with another ASCII character.\<close>

definition plain_edge :: "byte \<Rightarrow> bool" where
  "plain_edge c = ((32::nat) < of_char c \<and> of_char c < (128::nat))"

definition ascii_space :: "byte \<Rightarrow> bool" where
  "ascii_space c = (c \<in> set [CHR 0x09, CHR 0x0A, CHR 0x0B, CHR 0x0C, CHR 0x0D, CHR 0x20])"

lemma ws_find:
  assumes "ascii_space c"
  shows "find (\<lambda>p. p \<noteq> [] \<and> prefix p (c # s)) unicode_ws = Some [c]"
    and "find (\<lambda>p. p \<noteq> [] \<and> prefix p (c # s)) (map rev unicode_ws) = Some [c]"
proof -
  from assms consider "c = CHR 0x09" | "c = CHR 0x0A" | "c = CHR 0x0B" | "c = CHR 0x0C" | "c = CHR 0x0D" | "c = CHR 0x20"
    unfolding ascii_space_def by auto
  then show "find (\<lambda>p. p \<noteq> [] \<and> prefix p (c # s)) unicode_ws = Some [c]"
    "find (\<lambda>p. p \<noteq> [] \<and> prefix p (c # s)) (map rev unicode_ws) = Some [c]"
    unfolding unicode_ws_def by (cases; simp)+
qed

lemma ws_strip:
  assumes "list_all ascii_space a"
  shows "strip_front unicode_ws (a @ s) = strip_front unicode_ws s"
    and "strip_front (map rev unicode_ws) (a @ s) = strip_front (map rev unicode_ws) s"
  using assms by (induction a) (simp_all add: strip_front.simps [of _ "_ # _"] ws_find)

lemma edge_strip:
  assumes "plain_edge c"
  shows "strip_front unicode_ws (c # s) = c # s"
    and "strip_front (map rev unicode_ws) (c # s) = c # s"
  using assms by (auto intro!: strip_front_none simp: plain_edge_def unicode_ws_def prefix_Cons)

lemma str_trim_spaces:
  assumes "list_all ascii_space a" "list_all ascii_space b" "s \<noteq> []" "plain_edge (hd s)" "plain_edge (last s)"
  shows "str_trim (a @ s @ b) = s"
proof -
  obtain c t where ct: "s = c # t" using assms(3) by (cases s) auto
  obtain u d where ud: "s = u @ [d]" using assms(3) by (cases s rule: rev_cases) auto
  have "strip_front unicode_ws (a @ s @ b) = s @ b"
    using assms(4) by (simp add: ws_strip(1) [OF assms(1)] ct edge_strip)
  moreover have "strip_front (map rev unicode_ws) (rev b @ rev s) = rev s"
    using assms(2,5) by (subst ws_strip(2)) (simp_all add: list_all_rev ud edge_strip)
  ultimately show ?thesis by (simp add: str_trim_def)
qed

text \<open>A spelling of a label: any letter case, with ASCII white space around it.\<close>

definition spelling :: "bytes \<Rightarrow> bytes \<Rightarrow> bool" where
  "spelling label t = (\<exists>a s b. t = a @ s @ b \<and> list_all ascii_space a \<and> list_all ascii_space b \<and> eq_icase s label)"

lemma plain_edge_lower: "plain_edge (ascii_lower c) = plain_edge c"
  by (auto simp: plain_edge_def of_char_ascii_lower ascii_upper_def)

lemma spelling_lower:
  assumes "spelling label t" "label \<noteq> []" "plain_edge (hd label)" "plain_edge (last label)"
  shows "str_lower (str_trim t) = str_lower label"
proof -
  obtain a s b where t: "t = a @ s @ b" "list_all ascii_space a" "list_all ascii_space b" "eq_icase s label"
    using assms(1) by (auto simp: spelling_def)
  have low: "str_lower s = str_lower label" and ne: "s \<noteq> []" using t(4) assms(2) by (auto simp: eq_icase_lower)
  have "plain_edge (hd (str_lower s))" "plain_edge (last (str_lower s))"
    unfolding low using assms(2-4) by (simp_all add: hd_map last_map plain_edge_lower)
  then have "plain_edge (hd s)" "plain_edge (last s)" using ne by (simp_all add: hd_map last_map plain_edge_lower)
  with t ne low show ?thesis by (simp add: str_trim_spaces)
qed

lemma label_edges:
  "plain_edge (hd (payload_label p))" "plain_edge (last (payload_label p))" "payload_label p \<noteq> []"
  "plain_edge (hd (kind_label k))" "plain_edge (last (kind_label k))" "kind_label k \<noteq> []"
  "plain_edge (hd (display_name c))" "plain_edge (last (display_name c))" "display_name c \<noteq> []"
  subgoal by (cases p; hypsubst; code_simp)
  subgoal by (cases p; hypsubst; code_simp)
  subgoal by (cases p; hypsubst; code_simp)
  subgoal by (cases k; hypsubst; code_simp)
  subgoal by (cases k; hypsubst; code_simp)
  subgoal by (cases k; hypsubst; code_simp)
  subgoal by (cases c; hypsubst; code_simp)
  subgoal by (cases c; hypsubst; code_simp)
  subgoal by (cases c; hypsubst; code_simp)
  done

text \<open>
  the labels of the reports read back: every spelling of a payload label, of a scenario label and
  of a candidate's display name, in any letter case and with white space around it, parses to the value it
  names, and the display names and the ports of the candidates are distinct.  The labels of the HTTP
  versions, \<open>HTTP/1.1\<close> and \<open>HTTP/2\<close>, are no accepted spelling of a version.
\<close>

theorem labels_round_trip:
  assumes "spelling (payload_label p) t" "spelling (kind_label k) u" "spelling (display_name c) v"
  shows "payload_parse t = Some p \<and> kind_parse u = Some k \<and> candidate_parse v = Some c \<and>
    distinct (map display_name candidate_all) \<and> distinct (map default_port candidate_all) \<and>
    version_parse (version_label w) = None"
proof -
  note low = spelling_lower [OF assms(1)] spelling_lower [OF assms(2)] spelling_lower [OF assms(3)]
  have "payload_parse t = Some p"
    unfolding payload_parse_def low(1) [OF label_edges(3,1,2)]
    by (cases p; simp add: byte_simps)
  moreover have "kind_parse u = Some k"
    unfolding kind_parse_def low(2) [OF label_edges(6,4,5)]
    by (cases k; simp add: byte_simps)
  moreover have "candidate_parse v = Some c"
    unfolding candidate_parse_def low(3) [OF label_edges(9,7,8)]
    by (cases c; simp add: byte_simps)
  moreover have "version_parse (version_label w) = None"
    by (cases w; hypsubst; code_simp)
  ultimately show ?thesis by (simp add: candidate_all_def)
qed

lemma spellingI: "list_all ascii_space a \<Longrightarrow> list_all ascii_space b \<Longrightarrow> eq_icase s label \<Longrightarrow> spelling label (a @ s @ b)"
  unfolding spelling_def by blast

theorem labels_round_trip_witness:
  "payload_parse ('' '' @ ''64K'' @ '' '') = Some Medium64Kb \<and> kind_parse ([] @ ''PGO-Delta'' @ []) = Some PgoDelta \<and>
   candidate_parse ('' '' @ ''Traefik-v3.7.12'' @ []) = Some Traefik"
proof -
  have "spelling (payload_label Medium64Kb) ('' '' @ ''64K'' @ '' '')" by (rule spellingI; code_simp)
  moreover have "spelling (kind_label PgoDelta) ([] @ ''PGO-Delta'' @ [])" by (rule spellingI; code_simp)
  moreover have "spelling (display_name Traefik) ('' '' @ ''Traefik-v3.7.12'' @ [])" by (rule spellingI; code_simp)
  ultimately show ?thesis using labels_round_trip by blast
qed

end
