(* ===== verification/Latency.thy ===== *)
theory Latency
  imports F64 "HOL-Library.Multiset"
begin

text \<open>
  Latency and throughput recording of the bench crate (\<open>metrics/latency.rs\<close>): the counters shared by the
  workers, the per-worker recorders of the raw and of the corrected histogram, and the summary.  The
  histogram is the crate hdrhistogram, a parameter; what its documentation promises is \<open>hist_spec\<close>: a
  histogram counts values up to its resolution, \<open>record_correct\<close> also records the values
  \<open>v - i, v - 2i, \<dots>\<close> down to the expected interval \<open>i\<close>, and a refresh adds what every recorder of the
  histogram has recorded.  Counters are \<open>u64\<close> and wrap; \<open>f64\<close> values are those of theory \<open>F64\<close>.
\<close>

definition LOWEST_US :: u64 where "LOWEST_US = 1"
definition HIGHEST_US :: u64 where "HIGHEST_US = 60000000"
definition SIGFIGS :: nat where "SIGFIGS = 3"

section \<open>The histogram library\<close>

record 'h Hist =
  h_new :: "u64 \<Rightarrow> u64 \<Rightarrow> nat \<Rightarrow> 'h"
  h_saturating_record :: "u64 \<Rightarrow> 'h \<Rightarrow> 'h"
  h_record_correct :: "u64 \<Rightarrow> u64 \<Rightarrow> 'h \<Rightarrow> bool \<times> 'h"
  h_add :: "'h \<Rightarrow> 'h \<Rightarrow> 'h"
  h_value_at_percentile :: "rat \<Rightarrow> 'h \<Rightarrow> u64"
  h_max :: "'h \<Rightarrow> u64"
  h_mean :: "'h \<Rightarrow> rat"
  h_stdev :: "'h \<Rightarrow> rat"

text \<open>The values \<open>record_correct v i\<close> stands for.\<close>

fun backfill :: "nat \<Rightarrow> nat \<Rightarrow> nat list" where
  "backfill v i = (if i = 0 \<or> v < 2 * i then [v] else v # backfill (v - i) i)"

declare backfill.simps [simp del]

text \<open>
  \<open>samples\<close> reads a histogram as the multiset of values recorded into it and \<open>bucket\<close> is its resolution;
  a recording of a value inside the bounds succeeds.
\<close>

definition hist_spec :: "'h Hist \<Rightarrow> ('h \<Rightarrow> nat multiset) \<Rightarrow> (nat \<Rightarrow> nat) \<Rightarrow> bool" where
  "hist_spec H samples bucket =
     (samples (h_new H LOWEST_US HIGHEST_US SIGFIGS) = {#} \<and>
      (\<forall>v h. unat v \<le> unat HIGHEST_US \<longrightarrow> samples (h_saturating_record H v h) = add_mset (bucket (unat v)) (samples h)) \<and>
      (\<forall>v i h. unat v \<le> unat HIGHEST_US \<longrightarrow> fst (h_record_correct H v i h) \<and>
         samples (snd (h_record_correct H v i h)) = mset (map bucket (backfill (unat v) (unat i))) + samples h) \<and>
      (\<forall>a b. samples (h_add H a b) = samples a + samples b))"

section \<open>Recorders\<close>

record Counters =
  ctr_successful :: u64
  ctr_failed :: u64
  ctr_error_responses :: u64
  ctr_bytes :: u64

record 'h WorkerRecorder =
  wrk_raw :: 'h
  wrk_corrected :: 'h

text \<open>
  The aggregating recorder with the histograms its worker handles record into.  The counters are one
  shared object, so they stand beside the workers.
\<close>

record 'h LatencyRecorder =
  lr_histogram :: 'h
  lr_corrected :: 'h
  lr_workers :: "'h WorkerRecorder list"
  lr_counters :: Counters

definition recorder_new :: "'h Hist \<Rightarrow> 'h LatencyRecorder" where
  "recorder_new H =
     \<lparr>lr_histogram = h_new H LOWEST_US HIGHEST_US SIGFIGS, lr_corrected = h_new H LOWEST_US HIGHEST_US SIGFIGS,
      lr_workers = [], lr_counters = \<lparr>ctr_successful = 0, ctr_failed = 0, ctr_error_responses = 0, ctr_bytes = 0\<rparr>\<rparr>"

definition recorder_worker :: "'h Hist \<Rightarrow> 'h LatencyRecorder \<Rightarrow> nat \<times> 'h LatencyRecorder" where
  "recorder_worker H r =
     (length (lr_workers r),
      r\<lparr>lr_workers := lr_workers r @
          [\<lparr>wrk_raw = h_new H LOWEST_US HIGHEST_US SIGFIGS, wrk_corrected = h_new H LOWEST_US HIGHEST_US SIGFIGS\<rparr>]\<rparr>)"

text \<open>\<open>Ord::clamp\<close>.\<close>

definition u64_clamp :: "u64 \<Rightarrow> u64 \<Rightarrow> u64 \<Rightarrow> u64" where
  "u64_clamp lo hi v = (if v < lo then lo else if hi < v then hi else v)"

text \<open>The part of \<open>record_success\<close> that works on the handle's own recorders.\<close>

definition worker_record :: "'h Hist \<Rightarrow> u64 \<Rightarrow> u64 \<Rightarrow> 'h WorkerRecorder \<Rightarrow> 'h WorkerRecorder" where
  "worker_record H value expected_interval_us w =
     (let w = w\<lparr>wrk_raw := h_saturating_record H value (wrk_raw w)\<rparr>
      in if 0 < expected_interval_us
         then (let (ok, h) = h_record_correct H value expected_interval_us (wrk_corrected w);
                   w = w\<lparr>wrk_corrected := h\<rparr>
               in if \<not> ok then w\<lparr>wrk_corrected := h_saturating_record H value (wrk_corrected w)\<rparr> else w)
         else w\<lparr>wrk_corrected := h_saturating_record H value (wrk_corrected w)\<rparr>)"

definition record_success :: "'h Hist \<Rightarrow> nat \<Rightarrow> u64 \<Rightarrow> u64 \<Rightarrow> u64 \<Rightarrow> 'h LatencyRecorder \<Rightarrow> 'h LatencyRecorder" where
  "record_success H i latency_us bytes expected_interval_us r =
     (let value = u64_clamp LOWEST_US HIGHEST_US latency_us;
          c = lr_counters r;
          c = c\<lparr>ctr_successful := ctr_successful c + 1\<rparr>;
          c = c\<lparr>ctr_bytes := ctr_bytes c + bytes\<rparr>
      in r\<lparr>lr_counters := c,
           lr_workers := (lr_workers r)[i := worker_record H value expected_interval_us (lr_workers r ! i)]\<rparr>)"

definition record_error_response :: "'h Hist \<Rightarrow> nat \<Rightarrow> u64 \<Rightarrow> u64 \<Rightarrow> 'h LatencyRecorder \<Rightarrow> 'h LatencyRecorder" where
  "record_error_response H i latency_us expected_interval_us r =
     (let c = lr_counters r;
          r = r\<lparr>lr_counters := c\<lparr>ctr_error_responses := ctr_error_responses c + 1\<rparr>\<rparr>
      in record_success H i latency_us 0 expected_interval_us r)"

definition record_failure :: "'h LatencyRecorder \<Rightarrow> 'h LatencyRecorder" where
  "record_failure r = (let c = lr_counters r in r\<lparr>lr_counters := c\<lparr>ctr_failed := ctr_failed c + 1\<rparr>\<rparr>)"

definition recorder_completed :: "'h LatencyRecorder \<Rightarrow> u64" where
  "recorder_completed r = ctr_successful (lr_counters r) + ctr_failed (lr_counters r)"

section \<open>Results\<close>

record BenchmarkResult =
  br_candidate_name :: bytes
  br_scenario_name :: bytes
  br_concurrency :: nat
  br_payload_bytes :: nat
  br_http_version :: bytes
  br_total_requests :: u64
  br_successful_requests :: u64
  br_failed_requests :: u64
  br_error_responses :: u64
  br_bytes_received :: u64
  br_duration_secs :: rat
  br_rps :: rat
  br_throughput_mib_s :: rat
  br_latency_p50_us :: u64
  br_latency_p90_us :: u64
  br_latency_p95_us :: u64
  br_latency_p99_us :: u64
  br_latency_p999_us :: u64
  br_latency_p9999_us :: u64
  br_latency_max_us :: u64
  br_latency_mean_us :: rat
  br_latency_stdev_us :: rat
  br_co_corrected_p99_us :: u64
  br_co_corrected_p999_us :: u64
  br_cpu_usage_pct :: rat
  br_rss_memory_mb :: rat

definition is_clean :: "BenchmarkResult \<Rightarrow> bool" where
  "is_clean b = (br_failed_requests b = 0 \<and> br_error_responses b = 0)"

text \<open>
  \<open>refresh\<close>, once the handles have been dropped (which the load generator does before it returns): the
  recordings of every handle are added to the shared histogram.
\<close>

definition refresh :: "'h Hist \<Rightarrow> 'h list \<Rightarrow> 'h \<Rightarrow> 'h" where
  "refresh H parts h = foldl (h_add H) h parts"

definition summarize ::
  "'h Hist \<Rightarrow> bytes \<Rightarrow> bytes \<Rightarrow> nat \<Rightarrow> nat \<Rightarrow> bytes \<Rightarrow> rat \<Rightarrow> rat \<Rightarrow> rat \<Rightarrow> 'h LatencyRecorder \<Rightarrow>
     BenchmarkResult \<times> 'h LatencyRecorder" where
  "summarize H cand scen conc pbytes version duration_secs cpu_usage_pct rss_memory_mb r =
     (let raw = refresh H (map wrk_raw (lr_workers r)) (lr_histogram r);
          corrected = refresh H (map wrk_corrected (lr_workers r)) (lr_corrected r);
          successful = ctr_successful (lr_counters r);
          failed = ctr_failed (lr_counters r);
          error_responses = ctr_error_responses (lr_counters r);
          bytes_received = ctr_bytes (lr_counters r);
          total_requests = successful + failed;
          rps = (if 0 < duration_secs then f64_div (f64_of_nat (unat total_requests)) duration_secs else 0);
          throughput_mib_s =
            (if 0 < duration_secs then f64_div (f64_div (f64_of_nat (unat bytes_received)) duration_secs) (1024 * 1024)
             else 0)
      in (\<lparr>br_candidate_name = cand, br_scenario_name = scen, br_concurrency = conc, br_payload_bytes = pbytes,
          br_http_version = version, br_total_requests = total_requests, br_successful_requests = successful,
          br_failed_requests = failed, br_error_responses = error_responses, br_bytes_received = bytes_received,
          br_duration_secs = duration_secs, br_rps = rps, br_throughput_mib_s = throughput_mib_s,
          br_latency_p50_us = h_value_at_percentile H 50 raw,
          br_latency_p90_us = h_value_at_percentile H 90 raw,
          br_latency_p95_us = h_value_at_percentile H 95 raw,
          br_latency_p99_us = h_value_at_percentile H 99 raw,
          br_latency_p999_us = h_value_at_percentile H (f64_round (999 / 10)) raw,
          br_latency_p9999_us = h_value_at_percentile H (f64_round (9999 / 100)) raw,
          br_latency_max_us = h_max H raw, br_latency_mean_us = h_mean H raw, br_latency_stdev_us = h_stdev H raw,
          br_co_corrected_p99_us = h_value_at_percentile H 99 corrected,
          br_co_corrected_p999_us = h_value_at_percentile H (f64_round (999 / 10)) corrected,
          br_cpu_usage_pct = cpu_usage_pct, br_rss_memory_mb = rss_memory_mb\<rparr>,
          r\<lparr>lr_histogram := raw, lr_corrected := corrected, lr_workers := []\<rparr>))"

section \<open>Runs\<close>

text \<open>
  What the workers of a run do: handles are created and samples recorded through them, in any order and
  by any worker.
\<close>

datatype Sample = Response u64 u64 u64 | Error_Status u64 u64 | Transport_Failure

datatype Event = New_Handle | Recorded nat Sample

fun latency_step :: "'h Hist \<Rightarrow> Event \<Rightarrow> 'h LatencyRecorder \<Rightarrow> 'h LatencyRecorder" where
  "latency_step H New_Handle r = snd (recorder_worker H r)"
| "latency_step H (Recorded i (Response l n e)) r = record_success H i l n e r"
| "latency_step H (Recorded i (Error_Status l e)) r = record_error_response H i l e r"
| "latency_step H (Recorded i Transport_Failure) r = record_failure r"

fun handles_exist :: "nat \<Rightarrow> Event list \<Rightarrow> bool" where
  "handles_exist n [] = True"
| "handles_exist n (New_Handle # es) = handles_exist (Suc n) es"
| "handles_exist n (Recorded i s # es) = (i < n \<and> handles_exist n es)"

fun run_samples :: "Event list \<Rightarrow> Sample list" where
  "run_samples [] = []"
| "run_samples (New_Handle # es) = run_samples es"
| "run_samples (Recorded i s # es) = s # run_samples es"

fun latency_of :: "Sample \<Rightarrow> (nat \<times> nat) option" where
  "latency_of (Response l n e) = Some (unat (u64_clamp LOWEST_US HIGHEST_US l), unat e)"
| "latency_of (Error_Status l e) = Some (unat (u64_clamp LOWEST_US HIGHEST_US l), unat e)"
| "latency_of Transport_Failure = None"

fun bytes_of :: "Sample \<Rightarrow> u64" where
  "bytes_of (Response l n e) = n"
| "bytes_of s = 0"

definition latencies :: "Sample list \<Rightarrow> (nat \<times> nat) list" where
  "latencies ss = List.map_filter latency_of ss"

definition failures :: "Sample list \<Rightarrow> nat" where
  "failures ss = count_list ss Transport_Failure"

fun is_error_status :: "Sample \<Rightarrow> bool" where
  "is_error_status (Error_Status l e) = True"
| "is_error_status s = False"

section \<open>What a run leaves in the recorder\<close>

lemma clamp_bound: "unat (u64_clamp LOWEST_US HIGHEST_US v) \<le> unat HIGHEST_US"
  by (auto simp: u64_clamp_def LOWEST_US_def HIGHEST_US_def word_less_nat_alt)

definition held_raw :: "('h \<Rightarrow> nat multiset) \<Rightarrow> 'h LatencyRecorder \<Rightarrow> nat multiset" where
  "held_raw samples r = samples (lr_histogram r) + sum_list (map (samples \<circ> wrk_raw) (lr_workers r))"

definition held_corrected :: "('h \<Rightarrow> nat multiset) \<Rightarrow> 'h LatencyRecorder \<Rightarrow> nat multiset" where
  "held_corrected samples r = samples (lr_corrected r) + sum_list (map (samples \<circ> wrk_corrected) (lr_workers r))"

lemma sum_list_map_update:
  fixes f :: "'a \<Rightarrow> 'b::cancel_comm_monoid_add"
  assumes "i < length xs" "f y = d + f (xs ! i)"
  shows "sum_list (map f (xs[i := y])) = d + sum_list (map f xs)"
  using assms
proof (induction xs arbitrary: i)
  case (Cons x xs)
  then show ?case by (cases i) (simp_all add: ac_simps)
qed simp

lemma samples_refresh:
  assumes "hist_spec H samples bucket"
  shows "samples (refresh H parts h) = samples h + sum_list (map samples parts)"
proof -
  have "samples (h_add H a b) = samples a + samples b" for a b using assms by (simp add: hist_spec_def)
  then show ?thesis
    unfolding refresh_def by (induction parts arbitrary: h) (simp_all add: ac_simps)
qed

lemma worker_record_samples:
  assumes "hist_spec H samples bucket" "unat v \<le> unat HIGHEST_US"
  shows "samples (wrk_raw (worker_record H v e w)) = {#bucket (unat v)#} + samples (wrk_raw w)"
    and "samples (wrk_corrected (worker_record H v e w)) = mset (map bucket (backfill (unat v) (unat e))) + samples (wrk_corrected w)"
proof -
  have rec: "samples (h_saturating_record H v h) = add_mset (bucket (unat v)) (samples h)"
    and cor: "fst (h_record_correct H v e h)"
      "samples (snd (h_record_correct H v e h)) = mset (map bucket (backfill (unat v) (unat e))) + samples h" for h
    using assms by (simp_all add: hist_spec_def)
  show "samples (wrk_raw (worker_record H v e w)) = {#bucket (unat v)#} + samples (wrk_raw w)"
    by (simp add: worker_record_def Let_def case_prod_beta rec)
  show "samples (wrk_corrected (worker_record H v e w)) = mset (map bucket (backfill (unat v) (unat e))) + samples (wrk_corrected w)"
    using cor by (auto simp: worker_record_def Let_def case_prod_beta rec backfill.simps [of _ 0] word_gt_0)
qed

text \<open>The state a run reaches, in terms of its samples.\<close>

definition recorded :: "('h \<Rightarrow> nat multiset) \<Rightarrow> (nat \<Rightarrow> nat) \<Rightarrow> Sample list \<Rightarrow> 'h LatencyRecorder \<Rightarrow> 'h LatencyRecorder \<Rightarrow> bool" where
  "recorded samples bucket ss r r' =
     (held_raw samples r' = mset (map (bucket \<circ> fst) (latencies ss)) + held_raw samples r \<and>
      held_corrected samples r' = mset (concat (map (\<lambda>(v, e). map bucket (backfill v e)) (latencies ss))) + held_corrected samples r \<and>
      ctr_successful (lr_counters r') = of_nat (length (latencies ss)) + ctr_successful (lr_counters r) \<and>
      ctr_failed (lr_counters r') = of_nat (failures ss) + ctr_failed (lr_counters r) \<and>
      ctr_error_responses (lr_counters r') = of_nat (length (filter is_error_status ss)) + ctr_error_responses (lr_counters r) \<and>
      ctr_bytes (lr_counters r') = sum_list (map bytes_of ss) + ctr_bytes (lr_counters r))"

lemmas recorded_eval =
  recorded_def latencies_def failures_def map_filter_simps held_raw_def held_corrected_def

lemma record_success_recorded:
  assumes "hist_spec H samples bucket" "i < length (lr_workers r)"
  shows "recorded samples bucket [Response l n e] r (record_success H i l n e r)"
proof -
  let ?v = "u64_clamp LOWEST_US HIGHEST_US l"
  let ?ws = "(lr_workers r)[i := worker_record H ?v e (lr_workers r ! i)]"
  have "sum_list (map (samples \<circ> wrk_raw) ?ws) = {#bucket (unat ?v)#} + sum_list (map (samples \<circ> wrk_raw) (lr_workers r))"
    by (rule sum_list_map_update [OF assms(2)]) (simp add: worker_record_samples(1) [OF assms(1) clamp_bound])
  moreover have "sum_list (map (samples \<circ> wrk_corrected) ?ws) =
      mset (map bucket (backfill (unat ?v) (unat e))) + sum_list (map (samples \<circ> wrk_corrected) (lr_workers r))"
    by (rule sum_list_map_update [OF assms(2)]) (simp add: worker_record_samples(2) [OF assms(1) clamp_bound])
  ultimately show ?thesis
    by (simp add: recorded_eval record_success_def Let_def ac_simps)
qed

lemma latency_step_recorded:
  assumes "hist_spec H samples bucket" "handles_exist (length (lr_workers r)) (e # es)"
  shows "recorded samples bucket (run_samples [e]) r (latency_step H e r) \<and> handles_exist (length (lr_workers (latency_step H e r))) es"
proof (cases e)
  case New_Handle
  then show ?thesis using assms by (simp add: recorded_eval recorder_worker_def hist_spec_def)
next
  case (Recorded i s)
  then have i: "i < length (lr_workers r)" using assms(2) by simp
  show ?thesis
  proof (cases s)
    case (Response l n d)
    with Recorded show ?thesis
      using record_success_recorded [OF assms(1) i] assms(2) by (simp add: record_success_def Let_def)
  next
    case (Error_Status l d)
    with Recorded show ?thesis
      using record_success_recorded [OF assms(1), of i "r\<lparr>lr_counters := (lr_counters r)\<lparr>ctr_error_responses := ctr_error_responses (lr_counters r) + 1\<rparr>\<rparr>" l 0 d]
        i assms(2)
      by (simp add: record_error_response_def recorded_eval) (simp add: record_success_def Let_def)
  next
    case Transport_Failure
    with Recorded show ?thesis
      using assms(2) by (simp add: record_failure_def recorded_eval Let_def)
  qed
qed


lemma recorded_trans:
  assumes "recorded samples bucket ss r r'" "recorded samples bucket ts r' r''"
  shows "recorded samples bucket (ss @ ts) r r''"
  using assms by (simp add: recorded_def latencies_def failures_def map_filter_def ac_simps)

lemma run_samples_append [simp]: "run_samples (es @ fs) = run_samples es @ run_samples fs"
  by (induction es rule: run_samples.induct) auto

lemma latency_run_recorded:
  assumes "hist_spec H samples bucket" "handles_exist (length (lr_workers r)) es"
  shows "recorded samples bucket (run_samples es) r (fold (latency_step H) es r)"
  using assms(2)
proof (induction es arbitrary: r)
  case Nil
  then show ?case by (simp add: recorded_eval)
next
  case (Cons e es)
  note step = latency_step_recorded [OF assms(1) Cons.prems]
  have "run_samples (e # es) = run_samples [e] @ run_samples es" by (cases e) simp_all
  then show ?case using recorded_trans [OF conjunct1 [OF step] Cons.IH] step by simp
qed

lemma latencies_failures: "length (latencies ss) + failures ss = length ss"
proof (induction ss)
  case (Cons s ss)
  then show ?case by (cases s) (simp_all add: latencies_def failures_def map_filter_simps)
qed (simp add: latencies_def failures_def)

lemma of_nat_zero_small: "n < 2 ^ 64 \<Longrightarrow> (of_nat n :: u64) = 0 \<longleftrightarrow> n = 0"
proof -
  assume "n < 2 ^ 64"
  then have eq: "unat (of_nat n :: u64) = n" by (rule unat_of_nat_small)
  show "(of_nat n :: u64) = 0 \<longleftrightarrow> n = 0"
  proof (rule iffI)
    assume "n = 0"
    then show "(of_nat n :: u64) = 0" by simp
  next
    assume "(of_nat n :: u64) = 0"
    then have "unat (of_nat n :: u64) = unat (0 :: u64)" by (simp only:)
    then show "n = 0" unfolding eq unat_0 .
  qed
qed

text \<open>
  Accounting of a load run.  Whatever number of workers record whatever samples in whatever order,
  the summary counts every sample once: responses, whatever their status, as successful requests,
  transport failures as failed ones, with the error statuses and the body bytes beside them; the raw
  histogram holds exactly the latencies of the responses, clamped to \<open>1 \<mu>s .. 60 s\<close>, and no failure; the
  corrected one holds in addition the samples the blocked client could not send.  A run of fewer than
  \<open>2^64\<close> samples is clean exactly when every request got a response with a good status.
  Summarising again changes nothing.
\<close>

theorem latency_accounting:
  assumes "hist_spec H samples bucket" "handles_exist 0 es"
    and "summarize H cand scen conc pb ver dur cpu rss (fold (latency_step H) es (recorder_new H)) = (b, r)"
    and "run_samples es = ss" "length ss < 2 ^ 64"
  shows "unat (br_total_requests b) = length ss \<and>
    unat (br_successful_requests b) = length (latencies ss) \<and>
    unat (br_failed_requests b) = failures ss \<and>
    unat (br_error_responses b) = length (filter is_error_status ss) \<and>
    br_bytes_received b = sum_list (map bytes_of ss) \<and>
    samples (lr_histogram r) = mset (map (bucket \<circ> fst) (latencies ss)) \<and>
    samples (lr_corrected r) = mset (concat (map (\<lambda>(v, e). map bucket (backfill v e)) (latencies ss))) \<and>
    (is_clean b \<longleftrightarrow> list_all (\<lambda>s. \<exists>l n e. s = Response l n e) ss) \<and>
    recorder_completed r = br_total_requests b \<and>
    summarize H cand scen conc pb ver dur cpu rss r = (b, r)"
proof -
  define q where "q = fold (latency_step H) es (recorder_new H)"
  have rec: "recorded samples bucket ss (recorder_new H) q"
    using latency_run_recorded [OF assms(1), of "recorder_new H" es] assms(2,4) by (simp add: q_def recorder_new_def)
  have new: "held_raw samples (recorder_new H) = {#}" "held_corrected samples (recorder_new H) = {#}"
    using assms(1) by (simp_all add: held_raw_def held_corrected_def recorder_new_def hist_spec_def)
  have le: "length (latencies ss) \<le> length ss" "failures ss \<le> length ss" "length (filter is_error_status ss) \<le> length ss"
    using latencies_failures [of ss] by simp_all
  have bounds: "length (latencies ss) < 2 ^ 64" "failures ss < 2 ^ 64" "length (filter is_error_status ss) < 2 ^ 64"
    using assms(5) le by (metis le_less_trans)+
  have ctr: "ctr_successful (lr_counters q) = of_nat (length (latencies ss))" "ctr_failed (lr_counters q) = of_nat (failures ss)"
    "ctr_error_responses (lr_counters q) = of_nat (length (filter is_error_status ss))"
    "ctr_bytes (lr_counters q) = sum_list (map bytes_of ss)"
    using rec by (simp_all add: recorded_def recorder_new_def)
  have sum: "ctr_successful (lr_counters q) + ctr_failed (lr_counters q) = of_nat (length ss)"
    unfolding ctr by (metis latencies_failures of_nat_add)
  have held: "held_raw samples q = mset (map (bucket \<circ> fst) (latencies ss))"
    "held_corrected samples q = mset (concat (map (\<lambda>(v, e). map bucket (backfill v e)) (latencies ss)))"
    using rec new unfolding recorded_def by simp_all
  have b: "br_total_requests b = of_nat (length ss)" "br_successful_requests b = ctr_successful (lr_counters q)"
    "br_failed_requests b = ctr_failed (lr_counters q)" "br_error_responses b = ctr_error_responses (lr_counters q)"
    "br_bytes_received b = ctr_bytes (lr_counters q)" and r: "lr_counters r = lr_counters q"
    using assms(3) unfolding q_def [symmetric] by (auto simp: summarize_def Let_def sum)
  have hist: "samples (lr_histogram r) = held_raw samples q" "samples (lr_corrected r) = held_corrected samples q"
    using assms(3) unfolding q_def [symmetric]
    by (auto simp: summarize_def Let_def samples_refresh [OF assms(1)] held_raw_def held_corrected_def)
  have again: "summarize H cand scen conc pb ver dur cpu rss r = (b, r)"
    using assms(3) unfolding q_def [symmetric] by (auto simp: summarize_def Let_def refresh_def)
  have clean: "is_clean b \<longleftrightarrow> failures ss = 0 \<and> filter is_error_status ss = []"
    using bounds by (simp add: is_clean_def b ctr of_nat_zero_small)
  have "\<dots> \<longleftrightarrow> list_all (\<lambda>s. \<exists>l n e. s = Response l n e) ss"
  proof -
    have "s \<noteq> Transport_Failure \<and> \<not> is_error_status s \<longleftrightarrow> (\<exists>l n e. s = Response l n e)" for s
      by (cases s) auto
    then show ?thesis
      unfolding failures_def count_list_0_iff filter_empty_conv list_all_iff by metis
  qed
  with clean show ?thesis
    using b ctr bounds assms(5) held hist again r sum
    by (simp add: recorder_completed_def unat_of_nat_small)
qed


section \<open>An example run\<close>

definition list_hist :: "nat list Hist" where
  "list_hist =
     \<lparr>h_new = (\<lambda>lo hi s. []), h_saturating_record = (\<lambda>v h. unat v # h),
      h_record_correct = (\<lambda>v i h. (True, backfill (unat v) (unat i) @ h)), h_add = (@),
      h_value_at_percentile = (\<lambda>p h. of_nat (fold max h 0)), h_max = (\<lambda>h. of_nat (fold max h 0)),
      h_mean = (\<lambda>h. of_nat (sum_list h) / of_nat (length h)), h_stdev = (\<lambda>h. 0)\<rparr>"

lemma list_hist_spec: "hist_spec list_hist mset id"
  by (simp add: hist_spec_def list_hist_def)

definition example_run :: "Event list" where
  "example_run = [New_Handle, New_Handle, Recorded 1 (Response 250 1024 100), Recorded 0 (Error_Status 40 100),
     Recorded 1 Transport_Failure]"

definition example_summary :: "BenchmarkResult \<times> nat list LatencyRecorder" where
  "example_summary = summarize list_hist ''c'' ''s'' 2 1024 ''HTTP/1.1'' 1 0 0 (fold (latency_step list_hist) example_run (recorder_new list_hist))"

theorem latency_accounting_witness:
  "unat (br_total_requests (fst example_summary)) = 3 \<and> unat (br_successful_requests (fst example_summary)) = 2 \<and>
   unat (br_failed_requests (fst example_summary)) = 1 \<and> unat (br_error_responses (fst example_summary)) = 1 \<and>
   mset (lr_histogram (snd example_summary)) = {#250, 40#} \<and> mset (lr_corrected (snd example_summary)) = {#250, 150, 40#} \<and>
   \<not> is_clean (fst example_summary)"
proof -
  have ss: "run_samples example_run = [Response 250 1024 100, Error_Status 40 100, Transport_Failure]"
    by (simp add: example_run_def)
  have lat: "latencies [Response 250 1024 100, Error_Status 40 100, Transport_Failure] = [(250, 100), (40, 100)]"
    by (simp add: latencies_def map_filter_simps u64_clamp_def LOWEST_US_def HIGHEST_US_def)
  have fill: "backfill 250 100 = [250, 150]" "backfill 40 100 = [40]" by (simp_all add: backfill.simps)
  have small: "length [Response 250 1024 100, Error_Status 40 100, Transport_Failure] < 2 ^ 64" by simp
  have handles: "handles_exist 0 example_run" by (simp add: example_run_def)
  have summary: "summarize list_hist ''c'' ''s'' 2 1024 ''HTTP/1.1'' 1 0 0 (fold (latency_step list_hist) example_run (recorder_new list_hist))
      = (fst example_summary, snd example_summary)"
    unfolding example_summary_def by (rule prod.collapse [symmetric])
  note acc = latency_accounting [OF list_hist_spec handles summary ss small, unfolded lat]
  show ?thesis
    using acc by (elim conjE) (simp add: fill failures_def del: One_nat_def)
qed

end
