(* ===== verification/Mock_Upstream.thy ===== *)
theory Mock_Upstream
  imports Bench_Scenario
begin

text \<open>
  The mock backend of the benchmark (\<open>mock/upstream.rs\<close> of the bench crate): the body cache, the request
  handler and the accept loop with its shutdown channel.  The HTTP codec is Hyper's; a request is given by
  its method, path, query and body (\<open>None\<close> when reading the body fails), a response by status, header
  lines and body.  The sockets and the spawned connections are not part of the model.
\<close>

definition MAX_BODY_SIZE :: nat where
  "MAX_BODY_SIZE = 8 * 1024 * 1024"

record MockUpstreamConfig =
  mock_listen_addr :: bytes
  response_body :: bytes
  delay_ms :: nat

definition mock_default_body :: bytes where
  "mock_default_body = ''{'' @ [CHR 0x22] @ ''status'' @ [CHR 0x22] @ '':'' @ [CHR 0x22] @ ''ok'' @ [CHR 0x22] @ '','' @ [CHR 0x22] @ ''service''
     @ [CHR 0x22] @ '':'' @ [CHR 0x22] @ ''mock-backend'' @ [CHR 0x22] @ ''}'' @ [CHR 0x0A]"

definition mock_config_default :: MockUpstreamConfig where
  "mock_config_default = \<lparr>mock_listen_addr = ''127.0.0.1:9090'', response_body = mock_default_body, delay_ms = 0\<rparr>"

section \<open>Bodies\<close>

type_synonym BodyCache = "nat \<rightharpoonup> bytes"

definition body_cache_get :: "nat \<Rightarrow> BodyCache \<Rightarrow> bytes \<times> BodyCache" where
  "body_cache_get sz bodies =
     (case bodies sz of
        Some body \<Rightarrow> (body, bodies)
      | None \<Rightarrow> (let body = generate_payload sz in (body, bodies(sz \<mapsto> body))))"

text \<open>\<open>str::split_once\<close> with a one-byte pattern.\<close>

definition split_once :: "byte \<Rightarrow> bytes \<Rightarrow> (bytes \<times> bytes) option" where
  "split_once c s =
     (let a = takeWhile (\<lambda>x. x \<noteq> c) s
      in if length a < length s then Some (a, drop (length a + 1) s) else None)"

fun find_map :: "('a \<Rightarrow> 'b option) \<Rightarrow> 'a list \<Rightarrow> 'b option" where
  "find_map f [] = None"
| "find_map f (x # xs) = (case f x of Some y \<Rightarrow> Some y | None \<Rightarrow> find_map f xs)"

definition parse_size_param :: "bytes \<Rightarrow> nat option" where
  "parse_size_param query =
     find_map (\<lambda>pair. case split_once (CHR ''='') pair of
                        None \<Rightarrow> None
                      | Some (key, value) \<Rightarrow> if key = ''size'' then parse_uint 64 value else None)
       (split_on (CHR ''&'') query)"

section \<open>The request handler\<close>

record MockRequest =
  mq_method :: bytes
  mq_path :: bytes
  mq_query :: "bytes option"
  mq_body :: "bytes option"

record MockResponse =
  ms_status :: nat
  ms_headers :: "(bytes \<times> bytes) list"
  ms_body :: bytes

text \<open>The result is the delay slept, the response (\<open>None\<close> when reading the request body fails) and the cache.\<close>

definition mock_handle :: "MockRequest \<Rightarrow> bytes \<Rightarrow> BodyCache \<Rightarrow> nat \<Rightarrow> nat \<times> MockResponse option \<times> BodyCache" where
  "mock_handle req default_body cache delay =
     (let slept = (if 0 < delay then delay else 0)
      in if mq_path req = ''/healthz''
         then (slept, Some \<lparr>ms_status = 200, ms_headers = [(''content-length'', show_nat 2)], ms_body = ''ok''\<rparr>, cache)
         else
           let is_head = (mq_method req = ''HEAD'');
               requested_size = (case mq_query req of None \<Rightarrow> None | Some q \<Rightarrow> parse_size_param q)
           in case mq_body req of
                None \<Rightarrow> (slept, None, cache)
              | Some received \<Rightarrow>
                  let (payload, cache) =
                        (case requested_size of
                           Some sz \<Rightarrow> body_cache_get (min sz MAX_BODY_SIZE) cache
                         | None \<Rightarrow> if starts_with (mq_path req) ''/echo'' \<and> received \<noteq> [] then (received, cache)
                                   else (default_body, cache));
                      len = length payload;
                      body = (if is_head then [] else payload)
                  in (slept,
                      Some \<lparr>ms_status = 200,
                            ms_headers = [(''content-type'', ''application/json''), (''content-length'', show_nat len),
                                          (''x-mock-upstream'', ''true'')],
                            ms_body = body\<rparr>,
                      cache))"

section \<open>The accept loop\<close>

text \<open>
  The receiving end of the shutdown channel: its value, whether it changed since it was last looked at, and
  whether the sender is gone.  \<open>changed()\<close> resolves when the value changed or, with an error the loop
  ignores, when the sender is gone.
\<close>

record Watch =
  watch_value :: bool
  watch_unseen :: bool
  watch_closed :: bool

definition watch_channel :: Watch where
  "watch_channel = \<lparr>watch_value = False, watch_unseen = False, watch_closed = False\<rparr>"

definition watch_send :: "Watch \<Rightarrow> Watch" where
  "watch_send w = w\<lparr>watch_value := True, watch_unseen := True\<rparr>"

definition watch_drop :: "Watch \<Rightarrow> Watch" where
  "watch_drop w = w\<lparr>watch_closed := True\<rparr>"

definition changed_ready :: "Watch \<Rightarrow> bool" where
  "changed_ready w = (watch_unseen w \<or> watch_closed w)"

datatype MockEvent = Mock_Accept bool | Mock_Changed

text \<open>One round of the loop: \<open>None\<close> when \<open>run\<close> returns, otherwise whether a connection was spawned.\<close>

definition mock_round :: "MockEvent \<Rightarrow> Watch \<Rightarrow> (bool \<times> Watch) option" where
  "mock_round ev w =
     (case ev of
        Mock_Accept ok \<Rightarrow> Some (ok, w)
      | Mock_Changed \<Rightarrow>
          let w = w\<lparr>watch_unseen := False\<rparr>
          in if watch_value w then None else Some (False, w))"

text \<open>The loop on a sequence of events, each of which must be ready: the number of connections served, and
  the channel unless the loop has returned.\<close>

fun mock_loop :: "MockEvent list \<Rightarrow> Watch \<Rightarrow> nat \<times> Watch option" where
  "mock_loop [] w = (0, Some w)"
| "mock_loop (ev # evs) w =
     (case mock_round ev w of
        None \<Rightarrow> (0, None)
      | Some (spawned, w) \<Rightarrow> (let (n, r) = mock_loop evs w in (if spawned then Suc n else n, r)))"

section \<open>Properties\<close>

lemma split_once_absent: "c \<notin> set k \<Longrightarrow> split_once c (k @ c # v) = Some (k, v)"
  by (simp add: split_once_def takeWhile_append)

text \<open>The size parameter the load generator sends reads back.\<close>

lemma parse_size_only:
  assumes "n < 2 ^ 64"
  shows "parse_size_param (''size='' @ show_nat n) = Some n"
proof -
  have dig: "list_all is_digit (show_nat n)" using show_nat_digits by blast
  have amp: "\<not> is_digit (CHR ''&'')" by (simp add: is_digit_def)
  have "CHR ''&'' \<notin> set (show_nat n)" using dig amp by (auto simp: list_all_iff)
  then have "CHR ''&'' \<notin> set (''size='' @ show_nat n)" by simp
  then have "split_on (CHR ''&'') (''size='' @ show_nat n) = [''size='' @ show_nat n]" by (rule split_on_absent)
  moreover have "split_once (CHR ''='') (''size='' @ show_nat n) = Some (''size'', show_nat n)"
    using split_once_absent [of "CHR ''=''" "''size''" "show_nat n"] by simp
  ultimately show ?thesis
    by (simp only: parse_size_param_def find_map.simps prod.case option.case parse_show_nat [OF assms] if_True simp_thms)
qed

definition cache_ok :: "BodyCache \<Rightarrow> bool" where
  "cache_ok bodies = (\<forall>n b. bodies n = Some b \<longrightarrow> n \<le> MAX_BODY_SIZE \<and> b = generate_payload n)"

lemma body_cache_get_ok:
  assumes "cache_ok bodies" "n \<le> MAX_BODY_SIZE"
  shows "fst (body_cache_get n bodies) = generate_payload n" "cache_ok (snd (body_cache_get n bodies))"
  using assms by (auto simp: body_cache_get_def cache_ok_def Let_def split: option.splits)


lemma payload_bytes_bounds: "payload_bytes_of p \<le> MAX_BODY_SIZE" "payload_bytes_of p < 2 ^ 64"
  by (cases p; simp add: MAX_BODY_SIZE_def)+

text \<open>
  the mock backend answers every request with the payload its query asks for.  Whatever has been
  served before, a request with \<open>size=n\<close> gets the generated payload of \<open>n\<close> bytes, of at most 8 MiB, so the
  sweep over the payload sizes gets the standard payloads; an echo request gets its own body back, and
  every other one the default body.  The Content-Length is the length of that payload also for a HEAD
  request, whose body is empty, and the cache only ever holds generated payloads of at most 8 MiB.
\<close>

theorem mock_handle_correct:
  assumes "cache_ok cache" "mq_path req \<noteq> ''/healthz''" "mq_body req = Some received"
    and "mock_handle req default_body cache delay = (slept, answer, cache')"
  shows "slept = delay \<and> cache_ok cache' \<and>
    (\<exists>rsp payload. answer = Some rsp \<and> ms_status rsp = 200 \<and>
       ms_body rsp = (if mq_method req = ''HEAD'' then [] else payload) \<and>
       map_of (ms_headers rsp) ''content-length'' = Some (show_nat (length payload)) \<and>
       (\<forall>n. Option.bind (mq_query req) parse_size_param = Some n \<longrightarrow> payload = generate_payload (min n MAX_BODY_SIZE)) \<and>
       (\<forall>p. mq_query req = Some (''size='' @ show_nat (payload_bytes_of p)) \<longrightarrow> payload = standard_payload p) \<and>
       (Option.bind (mq_query req) parse_size_param = None \<longrightarrow>
          payload = (if starts_with (mq_path req) ''/echo'' \<and> received \<noteq> [] then received else default_body)))"
proof -
  define sizing where "sizing = Option.bind (mq_query req) parse_size_param"
  define pc where "pc = (case sizing of
      Some sz \<Rightarrow> body_cache_get (min sz MAX_BODY_SIZE) cache
    | None \<Rightarrow> if starts_with (mq_path req) ''/echo'' \<and> received \<noteq> [] then (received, cache) else (default_body, cache))"
  have sz: "(case mq_query req of None \<Rightarrow> None | Some q \<Rightarrow> parse_size_param q) = sizing"
    by (simp add: sizing_def split: option.split)
  have get: "fst (body_cache_get (min n MAX_BODY_SIZE) cache) = generate_payload (min n MAX_BODY_SIZE)"
    "cache_ok (snd (body_cache_get (min n MAX_BODY_SIZE) cache))" for n
    using body_cache_get_ok [OF assms(1)] by simp_all
  have ok: "cache_ok (snd pc)" using assms(1) get by (simp add: pc_def split: option.split)
  have std: "fst pc = standard_payload p" if "mq_query req = Some (''size='' @ show_nat (payload_bytes_of p))" for p
    using get(1) [of "payload_bytes_of p"]
    unfolding pc_def sizing_def that bind.bind_lunit parse_size_only [OF payload_bytes_bounds(2)] standard_payload_def
    by (simp add: payload_bytes_bounds(1) min_absorb1)
  have res: "mock_handle req default_body cache delay =
      (delay, Some \<lparr>ms_status = 200, ms_headers = [(''content-type'', ''application/json''), (''content-length'', show_nat (length (fst pc))),
         (''x-mock-upstream'', ''true'')], ms_body = if mq_method req = ''HEAD'' then [] else fst pc\<rparr>, snd pc)"
    using assms(2) unfolding mock_handle_def sz assms(3)
    by (simp only: Let_def option.case if_False pc_def [symmetric] case_prod_beta fst_conv snd_conv) simp
  have "slept = delay" "cache' = snd pc"
    and ans: "answer = Some \<lparr>ms_status = 200, ms_headers = [(''content-type'', ''application/json''), (''content-length'', show_nat (length (fst pc))),
         (''x-mock-upstream'', ''true'')], ms_body = if mq_method req = ''HEAD'' then [] else fst pc\<rparr>"
    using assms(4) unfolding res by (simp_all only: prod.inject)
  moreover have "sizing = Some n \<Longrightarrow> fst pc = generate_payload (min n MAX_BODY_SIZE)" for n
    using get(1) by (simp add: pc_def)
  moreover have "sizing = None \<Longrightarrow> fst pc = (if starts_with (mq_path req) ''/echo'' \<and> received \<noteq> [] then received else default_body)"
    by (simp add: pc_def)
  ultimately show ?thesis
    using ok std unfolding sizing_def [symmetric]
    by (intro conjI exI [of _ "the answer"] exI [of _ "fst pc"]) simp_all
qed


definition example_get :: MockRequest where
  "example_get = \<lparr>mq_method = ''GET'', mq_path = ''/bench'', mq_query = Some (''size='' @ show_nat (payload_bytes_of Small1Kb)), mq_body = Some []\<rparr>"

theorem mock_handle_correct_witness:
  "\<exists>rsp. fst (snd (mock_handle example_get ''d'' Map.empty 5)) = Some rsp \<and> ms_body rsp = standard_payload Small1Kb \<and>
     fst (mock_handle example_get ''d'' Map.empty 5) = 5"
proof -
  have req: "cache_ok Map.empty" "mq_path example_get \<noteq> ''/healthz''" "mq_body example_get = Some []"
    "mq_method example_get \<noteq> ''HEAD''" "mq_query example_get = Some (''size='' @ show_nat (payload_bytes_of Small1Kb))"
    by (simp_all add: cache_ok_def example_get_def)
  obtain slept answer cache' where res: "mock_handle example_get ''d'' Map.empty 5 = (slept, answer, cache')"
    by (cases "mock_handle example_get ''d'' Map.empty 5") auto
  show ?thesis
    using mock_handle_correct [OF req(1-3) res] req(4,5) unfolding res by auto
qed

section \<open>The accept loop\<close>

text \<open>The loop runs until it sees a true value; with the sender gone and the value false it never does.\<close>

lemma mock_loop_unsent:
  "\<not> watch_value w \<Longrightarrow> \<exists>w'. snd (mock_loop evs w) = Some w' \<and> \<not> watch_value w' \<and> watch_closed w' = watch_closed w"
proof (induction evs arbitrary: w)
  case (Cons ev evs)
  show ?case
  proof (cases ev)
    case (Mock_Accept ok)
    then show ?thesis using Cons by (simp add: mock_round_def case_prod_beta)
  next
    case Mock_Changed
    then show ?thesis using Cons.prems Cons.IH [of "w\<lparr>watch_unseen := False\<rparr>"] by (simp add: mock_round_def case_prod_beta)
  qed
qed simp

lemma mock_loop_spins:
  assumes "snd (mock_loop evs (watch_drop watch_channel)) = r"
  shows "\<exists>w. r = Some w \<and> changed_ready w \<and> mock_round Mock_Changed w \<noteq> None"
  using mock_loop_unsent [of "watch_drop watch_channel" evs] assms
  by (auto simp: watch_drop_def watch_channel_def changed_ready_def mock_round_def Let_def)

lemma mock_loop_stops:
  assumes "Mock_Changed \<in> set evs"
  shows "snd (mock_loop evs (watch_send watch_channel)) = None"
proof -
  have "snd (mock_loop evs w) = None" if "watch_value w" for w
    using assms that by (induction evs) (auto simp: mock_round_def case_prod_beta Let_def split: MockEvent.split)
  then show ?thesis by (simp add: watch_send_def)
qed

section \<open>The standalone backend\<close>

text \<open>\<open>bin/lb-mock-upstream.rs\<close>: its arguments, the number of runtime threads and the configuration it serves.\<close>

record MockArgs =
  ma_listen :: bytes
  ma_delay_ms :: nat
  ma_workers :: "nat option"

definition mock_args_default :: MockArgs where
  "mock_args_default = \<lparr>ma_listen = ''0.0.0.0:9090'', ma_delay_ms = 0, ma_workers = None\<rparr>"

definition mock_main :: "nat \<Rightarrow> MockArgs \<Rightarrow> nat \<times> MockUpstreamConfig" where
  "mock_main num_cpus args =
     (max (case ma_workers args of Some n \<Rightarrow> n | None \<Rightarrow> num_cpus) 1,
      mock_config_default\<lparr>mock_listen_addr := ma_listen args, delay_ms := ma_delay_ms args\<rparr>)"

end
