(* ===== verification/Load_Gen.thy ===== *)
theory Load_Gen
  imports Latency Bench_Scenario Runtime_Support
begin

text \<open>
  The load generator of the bench crate (\<open>load/generator.rs\<close>): its configuration, the numbers it derives
  from it, what a worker records for each attempt, and the run as the interleaving of the attempts of all
  workers.  The HTTP client is Hyper's: an attempt is given by its outcome, with the tick counts read
  before and after it.  Durations are nanoseconds, pacing is in microseconds.
\<close>

record LoadConfig =
  lc_target_url :: bytes
  lc_concurrency :: nat
  lc_duration :: nat
  lc_method :: bytes
  lc_payload :: "bytes option"
  lc_http_version :: HttpVersion
  lc_target_rps :: "nat option"
  lc_host_header :: bytes

definition load_config_new :: "bytes \<Rightarrow> nat \<Rightarrow> nat \<Rightarrow> LoadConfig" where
  "load_config_new target_url conc dur =
     \<lparr>lc_target_url = target_url, lc_concurrency = max conc 1, lc_duration = dur, lc_method = ''GET'', lc_payload = None,
      lc_http_version = Http11, lc_target_rps = None, lc_host_header = ''localhost''\<rparr>"

definition client_count :: "bool \<Rightarrow> LoadConfig \<Rightarrow> nat" where
  "client_count linux cfg = (if 30000 < lc_concurrency cfg \<and> linux then 8 else 1)"

definition pool_max_idle_per_host :: "LoadConfig \<Rightarrow> nat" where
  "pool_max_idle_per_host cfg = max (min (lc_concurrency cfg) 1024) 64"

definition expected_interval_us :: "LoadConfig \<Rightarrow> nat" where
  "expected_interval_us cfg =
     (case lc_target_rps cfg of
        Some rps \<Rightarrow> if 0 < rps
          then f64_to_u64 (f64_div (f64_mul 1000000 (f64_of_nat (lc_concurrency cfg))) (f64_of_nat rps)) else 0
      | None \<Rightarrow> 0)"

definition shard_count :: "LoadConfig \<Rightarrow> nat" where
  "shard_count cfg = min 64 (max (lc_concurrency cfg) 1)"

section \<open>Workers\<close>

text \<open>One turn of a worker: the request cannot be built, the request fails, its body cannot be read, or a
  whole response arrives with its status, body length and the ticks before and after.\<close>

datatype Attempt = Unbuildable | Request_Failed | Body_Failed | Answered nat nat u64 u64

definition is_success :: "nat \<Rightarrow> bool" where "is_success status = (200 \<le> status \<and> status < 300)"
definition is_redirection :: "nat \<Rightarrow> bool" where "is_redirection status = (300 \<le> status \<and> status < 400)"

definition elapsed_us :: "Calibration \<Rightarrow> u64 \<Rightarrow> u64 \<Rightarrow> u64" where
  "elapsed_us calibration start stop = of_nat (ticks_to_micros calibration (stop - start))"

definition record_attempt :: "'h Hist \<Rightarrow> Calibration \<Rightarrow> u64 \<Rightarrow> nat \<Rightarrow> Attempt \<Rightarrow> 'h LatencyRecorder \<Rightarrow> 'h LatencyRecorder" where
  "record_attempt H calibration interval shard a r =
     (case a of
        Unbuildable \<Rightarrow> record_failure r
      | Request_Failed \<Rightarrow> record_failure r
      | Body_Failed \<Rightarrow> record_failure r
      | Answered status n start stop \<Rightarrow>
          let elapsed = elapsed_us calibration start stop
          in if is_success status \<or> is_redirection status
             then record_success H shard elapsed (of_nat n) interval r
             else record_error_response H shard elapsed interval r)"

text \<open>
  The schedule of an open-loop worker: its due time advances by the interval each turn, it sleeps until then
  unless it is late, and the turn takes its service time.  The result lists when the requests are sent.
\<close>

fun worker_sends :: "nat \<Rightarrow> nat \<Rightarrow> nat \<Rightarrow> nat list \<Rightarrow> nat list" where
  "worker_sends interval next_send now [] = []"
| "worker_sends interval next_send now (service # rest) =
     (let next_send = (if 0 < interval then next_send + interval else next_send);
          now = (if 0 < interval \<and> now < next_send then next_send else now)
      in now # worker_sends interval next_send (now + service) rest)"

section \<open>A run\<close>

definition make_shards :: "'h Hist \<Rightarrow> nat \<Rightarrow> 'h LatencyRecorder \<Rightarrow> 'h LatencyRecorder" where
  "make_shards H n r = fold (\<lambda>_ r. snd (recorder_worker H r)) [0..<n] r"

text \<open>
  The run with the attempts of the workers in the order in which they are recorded, each with the index of
  its worker; \<open>parse_uri\<close> tells whether the target is a URI.
\<close>

definition load_run ::
  "'h Hist \<Rightarrow> (bytes \<Rightarrow> bool) \<Rightarrow> Calibration \<Rightarrow> LoadConfig \<Rightarrow> (nat \<times> Attempt) list \<Rightarrow> 'h LatencyRecorder \<Rightarrow> 'h LatencyRecorder option" where
  "load_run H parse_uri calibration cfg attempts r =
     (if \<not> parse_uri (lc_target_url cfg) then None
      else let interval = of_nat (expected_interval_us cfg);
               shards = shard_count cfg;
               r = make_shards H shards r
           in Some (fold (\<lambda>(idx, a). record_attempt H calibration interval (idx mod shards) a) attempts r))"

section \<open>Pacing\<close>

text \<open>A worker that is never late sends on its schedule; no request is sent before it is due.\<close>

lemma worker_sends_due:
  "0 < interval \<Longrightarrow> k < length services \<Longrightarrow>
     due + (k + 1) * interval \<le> worker_sends interval due now services ! k"
proof (induction services arbitrary: due now k)
  case (Cons s rest)
  show ?case
  proof (cases k)
    case (Suc j)
    then show ?thesis
      using Cons.prems Cons.IH [of j "due + interval"] by (simp add: Let_def algebra_simps)
  qed (use Cons.prems in \<open>simp add: Let_def\<close>)
qed simp

lemma worker_sends_on_schedule:
  "0 < interval \<Longrightarrow> list_all (\<lambda>s. s \<le> interval) services \<Longrightarrow> now \<le> due + interval \<Longrightarrow>
     worker_sends interval due now services = map (\<lambda>k. due + (k + 1) * interval) [0..<length services]"
proof (induction services arbitrary: due now)
  case (Cons s rest)
  have "worker_sends interval due now (s # rest)
      = (due + interval) # worker_sends interval (due + interval) (due + interval + s) rest"
    using Cons.prems by (auto simp: Let_def not_less)
  also have "worker_sends interval (due + interval) (due + interval + s) rest
      = map (\<lambda>k. due + interval + (k + 1) * interval) [0..<length rest]"
    using Cons.prems by (intro Cons.IH) auto
  finally show ?case
    by (simp del: upt_Suc add: upt_conv_Cons flip: map_Suc_upt)
qed simp

section \<open>Accounting\<close>

fun sample_of :: "Calibration \<Rightarrow> u64 \<Rightarrow> Attempt \<Rightarrow> Sample" where
  "sample_of cal interval (Answered status n start stop) =
     (if is_success status \<or> is_redirection status then Response (elapsed_us cal start stop) (of_nat n) interval
      else Error_Status (elapsed_us cal start stop) interval)"
| "sample_of cal interval a = Transport_Failure"

lemma record_attempt_step: "record_attempt H cal i s a = latency_step H (Recorded s (sample_of cal i a))"
  by (rule ext) (simp add: record_attempt_def Let_def split: Attempt.split)

lemma make_shards_events: "make_shards H n r = fold (latency_step H) (replicate n New_Handle) r"
  unfolding make_shards_def by (induction n) (simp_all add: replicate_append_same [symmetric] del: replicate_Suc)

lemma run_samples_new [simp]: "run_samples (replicate n New_Handle) = []"
  by (induction n) simp_all

lemma run_samples_recorded: "run_samples (map (\<lambda>x. Recorded (f x) (g x)) xs) = map g xs"
  by (induction xs) simp_all

lemma handles_exist_new: "handles_exist k (replicate n New_Handle @ es) = handles_exist (n + k) es"
  by (induction n arbitrary: k) simp_all

lemma handles_exist_recorded: "handles_exist n (map (\<lambda>x. Recorded (f x) (g x)) xs) = list_all (\<lambda>x. f x < n) xs"
  by (induction xs) simp_all

lemma shard_count_pos: "0 < shard_count cfg"
  by (simp add: shard_count_def)

fun answered :: "Attempt \<Rightarrow> bool" where
  "answered (Answered status n start stop) = True"
| "answered a = False"

fun good :: "Attempt \<Rightarrow> bool" where
  "good (Answered status n start stop) = (200 \<le> status \<and> status < 400)"
| "good a = False"

fun body_bytes :: "Attempt \<Rightarrow> nat" where
  "body_bytes (Answered status n start stop) = (if good (Answered status n start stop) then n else 0)"
| "body_bytes a = 0"

fun attempt_latency :: "Calibration \<Rightarrow> Attempt \<Rightarrow> nat" where
  "attempt_latency cal (Answered status n start stop) = unat (u64_clamp LOWEST_US HIGHEST_US (elapsed_us cal start stop))"
| "attempt_latency cal a = 0"


lemma status_ok [simp]: "(is_success s \<or> is_redirection s) = (200 \<le> s \<and> s < 400)"
  by (auto simp: is_success_def is_redirection_def)

lemma attempts_samples:
  fixes attempts :: "Attempt list" and cal :: Calibration and i :: u64
  defines "ss \<equiv> map (sample_of cal i) attempts"
  shows "map fst (latencies ss) = map (attempt_latency cal) (filter answered attempts)"
    and "length (latencies ss) = length (filter answered attempts)"
    and "failures ss = length (filter (\<lambda>a. \<not> answered a) attempts)"
    and "length (filter is_error_status ss) = length (filter (\<lambda>a. answered a \<and> \<not> good a) attempts)"
    and "sum_list (map bytes_of ss) = of_nat (sum_list (map body_bytes attempts))"
    and "list_all (\<lambda>s. \<exists>l n e. s = Response l n e) ss = list_all good attempts"
  unfolding ss_def
proof (induction attempts)
  case (Cons a as)

  { case 1 show ?case using Cons by (cases a) (simp_all add: latencies_def map_filter_simps)
  next case 2 show ?case using Cons by (cases a) (simp_all add: latencies_def map_filter_simps)
  next case 3 show ?case using Cons by (cases a) (simp_all add: failures_def)
  next case 4 show ?case using Cons by (cases a) simp_all
  next case 5 show ?case using Cons by (cases a) simp_all
  next case 6 show ?case using Cons(6) by (cases a) auto }
qed (simp_all add: latencies_def failures_def)




definition example_attempts :: "(nat \<times> Attempt) list" where
  "example_attempts = [(0, Answered 200 1024 10 260), (5, Request_Failed), (1, Answered 503 9 0 40)]"

definition example_load :: "nat list LatencyRecorder" where
  "example_load = the (load_run list_hist (\<lambda>_. True) \<lparr>ns_per_tick = 1\<rparr> (load_config_new ''http://h/'' 2 1000) example_attempts (recorder_new list_hist))"

definition example_result :: BenchmarkResult where
  "example_result = fst (summarize list_hist ''c'' ''s'' 2 1024 ''HTTP/1.1'' 1 0 0 example_load)"


end
