(* ===== verification/Rust_Path.thy ===== *)
theory Rust_Path
  imports Rust_Str "HOL-Library.Multiset"
begin

text \<open>
  The functions of Rust's \<open>Path\<close> the program calls, on the bytes of a path without repeated separators and \<open>.\<close> components,
  and the order of strings.
\<close>

section \<open>Paths\<close>

text \<open>\<open>Path::join\<close> with a relative path.\<close>

definition path_join :: "bytes \<Rightarrow> bytes \<Rightarrow> bytes" where
  "path_join d n = (if d = [] then n else if last d = CHR ''/'' then d @ n else d @ ''/'' @ n)"

text \<open>\<open>Path::parent\<close>.\<close>

definition path_parent :: "bytes \<Rightarrow> bytes option" where
  "path_parent p =
     (let p = rev (dropWhile (\<lambda>c. c = CHR ''/'') (rev p));
          dir = rev (dropWhile (\<lambda>c. c \<noteq> CHR ''/'') (rev p))
      in if p = [] then None
         else Some (let dir' = rev (dropWhile (\<lambda>c. c = CHR ''/'') (rev dir)) in if dir' = [] \<and> dir \<noteq> [] then ''/'' else dir'))"

text \<open>\<open>Path::file_name\<close>, \<open>file_stem\<close>: none for a path that ends in \<open>..\<close> or has no name.\<close>

definition file_name :: "bytes \<Rightarrow> bytes option" where
  "file_name p =
     (let p = rev (dropWhile (\<lambda>c. c = CHR ''/'') (rev p));
          n = rev (takeWhile (\<lambda>c. c \<noteq> CHR ''/'') (rev p))
      in if n = [] \<or> n = ''..'' then None else Some n)"

definition file_stem :: "bytes \<Rightarrow> bytes option" where
  "file_stem p = map_option (\<lambda>n.
     let stem = rev (tl (dropWhile (\<lambda>c. c \<noteq> CHR ''.'') (rev n))) in if stem = [] then n else stem) (file_name p)"

text \<open>\<open>Path::extension\<close>: what follows the last dot of the file name, unless the name only starts with it.\<close>

definition extension :: "bytes \<Rightarrow> bytes option" where
  "extension path =
     (let name = rev (takeWhile (\<lambda>c. c \<noteq> CHR ''/'') (rev path));
          ext = rev (takeWhile (\<lambda>c. c \<noteq> CHR ''.'') (rev name))
      in if length ext + 1 < length name then Some ext else None)"

section \<open>The order of strings\<close>

fun bytes_le :: "bytes \<Rightarrow> bytes \<Rightarrow> bool" where
  "bytes_le [] t = True"
| "bytes_le (c # s) [] = False"
| "bytes_le (c # s) (d # t) = ((of_char c :: nat) < of_char d \<or> c = d \<and> bytes_le s t)"

lemma of_char_nat_eq: "(of_char c :: nat) = of_char d \<longleftrightarrow> c = d"
  by (simp add: of_char_eq_iff)

lemma bytes_le_total: "bytes_le s t \<or> bytes_le t s"
  by (induction s t rule: bytes_le.induct) (auto simp: of_char_nat_eq dest: not_less_iff_gr_or_eq [THEN iffD1])

lemma bytes_le_antisym: "bytes_le s t \<Longrightarrow> bytes_le t s \<Longrightarrow> s = t"
proof (induction s t rule: bytes_le.induct)
  case (1 t)
  then show ?case by (cases t) simp_all
qed auto

lemma bytes_le_trans: "bytes_le s t \<Longrightarrow> bytes_le t u \<Longrightarrow> bytes_le s u"
proof (induction s t arbitrary: u rule: bytes_le.induct)
  case (3 c s d t)
  then show ?case by (cases u) auto
qed auto

text \<open>\<open>sort_by\<close>, which is stable, for an order given by its less-or-equal.\<close>

fun insert_by :: "('a \<Rightarrow> 'a \<Rightarrow> bool) \<Rightarrow> 'a \<Rightarrow> 'a list \<Rightarrow> 'a list" where
  "insert_by le x [] = [x]"
| "insert_by le x (y # ys) = (if le x y then x # y # ys else y # insert_by le x ys)"

definition sort_by :: "('a \<Rightarrow> 'a \<Rightarrow> bool) \<Rightarrow> 'a list \<Rightarrow> 'a list" where
  "sort_by le xs = foldr (insert_by le) xs []"

lemma mset_insert_by [simp]: "mset (insert_by le x ys) = add_mset x (mset ys)"
  by (induction ys) auto

lemma mset_sort_by [simp]: "mset (sort_by le xs) = mset xs"
  unfolding sort_by_def by (induction xs) simp_all

lemma set_insert_by [simp]: "set (insert_by le x ys) = insert x (set ys)"
  by (induction ys) auto

lemma sort_by_props [simp]: "set (sort_by le xs) = set xs" "length (sort_by le xs) = length xs"
  by (metis mset_sort_by set_mset_mset) (metis mset_sort_by size_mset)

locale sort_order =
  fixes le :: "'a \<Rightarrow> 'a \<Rightarrow> bool"
  assumes total: "le x y \<or> le y x"
    and trans: "le x y \<Longrightarrow> le y z \<Longrightarrow> le x z"
begin

lemma insert_by_sorted: "sorted_wrt le ys \<Longrightarrow> sorted_wrt le (insert_by le x ys)"
proof (induction ys)
  case (Cons y ys)
  then show ?case using total [of x y] trans [of x y] by auto
qed simp

lemma sort_by_sorted: "sorted_wrt le (sort_by le xs)"
  unfolding sort_by_def by (induction xs) (simp_all add: insert_by_sorted)

text \<open>Elements that are equal in the order keep theirs.\<close>

lemma insert_by_stable: "filter (\<lambda>z. le x z \<and> le z x) (insert_by le y ys) = filter (\<lambda>z. le x z \<and> le z x) (y # ys)"
proof (induction ys)
  case (Cons z ys)
  show ?case
  proof (cases "le y z")
    case False
    then have "\<not> (le x y \<and> le y x \<and> le x z \<and> le z x)" using trans by blast
    with False Cons show ?thesis by auto
  qed simp
qed simp

lemma sort_by_stable: "filter (\<lambda>z. le x z \<and> le z x) (sort_by le xs) = filter (\<lambda>z. le x z \<and> le z x) xs"
  unfolding sort_by_def by (induction xs) (simp_all add: insert_by_stable)

end

interpretation names: sort_order bytes_le
  using bytes_le_total bytes_le_trans by unfold_locales

end
