(* ===== verification/Candidate_Proc.thy ===== *)
theory Candidate_Proc
  imports Bench_Scenario Rust_Path
begin

text \<open>
  Launching a candidate as a process of its own (\<open>harness/candidate.rs\<close> of the bench crate): the command
  line and environment it gets, the wait until its port accepts, and the stop.  The file system, the
  operating system's processes and the socket are arguments: whether a path exists, whether the
  configuration file can be written, the process identifier of the spawned child and at which
  millisecond the port accepts.
\<close>

definition STARTUP_TIMEOUT :: nat where "STARTUP_TIMEOUT = 30000"
definition SHUTDOWN_GRACE :: nat where "SHUTDOWN_GRACE = 5000"

type_synonym SocketAddr = "bytes \<times> nat"

definition show_addr :: "SocketAddr \<Rightarrow> bytes" where
  "show_addr a = fst a @ '':'' @ show_nat (snd a)"

record LaunchSpec =
  ls_candidate :: Candidate
  ls_listen_addr :: SocketAddr
  ls_upstream_addr :: SocketAddr
  ls_workers :: "nat option"
  ls_binary_dir :: bytes
  ls_config_path :: "bytes option"
  ls_env :: "(bytes \<times> bytes) list"

text \<open>\<open>default_binary_dir\<close>, with the two environment variables and whether the build has debug assertions.\<close>

definition default_binary_dir :: "bytes option \<Rightarrow> bytes option \<Rightarrow> bool \<Rightarrow> bytes" where
  "default_binary_dir bench_dir target_dir debug =
     (case bench_dir of
        Some dir \<Rightarrow> dir
      | None \<Rightarrow> path_join (case target_dir of Some t \<Rightarrow> t | None \<Rightarrow> ''target'') (if debug then ''debug'' else ''release''))"

definition launch_spec_new :: "bytes \<Rightarrow> Candidate \<Rightarrow> SocketAddr \<Rightarrow> SocketAddr \<Rightarrow> LaunchSpec" where
  "launch_spec_new bin_dir c listen upstream =
     \<lparr>ls_candidate = c, ls_listen_addr = listen, ls_upstream_addr = upstream, ls_workers = None,
      ls_binary_dir = bin_dir, ls_config_path = None, ls_env = []\<rparr>"

record Command =
  cmd_program :: bytes
  cmd_args :: "bytes list"
  cmd_env :: "(bytes \<times> bytes) list"

datatype LaunchError = Write_Failed | Externally_Managed Candidate | Binary_Missing bytes | Spawn_Failed | Exited_Immediately | Not_Ready Candidate

definition traefik_command :: "(bytes \<Rightarrow> bool) \<Rightarrow> bytes \<Rightarrow> LaunchSpec \<Rightarrow> LaunchError + Command" where
  "traefik_command writable temp_dir spec =
     (let config_path = path_join temp_dir (''traefik_'' @ show_nat (snd (ls_listen_addr spec)) @ ''.yaml'')
      in if \<not> writable config_path then Inl Write_Failed
         else Inr \<lparr>cmd_program = ''traefik'',
                   cmd_args = [''--entrypoints.web.address=:'' @ show_nat (snd (ls_listen_addr spec)),
                               ''--providers.file.filename='' @ config_path, ''--log.level=WARN'', ''--ping=false'',
                               ''--accesslog=false''],
                   cmd_env = []\<rparr>)"

fun worker_flag :: "Candidate \<Rightarrow> bytes option" where
  "worker_flag Hyper = Some ''--workers''"
| "worker_flag Pingora = Some ''--threads''"
| "worker_flag Monoio = Some ''--threads''"
| "worker_flag Traefik = None"

definition rust_command :: "(bytes \<Rightarrow> bool) \<Rightarrow> LaunchSpec \<Rightarrow> LaunchError + Command" where
  "rust_command exists spec =
     (case binary_name (ls_candidate spec) of
        None \<Rightarrow> Inl (Externally_Managed (ls_candidate spec))
      | Some binary \<Rightarrow>
          let path = path_join (ls_binary_dir spec) binary
          in if \<not> exists path then Inl (Binary_Missing path)
             else let args = [''--listen'', show_addr (ls_listen_addr spec), ''--default-upstream'', show_addr (ls_upstream_addr spec),
                              ''--mode'', ''standalone''];
                      args = (case ls_workers spec of
                                Some n \<Rightarrow> (case worker_flag (ls_candidate spec) of Some f \<Rightarrow> args @ [f, show_nat n] | None \<Rightarrow> args)
                              | None \<Rightarrow> args);
                      args = (case ls_config_path spec of Some c \<Rightarrow> args @ [''--config'', c] | None \<Rightarrow> args)
                  in Inr \<lparr>cmd_program = path, cmd_args = args, cmd_env = []\<rparr>)"

definition launch_command :: "(bytes \<Rightarrow> bool) \<Rightarrow> (bytes \<Rightarrow> bool) \<Rightarrow> bytes \<Rightarrow> LaunchSpec \<Rightarrow> LaunchError + Command" where
  "launch_command exists writable temp_dir spec =
     (case (if ls_candidate spec = Traefik then traefik_command writable temp_dir spec else rust_command exists spec) of
        Inl e \<Rightarrow> Inl e
      | Inr cmd \<Rightarrow>
          let cmd = cmd\<lparr>cmd_env := cmd_env cmd @ ls_env spec\<rparr>
          in Inr (if \<not> list_ex (\<lambda>(k, _). k = ''RUST_LOG'') (ls_env spec) then cmd\<lparr>cmd_env := cmd_env cmd @ [(''RUST_LOG'', ''warn'')]\<rparr>
                  else cmd))"

section \<open>Waiting for the port\<close>

text \<open>
  \<open>accepts\<close> tells at which time the port accepts; the clock advances by the sleeps.  The loop returns the
  time at which a connection was accepted, or \<open>Some None\<close> when the deadline passes.
\<close>

partial_function (option) ready_loop :: "(nat \<Rightarrow> bool) \<Rightarrow> nat \<Rightarrow> nat \<Rightarrow> nat \<Rightarrow> nat option option" where
  "ready_loop accepts deadline delay now =
     (if now < deadline
      then if accepts now then Some (Some now)
           else ready_loop accepts deadline (min (delay * 2) 250) (now + delay)
      else Some None)"

definition wait_until_ready :: "(nat \<Rightarrow> bool) \<Rightarrow> nat \<Rightarrow> nat option option" where
  "wait_until_ready accepts now = ready_loop accepts (now + STARTUP_TIMEOUT) 10 now"

record RunningCandidate =
  rc_candidate :: Candidate
  rc_listen_addr :: SocketAddr
  rc_pid :: nat
  rc_child :: bool

text \<open>\<open>spawned\<close> is the result of the spawn: an error, or the child's identifier if it has one.\<close>

definition candidate_launch ::
  "(bytes \<Rightarrow> bool) \<Rightarrow> (bytes \<Rightarrow> bool) \<Rightarrow> bytes \<Rightarrow> (Command \<Rightarrow> nat option option) \<Rightarrow> (nat \<Rightarrow> bool) \<Rightarrow> nat \<Rightarrow> LaunchSpec \<Rightarrow>
     (LaunchError + RunningCandidate) option" where
  "candidate_launch exists writable temp_dir spawn accepts now spec =
     (case launch_command exists writable temp_dir spec of
        Inl e \<Rightarrow> Some (Inl e)
      | Inr cmd \<Rightarrow>
          (case spawn cmd of
             None \<Rightarrow> Some (Inl Spawn_Failed)
           | Some None \<Rightarrow> Some (Inl Exited_Immediately)
           | Some (Some pid) \<Rightarrow>
               let running = \<lparr>rc_candidate = ls_candidate spec, rc_listen_addr = ls_listen_addr spec, rc_pid = pid, rc_child = True\<rparr>
               in case wait_until_ready accepts now of
                    None \<Rightarrow> None
                  | Some None \<Rightarrow> Some (Inl (Not_Ready (ls_candidate spec)))
                  | Some (Some t) \<Rightarrow> Some (Inr running)))"

definition candidate_external :: "Candidate \<Rightarrow> SocketAddr \<Rightarrow> nat \<Rightarrow> RunningCandidate" where
  "candidate_external c addr pid = \<lparr>rc_candidate = c, rc_listen_addr = addr, rc_pid = pid, rc_child = False\<rparr>"

definition base_url :: "RunningCandidate \<Rightarrow> bytes" where
  "base_url r = ''http://'' @ show_addr (rc_listen_addr r)"

text \<open>The signals \<open>stop\<close> sends: SIGTERM while the child runs, and SIGKILL when it does not exit within the
  grace period; \<open>exits_after\<close> is how long the child takes to exit (\<open>None\<close>: it does not).\<close>

definition candidate_stop :: "bool \<Rightarrow> nat option \<Rightarrow> RunningCandidate \<Rightarrow> nat list" where
  "candidate_stop alive exits_after r =
     (if \<not> rc_child r then []
      else (if alive then [15] else []) @
           (case exits_after of Some t \<Rightarrow> if t \<le> SHUTDOWN_GRACE then [] else [9] | None \<Rightarrow> [9]))"

definition binaries_present :: "(bytes \<Rightarrow> bool) \<Rightarrow> bytes \<Rightarrow> bool" where
  "binaries_present exists dir = list_all (\<lambda>name. exists (path_join dir name)) (List.map_filter binary_name rust_candidates)"

section \<open>Properties\<close>

lemma ready_loop_returns:
  assumes "0 < delay" "delay \<le> 250"
  shows "\<exists>r. ready_loop accepts deadline delay now = Some r \<and>
     (\<forall>t. r = Some t \<longrightarrow> accepts t \<and> now \<le> t \<and> t < deadline) \<and>
     (\<forall>t0. now \<le> t0 \<and> t0 + 250 \<le> deadline \<and> (\<forall>t\<ge>t0. accepts t) \<longrightarrow> (\<exists>t. r = Some t \<and> t < t0 + 250))"
  using assms
proof (induction "deadline - now" arbitrary: delay now rule: less_induct)
  case less
  show ?case
  proof (cases "now < deadline \<and> \<not> accepts now")
    case True
    with less.prems have "deadline - (now + delay) < deadline - now" "0 < min (delay * 2) 250" by (auto intro!: diff_less_mono2)
    from less.hyps [OF this] obtain r where r: "ready_loop accepts deadline (min (delay * 2) 250) (now + delay) = Some r"
      "\<forall>t. r = Some t \<longrightarrow> accepts t \<and> now + delay \<le> t \<and> t < deadline"
      "\<And>t0. now + delay \<le> t0 \<Longrightarrow> t0 + 250 \<le> deadline \<Longrightarrow> \<forall>t\<ge>t0. accepts t \<Longrightarrow> \<exists>t. r = Some t \<and> t < t0 + 250"
      by auto
    have soon: "\<exists>t. r = Some t \<and> t < t0 + 250" if t0: "now \<le> t0" "t0 + 250 \<le> deadline" "\<forall>t\<ge>t0. accepts t" for t0
    proof (cases "now + delay \<le> t0")
      case False
      have "now < t0" using True t0(1,3) by (metis le_neq_implies_less order_refl)
      then have lt: "now + delay < deadline" "accepts (now + delay)" "now + delay < t0 + 250"
        using False t0 less.prems by auto
      then have "ready_loop accepts deadline (min (delay * 2) 250) (now + delay) = Some (Some (now + delay))"
        by (subst ready_loop.simps) simp
      with r(1) have "r = Some (now + delay)" by simp
      with lt show ?thesis by blast
    qed (rule r(3) [OF _ t0(2,3)])
    have "ready_loop accepts deadline delay now = Some r"
      using True r(1) by (subst ready_loop.simps) simp
    with r(2) soon show ?thesis by fastforce
  next
    case False
    then have "ready_loop accepts deadline delay now = Some (if now < deadline then Some now else None)"
      by (subst ready_loop.simps) simp
    with False show ?thesis by auto
  qed
qed



definition example_spec :: LaunchSpec where
  "example_spec = launch_spec_new ''target/release'' Hyper (''127.0.0.1'', 18080) (''127.0.0.1'', 9090)"


end
