(* ===== verification/Logged_Run.thy ===== *)
theory Logged_Run
  imports Prelude "HOL-Library.Sublist"
begin

text \<open>
  Effectful code of the bench crate: a computation changes a world of its own, appends what it does to a
  log, and returns a value or ends early with an error, as \<open>?\<close> does.
\<close>

type_synonym ('l, 'w) log_state = "'l list \<times> 'w"
type_synonym ('e, 'l, 'w, 'a) logged = "('l, 'w) log_state \<Rightarrow> ('e + 'a) \<times> ('l, 'w) log_state"

definition run_return :: "'a \<Rightarrow> ('e, 'l, 'w, 'a) logged" where
  "run_return x = (\<lambda>s. (Inr x, s))"

definition run_fail :: "'e \<Rightarrow> ('e, 'l, 'w, 'a) logged" where
  "run_fail e = (\<lambda>s. (Inl e, s))"

definition run_bind :: "('e, 'l, 'w, 'a) logged \<Rightarrow> ('a \<Rightarrow> ('e, 'l, 'w, 'b) logged) \<Rightarrow> ('e, 'l, 'w, 'b) logged" where
  "run_bind m f = (\<lambda>s. case m s of (Inl e, s) \<Rightarrow> (Inl e, s) | (Inr x, s) \<Rightarrow> f x s)"

definition run_log :: "'l \<Rightarrow> ('e, 'l, 'w, unit) logged" where
  "run_log a = (\<lambda>(trace, w). (Inr (), (trace @ [a], w)))"

definition run_ask :: "('w \<Rightarrow> 'a \<times> 'w) \<Rightarrow> ('e, 'l, 'w, 'a) logged" where
  "run_ask f = (\<lambda>(trace, w). let (x, w) = f w in (Inr x, (trace, w)))"

text \<open>A loop that collects a result per element and ends at the first error.\<close>

fun run_each :: "('a \<Rightarrow> ('e, 'l, 'w, 'b) logged) \<Rightarrow> 'a list \<Rightarrow> ('e, 'l, 'w, 'b list) logged" where
  "run_each f [] = run_return []"
| "run_each f (x # xs) = run_bind (f x) (\<lambda>y. run_bind (run_each f xs) (\<lambda>ys. run_return (y # ys)))"

lemma run_bind_Inl:
  assumes "run_bind m f s = (Inl e, s')"
  obtains "m s = (Inl e, s')" | x s1 where "m s = (Inr x, s1)" "f x s1 = (Inl e, s')"
proof -
  obtain r s1 where "m s = (r, s1)" by (cases "m s") blast
  with assms that show ?thesis by (cases r) (auto simp: run_bind_def)
qed

lemma run_bind_Inr:
  assumes "run_bind m f s = (Inr y, s')"
  obtains x s1 where "m s = (Inr x, s1)" "f x s1 = (Inr y, s')"
proof -
  obtain r s1 where "m s = (r, s1)" by (cases "m s") blast
  with assms that show ?thesis by (cases r) (auto simp: run_bind_def)
qed

lemma run_bind_step: "m s = (Inr x, s1) \<Longrightarrow> run_bind m f s = f x s1"
  by (simp add: run_bind_def)

lemma run_basics:
  "run_return x s = (Inr x, s)" "run_fail e s = (Inl e, s)" "run_log a (t, w) = (Inr (), (t @ [a], w))"
  "run_ask g (t, w) = (Inr (fst (g w)), (t, snd (g w)))"
  by (simp_all add: run_return_def run_fail_def run_log_def run_ask_def case_prod_beta Let_def)

text \<open>\<open>appends m P\<close>: the log only grows, by a part that satisfies \<open>P\<close> for the result.\<close>

definition appends :: "('e, 'l, 'w, 'a) logged \<Rightarrow> ('e + 'a \<Rightarrow> 'l list \<Rightarrow> bool) \<Rightarrow> bool" where
  "appends m P = (\<forall>t w r t' w'. m (t, w) = (r, (t', w')) \<longrightarrow> (\<exists>u. t' = t @ u \<and> P r u))"

lemma appendsI: "(\<And>t w r t' w'. m (t, w) = (r, (t', w')) \<Longrightarrow> \<exists>u. t' = t @ u \<and> P r u) \<Longrightarrow> appends m P"
  by (simp add: appends_def run_basics)

lemma appendsE:
  assumes "appends m P" "m (t, w) = (r, (t', w'))"
  obtains u where "t' = t @ u" "P r u"
  using assms unfolding appends_def by blast

lemma appends_return: "P (Inr x) [] \<Longrightarrow> appends (run_return x) P"
  by (simp add: appends_def run_basics)

lemma appends_fail: "P (Inl e) [] \<Longrightarrow> appends (run_fail e) P"
  by (simp add: appends_def run_basics)

lemma appends_log: "P (Inr ()) [a] \<Longrightarrow> appends (run_log a) P"
  by (simp add: appends_def run_basics)

lemma appends_ask: "(\<And>x. P (Inr x) []) \<Longrightarrow> appends (run_ask f) P"
  by (simp add: appends_def run_basics)

lemma appends_weaken: "appends m P \<Longrightarrow> (\<And>r u. P r u \<Longrightarrow> Q r u) \<Longrightarrow> appends m Q"
  unfolding appends_def by blast

lemma appends_bind:
  assumes "appends m P" "\<And>e u. P (Inl e) u \<Longrightarrow> Q (Inl e) u"
    "\<And>x u. P (Inr x) u \<Longrightarrow> appends (f x) (\<lambda>r v. Q r (u @ v))"
  shows "appends (run_bind m f) Q"
proof (rule appendsI)
  fix t w r t' w'
  assume run: "run_bind m f (t, w) = (r, (t', w'))"
  obtain r0 t0 w0 where m: "m (t, w) = (r0, (t0, w0))" by (metis prod.collapse)
  obtain u where u: "t0 = t @ u" "P r0 u" by (rule appendsE [OF assms(1) m])
  show "\<exists>u. t' = t @ u \<and> Q r u"
  proof (cases r0)
    case (Inl e)
    then show ?thesis using run m u assms(2) by (auto simp: run_bind_def)
  next
    case (Inr x)
    then have fx: "f x (t0, w0) = (r, (t', w'))" using run m by (simp add: run_bind_def)
    obtain v where "t' = t0 @ v" "Q r (u @ v)" by (rule appendsE [OF assms(3) fx]) (use u Inr in auto)
    then show ?thesis using u(1) by auto
  qed
qed

text \<open>Reading the world without changing it.\<close>

definition look :: "('w \<Rightarrow> 'a) \<Rightarrow> ('e, 'l, 'w, 'a) logged" where
  "look f = run_ask (\<lambda>w. (f w, w))"

section \<open>Runs that follow a plan\<close>

definition concs :: "'a list set \<Rightarrow> 'a list set \<Rightarrow> 'a list set" where
  "concs S T = {a @ b | a b. a \<in> S \<and> b \<in> T}"

lemma concs_simps [simp]:
  "concs {[]} S = S" "concs S {[]} = S" "concs {a} {b} = {a @ b}" "concs S T = {} \<longleftrightarrow> S = {} \<or> T = {}"
  by (auto simp: concs_def)

text \<open>
  A run follows a set \<open>S\<close> of plans: when it succeeds its log is one of them; when it fails, the log is the
  beginning of one, and after it at most a cleanup, one of \<open>C\<close>.
\<close>

definition follows :: "'l list set \<Rightarrow> 'l list set \<Rightarrow> ('a \<Rightarrow> bool) \<Rightarrow> 'e + 'a \<Rightarrow> 'l list \<Rightarrow> bool" where
  "follows C S Q r u =
     (case r of Inr x \<Rightarrow> u \<in> S \<and> Q x | Inl e \<Rightarrow> \<exists>plan\<in>S. \<exists>v c. u = v @ c \<and> prefix v plan \<and> c \<in> C)"

locale planned_run =
  fixes cleanups :: "'l list set"
  assumes no_cleanup: "[] \<in> cleanups"
begin

lemma follows_simps:
  "follows cleanups S Q (Inr x) u \<longleftrightarrow> u \<in> S \<and> Q x"
  "follows cleanups S Q (Inl e) u \<longleftrightarrow> (\<exists>plan\<in>S. \<exists>v c. u = v @ c \<and> prefix v plan \<and> c \<in> cleanups)"
  by (simp_all add: follows_def)

lemma follows_bind:
  assumes "appends m (follows cleanups S Q)" "\<And>x. Q x \<Longrightarrow> appends (f x) (follows cleanups T Q')" "T \<noteq> {}"
  shows "appends (run_bind m f) (follows cleanups (concs S T) Q')"
proof (rule appends_bind [OF assms(1)])
  fix e u
  assume "follows cleanups S Q (Inl e) u"
  then obtain plan v c where "plan \<in> S" "u = v @ c" "prefix v plan" "c \<in> cleanups" unfolding follows_simps by blast
  moreover obtain b where "b \<in> T" using assms(3) by blast
  ultimately have "plan @ b \<in> concs S T" "prefix v (plan @ b)" by (auto simp: concs_def)
  then show "follows cleanups (concs S T) Q' (Inl e) u" using \<open>u = v @ c\<close> \<open>c \<in> cleanups\<close> unfolding follows_simps by blast
next
  fix x u
  assume x: "follows cleanups S Q (Inr x) u"
  then have "appends (f x) (follows cleanups T Q')" using assms(2) by (simp add: follows_simps)
  then show "appends (f x) (\<lambda>r v. follows cleanups (concs S T) Q' r (u @ v))"
  proof (rule appends_weaken)
    fix r v
    assume "follows cleanups T Q' r v"
    then show "follows cleanups (concs S T) Q' r (u @ v)"
    proof (cases r)
      case (Inl e)
      with \<open>follows cleanups T Q' r v\<close> obtain plan p c where "plan \<in> T" "v = p @ c" "prefix p plan" "c \<in> cleanups"
        unfolding Inl follows_simps by blast
      moreover from this(1) x have "u @ plan \<in> concs S T" by (auto simp: concs_def follows_simps)
      ultimately show ?thesis unfolding Inl follows_simps by (intro bexI [of _ "u @ plan"] exI [of _ "u @ p"] exI [of _ c]) auto
    qed (use x \<open>follows cleanups T Q' r v\<close> in \<open>auto simp: follows_simps concs_def\<close>)
  qed
qed

lemma follows_log: "appends (run_log a) (follows cleanups {[a]} (\<lambda>_. True))"
  by (rule appends_log) (simp add: follows_simps)

lemma follows_return: "Q x \<Longrightarrow> appends (run_return x) (follows cleanups {[]} Q)"
  by (rule appends_return) (simp add: follows_simps)

lemma follows_fail: "S \<noteq> {} \<Longrightarrow> appends (run_fail e) (follows cleanups S Q)"
  by (rule appends_fail) (auto simp: follows_simps no_cleanup intro: exI [of _ "[]"])

lemma follows_cleanup: "S \<noteq> {} \<Longrightarrow> c \<in> cleanups \<Longrightarrow> follows cleanups S Q (Inl e) c"
  unfolding follows_simps by (metis append_Nil equals0I Nil_prefix)

lemma follows_ask: "(\<And>w. Q (fst (f w))) \<Longrightarrow> appends (run_ask f) (follows cleanups {[]} Q)"
  by (auto simp: appends_def run_basics follows_simps)

lemma follows_look: "appends (look f) (follows cleanups {[]} (\<lambda>_. True))"
  unfolding look_def by (rule follows_ask) simp

lemma follows_mono:
  "appends m (follows cleanups S Q) \<Longrightarrow> S \<subseteq> T \<Longrightarrow> (\<And>x. Q x \<Longrightarrow> Q' x) \<Longrightarrow> appends m (follows cleanups T Q')"
  by (erule appends_weaken) (auto simp: follows_def split: sum.splits)

text \<open>The same rule for a first part that logs nothing, and for one that logs a single action.\<close>

lemma follows_bind_quiet:
  assumes "appends m (follows cleanups {[]} Q)" "\<And>x. Q x \<Longrightarrow> appends (f x) (follows cleanups T Q')" "T \<noteq> {}"
  shows "appends (run_bind m f) (follows cleanups T Q')"
  using follows_bind [OF assms] by simp

lemma follows_bind_log:
  assumes "\<And>x. appends (f x) (follows cleanups T Q')" "T \<noteq> {}"
  shows "appends (run_bind (run_log a) f) (follows cleanups (concs {[a]} T) Q')"
  using follows_bind [OF follows_log, of f T Q' a] assms by blast

end

end
