(* ===== verification/Runner.thy ===== *)
theory Runner
  imports Logged_Run Load_Gen Mock_Upstream Candidate_Proc
begin

text \<open>
  The execution engine of the benchmark (\<open>harness/runner.rs\<close>, \<open>harness/warmup.rs\<close> and
  \<open>Deployer::host_port\<close> of the bench crate): bring up the mock backend and a candidate, warm up and measure
  every combination of the scenario, tear down; the runs over all candidates and the comparison of two
  builds.  What happens outside is an environment \<open>E\<close> over a world of its own: the results of probing a
  port, connecting, launching, generating load and sampling resources.  Every action is logged, so that its
  order is part of the model, and an error ends a run the way \<open>?\<close> does.
\<close>

definition SAMPLE_INTERVAL :: nat where "SAMPLE_INTERVAL = from_millis 100"
definition INTER_RUN_SETTLE :: nat where "INTER_RUN_SETTLE = from_secs 2"

datatype MonitorTarget = Monitor_Process nat | Monitor_System

datatype Deployment =
    Local bytes "nat option"
  | External SocketAddr "nat option"

record RunnerConfig =
  rcfg_warmup :: WarmupProtocol
  rcfg_deployment :: Deployment
  rcfg_upstream_addr :: "SocketAddr option"
  rcfg_upstream_delay_ms :: nat
  rcfg_config_path :: "bytes option"

datatype RunError = Bind_Failed | Mock_Not_Started SocketAddr | Launch_Failed LaunchError | Load_Failed

datatype Action =
    Mock_Start MockUpstreamConfig | Launch LaunchSpec | Sleep nat | Load LoadConfig | Monitor MonitorTarget
  | Stop_Candidate | Mock_Shutdown | Mock_Dropped

record ('h, 'w) Env =
  env_hist :: "'h Hist"
  env_binary_dir :: bytes
  env_probe :: "'w \<Rightarrow> SocketAddr option \<times> 'w"
  env_connect :: "SocketAddr \<Rightarrow> 'w \<Rightarrow> bool \<times> 'w"
  env_launch :: "LaunchSpec \<Rightarrow> 'w \<Rightarrow> (LaunchError + RunningCandidate) \<times> 'w"
  env_load :: "LoadConfig \<Rightarrow> 'h LatencyRecorder \<Rightarrow> 'w \<Rightarrow> (rat \<times> 'h LatencyRecorder) option \<times> 'w"
  env_resources :: "MonitorTarget \<Rightarrow> 'w \<Rightarrow> (rat \<times> rat) \<times> 'w"

type_synonym 'w run_state = "(Action, 'w) log_state"
type_synonym ('w, 'a) run = "(RunError, Action, 'w, 'a) logged"

section \<open>Warm-up\<close>

definition run_load :: "('h, 'w) Env \<Rightarrow> LoadConfig \<Rightarrow> ('w, rat \<times> 'h LatencyRecorder) run" where
  "run_load E cfg =
     run_bind (run_log (Load cfg)) (\<lambda>_.
     run_bind (run_ask (env_load E cfg (recorder_new (env_hist E)))) (\<lambda>r.
       case r of None \<Rightarrow> run_fail Load_Failed | Some x \<Rightarrow> run_return x))"

definition warmup_execute :: "('h, 'w) Env \<Rightarrow> WarmupProtocol \<Rightarrow> Candidate \<Rightarrow> bytes \<Rightarrow> nat \<Rightarrow> ('w, unit) run" where
  "warmup_execute E p candidate target_url target_concurrency =
     run_bind (run_log (Sleep (cold_start p))) (\<lambda>_.
     let warmup_concurrency = max (target_concurrency div 2) 1
     in run_bind (run_load E (load_config_new target_url warmup_concurrency (traffic p))) (\<lambda>_.
        if is_go candidate then run_log (Sleep (gc_settle p)) else run_return ()))"

section \<open>Measuring\<close>

definition window_config :: "ScenarioConfig \<Rightarrow> bytes \<Rightarrow> nat \<Rightarrow> PayloadSize \<Rightarrow> HttpVersion \<Rightarrow> LoadConfig" where
  "window_config scenario base conc payload version =
     (load_config_new (base @ ''/bench?size='' @ show_nat (payload_bytes_of payload)) conc (sc_duration scenario))
       \<lparr>lc_method := ''GET'', lc_payload := None, lc_http_version := version, lc_target_rps := sc_target_rps scenario,
        lc_host_header := ''localhost''\<rparr>"

definition measure_one ::
  "('h, 'w) Env \<Rightarrow> Candidate \<Rightarrow> ScenarioConfig \<Rightarrow> bytes \<Rightarrow> nat \<Rightarrow> PayloadSize \<Rightarrow> HttpVersion \<Rightarrow> MonitorTarget \<Rightarrow>
     ('w, BenchmarkResult) run" where
  "measure_one E candidate scenario base conc payload version target =
     run_bind (run_log (Monitor target)) (\<lambda>_.
     run_bind (run_load E (window_config scenario base conc payload version)) (\<lambda>(elapsed, recorder).
     run_bind (run_ask (env_resources E target)) (\<lambda>(cpu_mean_pct, rss_peak_mb).
       run_return (fst (summarize (env_hist E) (display_name candidate) (sc_name scenario) conc (payload_bytes_of payload)
                          (version_label version) elapsed cpu_mean_pct rss_peak_mb recorder)))))"

definition measure_window ::
  "('h, 'w) Env \<Rightarrow> RunnerConfig \<Rightarrow> Candidate \<Rightarrow> ScenarioConfig \<Rightarrow> bytes \<Rightarrow> MonitorTarget \<Rightarrow> HttpVersion \<Rightarrow> PayloadSize \<Rightarrow> nat \<Rightarrow>
     ('w, BenchmarkResult) run" where
  "measure_window E cfg candidate scenario base target version payload conc =
     run_bind (warmup_execute E (rcfg_warmup cfg) candidate (base @ ''/bench'') conc) (\<lambda>_.
     run_bind (measure_one E candidate scenario base conc payload version target) (\<lambda>result.
     run_bind (run_log (Sleep INTER_RUN_SETTLE)) (\<lambda>_. run_return result)))"

definition measure_all ::
  "('h, 'w) Env \<Rightarrow> RunnerConfig \<Rightarrow> Candidate \<Rightarrow> ScenarioConfig \<Rightarrow> RunningCandidate \<Rightarrow> MonitorTarget \<Rightarrow> ('w, BenchmarkResult list) run" where
  "measure_all E cfg candidate scenario running target =
     run_bind (run_each (\<lambda>version.
       run_bind (run_each (\<lambda>payload.
         run_each (\<lambda>conc. measure_window E cfg candidate scenario (base_url running) target version payload conc)
           (sc_concurrencies scenario)) (sc_payloads scenario)) (\<lambda>rs. run_return (concat rs)))
       (sc_http_versions scenario)) (\<lambda>rs. run_return (concat rs))"

section \<open>Bringing up and tearing down\<close>

fun mock_wait :: "('h, 'w) Env \<Rightarrow> SocketAddr \<Rightarrow> nat \<Rightarrow> ('w, bool) run" where
  "mock_wait E addr 0 = run_return False"
| "mock_wait E addr (Suc n) =
     run_bind (run_ask (env_connect E addr)) (\<lambda>ok.
       if ok then run_return True else run_bind (run_log (Sleep (from_millis 10))) (\<lambda>_. mock_wait E addr n))"

text \<open>\<open>start_mock_upstream\<close>: the address, then the server.  The error path of the second part drops the sending end of the shutdown channel.\<close>

definition mock_addr :: "('h, 'w) Env \<Rightarrow> RunnerConfig \<Rightarrow> ('w, SocketAddr) run" where
  "mock_addr E cfg =
     (case rcfg_upstream_addr cfg of
        Some addr \<Rightarrow> run_return addr
      | None \<Rightarrow> run_bind (run_ask (env_probe E)) (\<lambda>a. case a of None \<Rightarrow> run_fail Bind_Failed | Some addr \<Rightarrow> run_return addr))"

definition await_mock :: "('h, 'w) Env \<Rightarrow> RunnerConfig \<Rightarrow> SocketAddr \<Rightarrow> ('w, SocketAddr) run" where
  "await_mock E cfg addr =
     run_bind (run_log (Mock_Start (mock_config_default\<lparr>mock_listen_addr := show_addr addr, delay_ms := rcfg_upstream_delay_ms cfg\<rparr>))) (\<lambda>_.
     run_bind (mock_wait E addr 200) (\<lambda>ok.
       if ok then run_return addr
       else run_bind (run_log Mock_Dropped) (\<lambda>_. run_fail (Mock_Not_Started addr))))"

definition start_mock_upstream :: "('h, 'w) Env \<Rightarrow> RunnerConfig \<Rightarrow> ('w, SocketAddr) run" where
  "start_mock_upstream E cfg = run_bind (mock_addr E cfg) (await_mock E cfg)"

fun host_port :: "Candidate \<Rightarrow> nat" where
  "host_port Traefik = 8000"
| "host_port Hyper = 8001"
| "host_port Pingora = 8002"
| "host_port Monoio = 8003"

definition launch_spec :: "('h, 'w) Env \<Rightarrow> RunnerConfig \<Rightarrow> Candidate \<Rightarrow> bytes \<Rightarrow> nat option \<Rightarrow> SocketAddr \<Rightarrow> LaunchSpec" where
  "launch_spec E cfg candidate bin_dir nworkers upstream =
     (launch_spec_new (env_binary_dir E) candidate (''127.0.0.1'', default_port candidate) upstream)
       \<lparr>ls_workers := nworkers, ls_binary_dir := bin_dir, ls_config_path := rcfg_config_path cfg\<rparr>"

text \<open>A failed launch leaves \<open>run_candidate\<close> by \<open>?\<close>, which drops the shutdown channel unsent; \<open>k8s\<close> tells
  whether the crate is built with that feature.\<close>

definition bring_up :: "('h, 'w) Env \<Rightarrow> bool \<Rightarrow> RunnerConfig \<Rightarrow> Candidate \<Rightarrow> SocketAddr \<Rightarrow> ('w, RunningCandidate) run" where
  "bring_up E k8s cfg candidate upstream =
     (case rcfg_deployment cfg of
        Local bin_dir nworkers \<Rightarrow>
          (let spec = launch_spec E cfg candidate bin_dir nworkers upstream
           in run_bind (run_log (Launch spec)) (\<lambda>_.
              run_bind (run_ask (env_launch E spec)) (\<lambda>r.
                case r of Inl e \<Rightarrow> run_bind (run_log Mock_Dropped) (\<lambda>_. run_fail (Launch_Failed e))
                        | Inr running \<Rightarrow> run_return running)))
      | External addr pid \<Rightarrow>
          run_return (candidate_external candidate
            (if snd addr = 0 then if k8s then (''127.0.0.1'', host_port candidate) else addr else addr)
            (case pid of Some p \<Rightarrow> p | None \<Rightarrow> 0)))"

definition monitor_target :: "RunningCandidate \<Rightarrow> MonitorTarget" where
  "monitor_target running = (if 0 < rc_pid running then Monitor_Process (rc_pid running) else Monitor_System)"

text \<open>The results are kept while the candidate and the mock are stopped, and returned whatever they are.\<close>

definition tear_down :: "bool \<Rightarrow> (RunError + 'a) \<times> 'w run_state \<Rightarrow> (RunError + 'a) \<times> 'w run_state" where
  "tear_down local r = (case r of (results, (trace, w)) \<Rightarrow>
     (results, (trace @ [Stop_Candidate] @ (if local then [Mock_Shutdown] else []), w)))"

definition is_local :: "RunnerConfig \<Rightarrow> bool" where
  "is_local cfg = (case rcfg_deployment cfg of Local d n \<Rightarrow> True | External a p \<Rightarrow> False)"

definition run_candidate ::
  "('h, 'w) Env \<Rightarrow> bool \<Rightarrow> RunnerConfig \<Rightarrow> Candidate \<Rightarrow> ScenarioConfig \<Rightarrow> ('w, BenchmarkResult list) run" where
  "run_candidate E k8s cfg candidate scenario =
     run_bind (if is_local cfg then start_mock_upstream E cfg
               else run_return (case rcfg_upstream_addr cfg of Some a \<Rightarrow> a | None \<Rightarrow> (''127.0.0.1'', 9090))) (\<lambda>upstream.
     run_bind (bring_up E k8s cfg candidate upstream) (\<lambda>running s.
       tear_down (is_local cfg) (measure_all E cfg candidate scenario running (monitor_target running) s)))"

text \<open>\<open>run_all\<close> keeps going after a failed candidate.\<close>

fun run_all :: "('h, 'w) Env \<Rightarrow> bool \<Rightarrow> RunnerConfig \<Rightarrow> Candidate list \<Rightarrow> ScenarioConfig \<Rightarrow> 'w run_state \<Rightarrow> BenchmarkResult list \<times> 'w run_state" where
  "run_all E k8s cfg [] scenario s = ([], s)"
| "run_all E k8s cfg (c # cs) scenario s =
     (case run_candidate E k8s cfg c scenario s of
        (Inr results, s) \<Rightarrow> (let (rest, s) = run_all E k8s cfg cs scenario s in (results @ rest, s))
      | (Inl e, s) \<Rightarrow> run_all E k8s cfg cs scenario s)"

section \<open>Comparing two builds\<close>

definition labelled :: "Candidate \<Rightarrow> ScenarioConfig \<Rightarrow> bytes \<Rightarrow> BenchmarkResult \<Rightarrow> BenchmarkResult" where
  "labelled candidate scenario label r =
     r\<lparr>br_scenario_name := sc_name scenario @ '' ['' @ label @ '']'', br_candidate_name := display_name candidate @ '' ['' @ label @ '']''\<rparr>"

definition run_pgo_delta :: "('h, 'w) Env \<Rightarrow> bool \<Rightarrow> RunnerConfig \<Rightarrow> Candidate \<Rightarrow> bytes \<Rightarrow> bytes \<Rightarrow> ('w, BenchmarkResult list) run" where
  "run_pgo_delta E k8s cfg candidate standard_dir pgo_dir =
     (let scenario = sc_pgo_delta
      in run_bind (run_each (\<lambda>(label, dir).
           let nworkers = (case rcfg_deployment cfg of Local d n \<Rightarrow> n | External a p \<Rightarrow> None)
           in run_bind (run_candidate E k8s (cfg\<lparr>rcfg_deployment := Local dir nworkers\<rparr>) candidate scenario) (\<lambda>batch.
                run_return (map (labelled candidate scenario label) batch)))
           [(''standard'', standard_dir), (''pgo'', pgo_dir)]) (\<lambda>rs. run_return (concat rs)))"

text \<open>Signed \<open>f64\<close> results: rounding to nearest, ties to even, is symmetric.\<close>

definition f64_signed :: "rat \<Rightarrow> rat" where
  "f64_signed q = (if q < 0 then - f64_round (- q) else f64_round q)"

definition pgo_improvement_pct :: "BenchmarkResult \<Rightarrow> BenchmarkResult \<Rightarrow> rat" where
  "pgo_improvement_pct standard pgo =
     (if br_rps standard \<le> 0 then 0
      else f64_signed (f64_signed (f64_signed (br_rps pgo - br_rps standard) / br_rps standard) * 100))"

definition ends_with :: "bytes \<Rightarrow> bytes \<Rightarrow> bool" where
  "ends_with s t = suffix t s"

definition same_workload :: "BenchmarkResult \<Rightarrow> BenchmarkResult \<Rightarrow> bool" where
  "same_workload s p =
     (br_concurrency p = br_concurrency s \<and> br_payload_bytes p = br_payload_bytes s \<and> br_http_version p = br_http_version s)"

definition pair_pgo_results :: "BenchmarkResult list \<Rightarrow> (BenchmarkResult \<times> BenchmarkResult \<times> rat) list" where
  "pair_pgo_results results =
     (let standard = filter (\<lambda>r. ends_with (br_candidate_name r) ''[standard]'') results;
          pgo = filter (\<lambda>r. ends_with (br_candidate_name r) ''[pgo]'') results
      in List.map_filter (\<lambda>s. map_option (\<lambda>p. (s, p, pgo_improvement_pct s p)) (find (same_workload s) pgo)) standard)"

section \<open>A logic of runs\<close>

text \<open>
  \<open>produces ok m plan Q\<close>: whenever \<open>m\<close> returns a value it has generated exactly the load \<open>plan\<close> and the
  value satisfies \<open>Q\<close>; when it fails it has generated a prefix of the plan; and when \<open>ok\<close> holds it does not fail.
\<close>

definition loads_of :: "Action list \<Rightarrow> LoadConfig list" where
  "loads_of t = List.map_filter (\<lambda>a. case a of Load cfg \<Rightarrow> Some cfg | _ \<Rightarrow> None) t"

definition produces :: "bool \<Rightarrow> ('w, 'a) run \<Rightarrow> LoadConfig list \<Rightarrow> ('a \<Rightarrow> bool) \<Rightarrow> bool" where
  "produces ok m plan Q = (\<forall>s r s'. m s = (r, s') \<longrightarrow>
     (\<exists>t. fst s' = fst s @ t \<and>
        (case r of Inr x \<Rightarrow> loads_of t = plan \<and> Q x | Inl e \<Rightarrow> \<not> ok \<and> prefix (loads_of t) plan)))"

lemma loads_of_simps [simp]:
  "loads_of [] = []" "loads_of (t @ u) = loads_of t @ loads_of u"
  "loads_of (Load cfg # t) = cfg # loads_of t"
  "(\<And>cfg. a \<noteq> Load cfg) \<Longrightarrow> loads_of (a # t) = loads_of t"
  by (simp_all add: loads_of_def map_filter_def split: Action.splits)

lemma producesI:
  assumes "\<And>s r s'. m s = (r, s') \<Longrightarrow> \<exists>t. fst s' = fst s @ t \<and>
    (case r of Inr x \<Rightarrow> loads_of t = plan \<and> Q x | Inl e \<Rightarrow> \<not> ok \<and> prefix (loads_of t) plan)"
  shows "produces ok m plan Q"
  using assms unfolding produces_def by blast

lemma produces_return: "Q x \<Longrightarrow> produces ok (run_return x) [] Q"
  by (auto simp: produces_def run_return_def)

lemma produces_fail: "\<not> ok \<Longrightarrow> produces ok (run_fail e) plan Q"
  by (auto simp: produces_def run_fail_def)

lemma produces_log: "(\<And>cfg. a \<noteq> Load cfg) \<Longrightarrow> produces ok (run_log a) [] (\<lambda>_. True)"
  by (auto simp: produces_def run_log_def)

lemma produces_load: "produces ok (run_log (Load cfg)) [cfg] (\<lambda>_. True)"
  by (auto simp: produces_def run_log_def)

lemma produces_ask: "(\<And>w. Q (fst (f w))) \<Longrightarrow> produces ok (run_ask f) [] Q"
  by (auto simp: produces_def run_ask_def case_prod_beta Let_def)

lemma produces_conseq:
  assumes "produces ok m plan Q" "plan = plan'" "\<And>x. Q x \<Longrightarrow> Q' x"
  shows "produces ok m plan' Q'"
proof (rule producesI)
  fix s r s'
  assume "m s = (r, s')"
  with assms(1) obtain t where "fst s' = fst s @ t"
    "case r of Inr x \<Rightarrow> loads_of t = plan \<and> Q x | Inl e \<Rightarrow> \<not> ok \<and> prefix (loads_of t) plan"
    unfolding produces_def by blast
  then show "\<exists>t. fst s' = fst s @ t \<and> (case r of Inr x \<Rightarrow> loads_of t = plan' \<and> Q' x | Inl e \<Rightarrow> \<not> ok \<and> prefix (loads_of t) plan')"
    using assms(2,3) by (cases r) auto
qed

lemma produces_bind:
  assumes "produces ok m plan Q" "\<And>x. Q x \<Longrightarrow> produces ok (f x) plan' Q'"
  shows "produces ok (run_bind m f) (plan @ plan') Q'"
proof (rule producesI)
  fix s r s'
  assume run: "run_bind m f s = (r, s')"
  obtain r0 s0 where m: "m s = (r0, s0)" by (cases "m s") blast
  obtain t where t: "fst s0 = fst s @ t"
    "case r0 of Inr x \<Rightarrow> loads_of t = plan \<and> Q x | Inl e \<Rightarrow> \<not> ok \<and> prefix (loads_of t) plan"
    using assms(1) m unfolding produces_def by blast
  show "\<exists>t. fst s' = fst s @ t \<and> (case r of Inr x \<Rightarrow> loads_of t = plan @ plan' \<and> Q' x | Inl e \<Rightarrow> \<not> ok \<and> prefix (loads_of t) (plan @ plan'))"
  proof (cases r0)
    case (Inl e)
    then show ?thesis using run m t by (auto simp: run_bind_def)
  next
    case (Inr x)
    then have fx: "f x s0 = (r, s')" and q: "loads_of t = plan" "Q x" using run m t by (simp_all add: run_bind_def)
    obtain u where "fst s' = fst s0 @ u" "case r of Inr y \<Rightarrow> loads_of u = plan' \<and> Q' y | Inl e \<Rightarrow> \<not> ok \<and> prefix (loads_of u) plan'"
      using assms(2) [OF q(2)] fx unfolding produces_def by blast
    then show ?thesis using t(1) q(1) by (intro exI [of _ "t @ u"]) (auto split: sum.splits)
  qed
qed

text \<open>The same rule when only one part generates load.\<close>

lemma produces_bind_left:
  assumes "produces ok m plan Q" "\<And>x. Q x \<Longrightarrow> produces ok (f x) [] Q'"
  shows "produces ok (run_bind m f) plan Q'"
  using produces_bind [OF assms] by simp

lemma produces_bind_right:
  assumes "produces ok m [] Q" "\<And>x. Q x \<Longrightarrow> produces ok (f x) plan Q'"
  shows "produces ok (run_bind m f) plan Q'"
  using produces_bind [OF assms] by simp

lemma produces_each:
  "(\<And>x. x \<in> set xs \<Longrightarrow> produces ok (f x) (plan x) (Q x)) \<Longrightarrow>
     produces ok (run_each f xs) (concat (map plan xs)) (list_all2 Q xs)"
proof (induction xs)
  case (Cons x xs)
  show ?case
    unfolding run_each.simps list.map concat.simps
    by (rule produces_bind [OF Cons.prems], simp, rule produces_bind_left [OF Cons.IH])
      (auto intro: Cons.prems produces_return)
qed (simp add: produces_return)

lemma list_all2_concat:
  "list_all2 (\<lambda>x ys. list_all2 R (K x) ys) xs yss \<Longrightarrow> list_all2 R (concat (map K xs)) (concat yss)"
  by (induction rule: list_all2_induct) (auto intro: list_all2_appendI)

lemma list_all2_map_plan: "list_all2 (\<lambda>x y. R (k x) y) xs ys \<Longrightarrow> list_all2 R (map k xs) ys"
  by (simp add: list_all2_map1)


section \<open>What a run measures\<close>

definition windows :: "ScenarioConfig \<Rightarrow> (HttpVersion \<times> PayloadSize \<times> nat) list" where
  "windows scenario =
     concat (map (\<lambda>v. concat (map (\<lambda>p. map (\<lambda>c. (v, p, c)) (sc_concurrencies scenario)) (sc_payloads scenario))) (sc_http_versions scenario))"

text \<open>The load of one window: the warm-up at half the concurrency, then the measured load.\<close>

definition window_loads :: "RunnerConfig \<Rightarrow> ScenarioConfig \<Rightarrow> bytes \<Rightarrow> HttpVersion \<times> PayloadSize \<times> nat \<Rightarrow> LoadConfig list" where
  "window_loads cfg scenario base = (\<lambda>(v, p, c).
     [load_config_new (base @ ''/bench'') (max (c div 2) 1) (traffic (rcfg_warmup cfg)), window_config scenario base c p v])"

definition describes :: "Candidate \<Rightarrow> ScenarioConfig \<Rightarrow> HttpVersion \<times> PayloadSize \<times> nat \<Rightarrow> BenchmarkResult \<Rightarrow> bool" where
  "describes candidate scenario = (\<lambda>(v, p, c) b.
     br_candidate_name b = display_name candidate \<and> br_scenario_name b = sc_name scenario \<and>
     br_http_version b = version_label v \<and> br_payload_bytes b = payload_bytes_of p \<and> br_concurrency b = c)"

definition env_ok :: "('h, 'w) Env \<Rightarrow> bool" where
  "env_ok E =
     ((\<forall>w. fst (env_probe E w) \<noteq> None) \<and> (\<forall>a w. fst (env_connect E a w)) \<and>
      (\<forall>spec w. \<exists>r. fst (env_launch E spec w) = Inr r) \<and> (\<forall>cfg r w. fst (env_load E cfg r w) \<noteq> None))"

lemma length_windows:
  "length (windows scenario) = length (sc_concurrencies scenario) * length (sc_payloads scenario) * length (sc_http_versions scenario)"
  by (simp add: windows_def length_concat comp_def sum_list_triv)

lemma produces_run_load: "produces (env_ok E) (run_load E cfg) [cfg] (\<lambda>_. True)"
  unfolding run_load_def
proof (rule produces_bind_left [OF produces_load], rule produces_bind_right)
  show "produces (env_ok E) (run_ask (env_load E cfg (recorder_new (env_hist E)))) [] (\<lambda>r. env_ok E \<longrightarrow> r \<noteq> None)"
    by (rule produces_ask) (simp add: env_ok_def)
qed (auto split: option.split intro: produces_fail produces_return)

lemma produces_warmup:
  "produces (env_ok E) (warmup_execute E p c url n) [load_config_new url (max (n div 2) 1) (traffic p)] (\<lambda>_. True)"
  unfolding warmup_execute_def Let_def
  by (rule produces_bind_right [OF produces_log], simp, rule produces_bind_left [OF produces_run_load])
    (auto intro: produces_log produces_return)

lemma produces_measure_one:
  "produces (env_ok E) (measure_one E candidate scenario base c p v target) [window_config scenario base c p v]
     (describes candidate scenario (v, p, c))"
  unfolding measure_one_def
proof (rule produces_bind_right [OF produces_log], simp, rule produces_bind_left [OF produces_run_load], clarsimp)
  fix elapsed recorder
  show "produces (env_ok E) (run_bind (run_ask (env_resources E target)) (\<lambda>(cpu, rss).
      run_return (fst (summarize (env_hist E) (display_name candidate) (sc_name scenario) c (payload_bytes_of p) (version_label v) elapsed cpu rss recorder))))
      [] (describes candidate scenario (v, p, c))"
    by (rule produces_bind_right [OF produces_ask [where Q = "\<lambda>_. True"]])
      (auto intro!: produces_return simp: describes_def summarize_def Let_def)
qed

lemma produces_measure_window:
  "produces (env_ok E) (measure_window E cfg candidate scenario base target v p c) (window_loads cfg scenario base (v, p, c))
     (describes candidate scenario (v, p, c))"
proof -
  have "produces (env_ok E) (measure_window E cfg candidate scenario base target v p c)
      ([load_config_new (base @ ''/bench'') (max (c div 2) 1) (traffic (rcfg_warmup cfg))] @ [window_config scenario base c p v])
      (describes candidate scenario (v, p, c))"
    unfolding measure_window_def
    by (rule produces_bind [OF produces_warmup], rule produces_bind_left [OF produces_measure_one],
        rule produces_bind_right [OF produces_log]) (auto intro: produces_return)
  then show ?thesis by (simp add: window_loads_def)
qed

lemma concat_map_concat: "concat (map f (concat (map g xs))) = concat (map (\<lambda>x. concat (map f (g x))) xs)"
  by (induction xs) simp_all

lemma produces_measure_all:
  "produces (env_ok E) (measure_all E cfg candidate scenario running target)
     (concat (map (window_loads cfg scenario (base_url running)) (windows scenario)))
     (list_all2 (describes candidate scenario) (windows scenario))"
proof -
  let ?b = "base_url running" and ?cs = "sc_concurrencies scenario" and ?ps = "sc_payloads scenario"
  have inner: "produces (env_ok E) (run_each (\<lambda>c. measure_window E cfg candidate scenario ?b target v p c) ?cs)
      (concat (map (window_loads cfg scenario ?b) (map (\<lambda>c. (v, p, c)) ?cs)))
      (list_all2 (describes candidate scenario) (map (\<lambda>c. (v, p, c)) ?cs))" for v p
    by (rule produces_conseq [OF produces_each [OF produces_measure_window]]) (simp_all add: comp_def list_all2_map1)
  have middle: "produces (env_ok E) (run_bind (run_each (\<lambda>p. run_each (\<lambda>c. measure_window E cfg candidate scenario ?b target v p c) ?cs) ?ps)
      (\<lambda>rs. run_return (concat rs)))
      (concat (map (window_loads cfg scenario ?b) (concat (map (\<lambda>p. map (\<lambda>c. (v, p, c)) ?cs) ?ps))))
      (list_all2 (describes candidate scenario) (concat (map (\<lambda>p. map (\<lambda>c. (v, p, c)) ?cs) ?ps)))" for v
    by (rule produces_bind_left [OF produces_conseq [OF produces_each [OF inner]]])
      (auto intro!: produces_return list_all2_concat simp: concat_map_concat)
  show ?thesis
    unfolding measure_all_def windows_def
    by (rule produces_bind_left [OF produces_conseq [OF produces_each [OF middle]]])
      (auto intro!: produces_return list_all2_concat simp: concat_map_concat)
qed


section \<open>What a run of a candidate does\<close>

definition candidate_addr :: "bool \<Rightarrow> RunnerConfig \<Rightarrow> Candidate \<Rightarrow> SocketAddr" where
  "candidate_addr k8s cfg candidate =
     (case rcfg_deployment cfg of
        Local d n \<Rightarrow> (''127.0.0.1'', default_port candidate)
      | External addr pid \<Rightarrow> if snd addr = 0 \<and> k8s then (''127.0.0.1'', host_port candidate) else addr)"

definition planned_loads :: "bool \<Rightarrow> RunnerConfig \<Rightarrow> Candidate \<Rightarrow> ScenarioConfig \<Rightarrow> LoadConfig list" where
  "planned_loads k8s cfg candidate scenario =
     concat (map (window_loads cfg scenario (''http://'' @ show_addr (candidate_addr k8s cfg candidate))) (windows scenario))"

text \<open>A launched candidate listens where it was told to.\<close>

definition launch_listens :: "('h, 'w) Env \<Rightarrow> bool" where
  "launch_listens E = (\<forall>spec w r. fst (env_launch E spec w) = Inr r \<longrightarrow> rc_listen_addr r = ls_listen_addr spec)"

lemma candidate_launch_listens:
  "candidate_launch exists writable temp_dir spawn accepts now spec = Some (Inr r) \<Longrightarrow> rc_listen_addr r = ls_listen_addr spec"
  by (auto simp: candidate_launch_def Let_def split: sum.splits option.splits)

lemma produces_mock_wait: "produces (env_ok E) (mock_wait E addr n) [] (\<lambda>b. env_ok E \<and> 0 < n \<longrightarrow> b)"
proof (induction n)
  case (Suc n)
  show ?case
    unfolding mock_wait.simps
  proof (rule produces_bind_right)
    show "produces (env_ok E) (run_ask (env_connect E addr)) [] (\<lambda>b. env_ok E \<longrightarrow> b)"
      by (rule produces_ask) (unfold env_ok_def, blast)
  next
    fix ok
    assume "env_ok E \<longrightarrow> ok"
    then show "produces (env_ok E) (if ok then run_return True else run_bind (run_log (Sleep (from_millis 10))) (\<lambda>_. mock_wait E addr n)) []
      (\<lambda>b. env_ok E \<and> 0 < Suc n \<longrightarrow> b)"
      by (auto intro!: produces_return produces_bind_right [OF produces_log] produces_conseq [OF Suc.IH])
  qed
qed (simp add: produces_return)

lemma produces_start_mock: "produces (env_ok E) (start_mock_upstream E cfg) [] (\<lambda>_. True)"
  unfolding start_mock_upstream_def
proof (rule produces_bind_right [where Q = "\<lambda>_. True"])
  have "produces (env_ok E) (run_ask (env_probe E)) [] (\<lambda>a. env_ok E \<longrightarrow> a \<noteq> None)"
    by (rule produces_ask) (simp add: env_ok_def)
  then show "produces (env_ok E) (mock_addr E cfg) [] (\<lambda>_. True)"
    unfolding mock_addr_def by (auto split: option.split intro!: produces_return produces_bind_right produces_fail)
next
  fix addr
  show "produces (env_ok E) (await_mock E cfg addr) [] (\<lambda>_. True)"
    unfolding await_mock_def
    by (rule produces_bind_right [OF produces_log], simp, rule produces_bind_right [OF produces_mock_wait])
      (auto intro!: produces_return produces_bind_right [OF produces_log] produces_fail)
qed

lemma produces_bring_up:
  assumes "launch_listens E"
  shows "produces (env_ok E) (bring_up E k8s cfg candidate upstream) [] (\<lambda>r. rc_listen_addr r = candidate_addr k8s cfg candidate)"
proof (cases "rcfg_deployment cfg")
  case (Local d n)
  let ?spec = "launch_spec E cfg candidate d n upstream"
  have "produces (env_ok E) (run_ask (env_launch E ?spec)) []
      (\<lambda>x. case x of Inl e \<Rightarrow> \<not> env_ok E | Inr r \<Rightarrow> rc_listen_addr r = candidate_addr k8s cfg candidate)"
  proof (rule produces_ask)
    fix w
    show "case fst (env_launch E ?spec w) of Inl e \<Rightarrow> \<not> env_ok E | Inr r \<Rightarrow> rc_listen_addr r = candidate_addr k8s cfg candidate"
      using assms Local unfolding launch_listens_def
      by (cases "fst (env_launch E ?spec w)")
        (auto simp: env_ok_def launch_spec_def launch_spec_new_def candidate_addr_def, metis sum.distinct(1))
  qed
  then have "produces (env_ok E) (run_bind (run_ask (env_launch E ?spec)) (\<lambda>r.
      case r of Inl e \<Rightarrow> run_bind (run_log Mock_Dropped) (\<lambda>_. run_fail (Launch_Failed e)) | Inr running \<Rightarrow> run_return running)) []
      (\<lambda>r. rc_listen_addr r = candidate_addr k8s cfg candidate)"
    by (rule produces_bind_right)
      (auto split: sum.splits intro!: produces_return produces_bind_right [OF produces_log] produces_fail)
  then show ?thesis
    unfolding bring_up_def Local Let_def Deployment.case by (rule produces_bind_right [OF produces_log, rotated]) simp
next
  case (External addr pid)
  then show ?thesis
    by (auto simp: bring_up_def candidate_external_def candidate_addr_def intro!: produces_return)
qed

lemma produces_tear_down: "produces ok m plan Q \<Longrightarrow> produces ok (\<lambda>s. tear_down local (m s)) plan Q"
proof (rule producesI)
  fix s r s'
  assume m: "produces ok m plan Q" and run: "tear_down local (m s) = (r, s')"
  obtain s0 where s0: "m s = (r, s0)" "fst s' = fst s0 @ [Stop_Candidate] @ (if local then [Mock_Shutdown] else [])"
    using run by (cases "m s") (auto simp: tear_down_def)
  obtain t where "fst s0 = fst s @ t" "case r of Inr x \<Rightarrow> loads_of t = plan \<and> Q x | Inl e \<Rightarrow> \<not> ok \<and> prefix (loads_of t) plan"
    using m s0(1) unfolding produces_def by blast
  then show "\<exists>t. fst s' = fst s @ t \<and> (case r of Inr x \<Rightarrow> loads_of t = plan \<and> Q x | Inl e \<Rightarrow> \<not> ok \<and> prefix (loads_of t) plan)"
    using s0(2) by (intro exI [of _ "t @ [Stop_Candidate] @ (if local then [Mock_Shutdown] else [])"]) (auto split: sum.splits)
qed

lemma produces_run_candidate:
  assumes "launch_listens E"
  shows "produces (env_ok E) (run_candidate E k8s cfg candidate scenario) (planned_loads k8s cfg candidate scenario)
     (list_all2 (describes candidate scenario) (windows scenario))"
  unfolding run_candidate_def
proof (rule produces_bind_right [where Q = "\<lambda>_. True"])
  show "produces (env_ok E) (if is_local cfg then start_mock_upstream E cfg
      else run_return (case rcfg_upstream_addr cfg of Some a \<Rightarrow> a | None \<Rightarrow> (''127.0.0.1'', 9090))) [] (\<lambda>_. True)"
    by (simp add: produces_start_mock produces_return)
next
  fix upstream
  show "produces (env_ok E) (run_bind (bring_up E k8s cfg candidate upstream) (\<lambda>running s.
       tear_down (is_local cfg) (measure_all E cfg candidate scenario running (monitor_target running) s)))
      (planned_loads k8s cfg candidate scenario) (list_all2 (describes candidate scenario) (windows scenario))"
    by (rule produces_bind_right [OF produces_bring_up [OF assms] produces_tear_down], rule produces_conseq [OF produces_measure_all])
      (simp_all add: planned_loads_def base_url_def)
qed


text \<open>
  A run that gets as far as generating load stops the candidate and then the mock; one that fails earlier
  drops the mock's shutdown channel, or has not started the mock.
\<close>

definition torn_down :: "RunnerConfig \<Rightarrow> Action list \<Rightarrow> bool" where
  "torn_down cfg t = suffix ([Stop_Candidate] @ (if is_local cfg then [Mock_Shutdown] else [])) t"

definition abandoned :: "Action list \<Rightarrow> bool" where
  "abandoned t = (loads_of t = [] \<and> (t = [] \<or> suffix [Mock_Dropped] t))"

lemma mock_wait_returns: "\<exists>x. fst (mock_wait E addr n s) = Inr x"
  by (induction n arbitrary: s) (auto simp: run_return_def run_bind_def run_ask_def run_log_def Let_def split: prod.splits sum.splits)

lemma mock_addr_trace: "mock_addr E cfg s = (r, s') \<Longrightarrow> fst s' = fst s"
  by (auto simp: mock_addr_def run_return_def run_bind_def run_ask_def run_fail_def Let_def split: prod.splits sum.splits option.splits)

lemma await_mock_ends:
  assumes "await_mock E cfg addr s = (Inl e, s')"
  shows "\<exists>t. fst s' = fst s @ t \<and> abandoned t"
  using assms unfolding await_mock_def
proof (elim run_bind_Inl)
  fix x y s1 s2
  assume log: "run_log (Mock_Start (mock_config_default\<lparr>mock_listen_addr := show_addr addr, delay_ms := rcfg_upstream_delay_ms cfg\<rparr>)) s = (Inr x, s1)"
    and wait: "mock_wait E addr 200 s1 = (Inr y, s2)"
    and rest: "(if y then run_return addr else run_bind (run_log Mock_Dropped) (\<lambda>_. run_fail (Mock_Not_Started addr))) s2 = (Inl e, s')"
  obtain u where u: "fst s2 = fst s1 @ u" "loads_of u = []"
    using produces_mock_wait [of E addr 200] wait unfolding produces_def by fastforce
  have "fst s' = fst s2 @ [Mock_Dropped]"
    using rest by (auto simp: run_bind_def run_log_def run_return_def run_fail_def split: if_splits prod.splits)
  then show ?thesis
    using u log
    by (intro exI [of _ "[Mock_Start (mock_config_default\<lparr>mock_listen_addr := show_addr addr, delay_ms := rcfg_upstream_delay_ms cfg\<rparr>)] @ u @ [Mock_Dropped]"])
      (auto simp: run_log_def abandoned_def suffix_def split: prod.splits)
next
  fix x s1
  assume "mock_wait E addr 200 s1 = (Inl e, s')"
  then show ?thesis using mock_wait_returns [of E addr 200 s1] by auto
qed (auto simp: run_log_def split: prod.splits)

lemma start_mock_ends:
  assumes "start_mock_upstream E cfg s = (Inl e, s')"
  shows "\<exists>t. fst s' = fst s @ t \<and> abandoned t"
  using assms unfolding start_mock_upstream_def
proof (elim run_bind_Inl)
  assume "mock_addr E cfg s = (Inl e, s')"
  then show ?thesis by (auto dest: mock_addr_trace simp: abandoned_def)
next
  fix addr s1
  assume "mock_addr E cfg s = (Inr addr, s1)" "await_mock E cfg addr s1 = (Inl e, s')"
  then show ?thesis using await_mock_ends mock_addr_trace by metis
qed

lemma bring_up_ends:
  assumes "bring_up E k8s cfg candidate upstream s = (Inl e, s')"
  shows "\<exists>t. fst s' = fst s @ t \<and> t \<noteq> [] \<and> abandoned t \<and> Mock_Shutdown \<notin> set t"
  using assms
  by (cases "rcfg_deployment cfg")
    (auto simp: bring_up_def run_bind_def run_log_def run_ask_def run_fail_def run_return_def Let_def abandoned_def suffix_def
      split: prod.splits sum.splits)


lemma run_candidate_ends:
  assumes "launch_listens E" "run_candidate E k8s cfg candidate scenario s = (r, s')"
  shows "\<exists>t. fst s' = fst s @ t \<and> (torn_down cfg t \<or> (\<exists>e. r = Inl e) \<and> abandoned t)"
proof -
  let ?m0 = "if is_local cfg then start_mock_upstream E cfg
    else run_return (case rcfg_upstream_addr cfg of Some a \<Rightarrow> a | None \<Rightarrow> (''127.0.0.1'', 9090))"
  obtain r0 s0 where m0: "?m0 s = (r0, s0)" by (cases "?m0 s") blast
  have ext0: "\<exists>t. fst s0 = fst s @ t \<and> (case r0 of Inl e \<Rightarrow> abandoned t | Inr x \<Rightarrow> loads_of t = [])"
  proof (cases r0)
    case (Inl e)
    then show ?thesis using m0 start_mock_ends [of E cfg s e s0] by (auto simp: run_return_def split: if_splits)
  next
    case (Inr x)
    then show ?thesis
      using m0 produces_start_mock [of E cfg] unfolding produces_def
      by (cases "is_local cfg") (fastforce simp: run_return_def)+
  qed
  show ?thesis
  proof (cases r0)
    case (Inl e)
    then show ?thesis using assms(2) m0 ext0 unfolding run_candidate_def by (auto simp: run_bind_def)
  next
    case (Inr upstream)
    then obtain t0 where t0: "fst s0 = fst s @ t0" "loads_of t0 = []" using ext0 by auto
    obtain r1 s1 where m1: "bring_up E k8s cfg candidate upstream s0 = (r1, s1)" by (cases "bring_up E k8s cfg candidate upstream s0") blast
    show ?thesis
    proof (cases r1)
      case (Inl e)
      obtain t1 where "fst s1 = fst s0 @ t1" "t1 \<noteq> []" "abandoned t1" using bring_up_ends m1 Inl by blast
      moreover have "r = Inl e" "s' = s1" using assms(2) m0 m1 Inr Inl unfolding run_candidate_def by (auto simp: run_bind_def)
      ultimately show ?thesis
        using t0 by (intro exI [of _ "t0 @ t1"]) (auto simp: abandoned_def suffix_def)
    next
      case (Inr running)
      obtain t1 where t1: "fst s1 = fst s0 @ t1"
        using produces_bring_up [OF assms(1)] m1 unfolding produces_def by blast
      let ?m = "measure_all E cfg candidate scenario running (monitor_target running) s1"
      obtain t2 where t2: "fst (snd ?m) = fst s1 @ t2"
        using produces_measure_all [of E cfg candidate scenario running "monitor_target running"] unfolding produces_def
        by (metis prod.collapse)
      have "(r, s') = tear_down (is_local cfg) ?m"
        using assms(2) m0 m1 \<open>r0 = Inr upstream\<close> Inr unfolding run_candidate_def by (auto simp: run_bind_def)
      then have "fst s' = fst (snd ?m) @ [Stop_Candidate] @ (if is_local cfg then [Mock_Shutdown] else [])"
        by (auto simp: tear_down_def case_prod_beta)
      then show ?thesis
        using t0 t1 t2 by (intro exI [of _ "t0 @ t1 @ t2 @ [Stop_Candidate] @ (if is_local cfg then [Mock_Shutdown] else [])"])
          (auto simp: torn_down_def suffix_def)
    qed
  qed
qed

text \<open>
  C22: what running a candidate does.  A successful run returns one result per combination of HTTP version,
  payload and concurrency, in that order, each labelled with its combination, and has generated for each
  a warm-up at half the concurrency followed by the measured load, against the candidate's own address
  and with the payload size in the URL.  A failed run has generated a prefix of that load; with an
  environment in which every operation succeeds the run does not fail.  In the end the candidate
  and then the mock have been stopped, unless the run failed before it generated any load.
\<close>

theorem run_candidate_correct:
  assumes "launch_listens E" "length (windows scenario) < 2 ^ 64"
    and "run_candidate E k8s cfg candidate scenario (trace, w) = (r, (trace', w'))"
  shows "\<exists>t. trace' = trace @ t \<and>
    (case r of
       Inr rs \<Rightarrow> length rs = measurement_count scenario \<and> list_all2 (describes candidate scenario) (windows scenario) rs \<and>
                 loads_of t = planned_loads k8s cfg candidate scenario \<and> torn_down cfg t
     | Inl e \<Rightarrow> \<not> env_ok E \<and> prefix (loads_of t) (planned_loads k8s cfg candidate scenario) \<and> (torn_down cfg t \<or> abandoned t))"
proof -
  obtain t where t: "trace' = trace @ t"
    "case r of Inr rs \<Rightarrow> loads_of t = planned_loads k8s cfg candidate scenario \<and> list_all2 (describes candidate scenario) (windows scenario) rs
     | Inl e \<Rightarrow> \<not> env_ok E \<and> prefix (loads_of t) (planned_loads k8s cfg candidate scenario)"
    using produces_run_candidate [OF assms(1)] assms(3) unfolding produces_def by fastforce
  have "measurement_count scenario = length (windows scenario)"
    unfolding measurement_count_def length_windows [symmetric] by (rule mod_less [OF assms(2)])
  then show ?thesis
    using t run_candidate_ends [OF assms(1,3)] by (cases r) (auto dest: list_all2_lengthD)
qed

text \<open>
  C34: a candidate that cannot be launched leaves its mock backend behind.  The run returns the launch
  error without sending the shutdown, and the mock whose shutdown channel was dropped that way never
  returns: after any events it serves on, with its wait for the channel ready at once, so its loop spins.
\<close>

theorem failed_launch_leaves_mock:
  assumes "rcfg_deployment cfg = Local dir nworkers" "start_mock_upstream E cfg s = (Inr upstream, s1)"
    and "fst (env_launch E (launch_spec E cfg candidate dir nworkers upstream) (snd s1)) = Inl e"
    and "run_candidate E k8s cfg candidate scenario s = (r, s')"
  shows "r = Inl (Launch_Failed e) \<and>
    fst s' = fst s1 @ [Launch (launch_spec E cfg candidate dir nworkers upstream), Mock_Dropped] \<and>
    (\<exists>w. snd (mock_loop evs (watch_drop watch_channel)) = Some w \<and> changed_ready w \<and> mock_round Mock_Changed w \<noteq> None)"
proof -
  have "bring_up E k8s cfg candidate upstream s1 =
      (Inl (Launch_Failed e), (fst s1 @ [Launch (launch_spec E cfg candidate dir nworkers upstream), Mock_Dropped],
        snd (env_launch E (launch_spec E cfg candidate dir nworkers upstream) (snd s1))))"
    using assms(3) by (cases s1) (simp add: bring_up_def assms(1) Let_def run_bind_def run_log_def run_ask_def run_fail_def case_prod_beta)
  then have "run_candidate E k8s cfg candidate scenario s =
      (Inl (Launch_Failed e), (fst s1 @ [Launch (launch_spec E cfg candidate dir nworkers upstream), Mock_Dropped],
        snd (env_launch E (launch_spec E cfg candidate dir nworkers upstream) (snd s1))))"
    using assms(1,2) by (simp add: run_candidate_def is_local_def run_bind_def)
  with assms(4) mock_loop_spins [of evs "snd (mock_loop evs (watch_drop watch_channel))"] show ?thesis by auto
qed


section \<open>Pairing the results of two builds\<close>

lemma windows_pgo_delta:
  "windows sc_pgo_delta = [(Http11, Small1Kb, 100), (Http11, Small1Kb, 1000), (Http11, Small1Kb, 5000),
     (Http11, Medium64Kb, 100), (Http11, Medium64Kb, 1000), (Http11, Medium64Kb, 5000)]"
  by (simp add: windows_def sc_pgo_delta_def)

definition workload :: "BenchmarkResult \<Rightarrow> bytes \<times> nat \<times> nat" where
  "workload b = (br_http_version b, br_payload_bytes b, br_concurrency b)"

lemma same_workload_iff: "same_workload s p \<longleftrightarrow> workload s = workload p"
  by (auto simp: same_workload_def workload_def)

lemma list_all2_same_workload: "list_all2 same_workload ss ps \<longleftrightarrow> map workload ss = map workload ps"
proof -
  have "list_all2 same_workload ss ps \<longleftrightarrow> list_all2 (=) (map workload ss) (map workload ps)"
    by (simp add: list_all2_map1 list_all2_map2 same_workload_iff [abs_def])
  then show ?thesis by (simp add: list.rel_eq)
qed

lemma find_workload:
  "distinct (map workload ps) \<Longrightarrow> p \<in> set ps \<Longrightarrow> workload s = workload p \<Longrightarrow> find (same_workload s) ps = Some p"
  by (induction ps) (auto simp: same_workload_iff, metis image_eqI)

lemma pair_distinct_workloads:
  assumes "map workload ss = map workload ps" "distinct (map workload ps)"
    and "\<And>s. s \<in> set ss \<Longrightarrow> ends_with (br_candidate_name s) ''[standard]'' \<and> \<not> ends_with (br_candidate_name s) ''[pgo]''"
    and "\<And>p. p \<in> set ps \<Longrightarrow> ends_with (br_candidate_name p) ''[pgo]'' \<and> \<not> ends_with (br_candidate_name p) ''[standard]''"
  shows "pair_pgo_results (ss @ ps) = map2 (\<lambda>s p. (s, p, pgo_improvement_pct s p)) ss ps"
proof -
  have sel: "filter (\<lambda>r. ends_with (br_candidate_name r) ''[standard]'') (ss @ ps) = ss"
    "filter (\<lambda>r. ends_with (br_candidate_name r) ''[pgo]'') (ss @ ps) = ps"
    using assms(3,4) by (auto simp: filter_id_conv filter_empty_conv)
  have "List.map_filter (\<lambda>s. map_option (\<lambda>p. (s, p, pgo_improvement_pct s p)) (find (same_workload s) ps)) ss' =
      map2 (\<lambda>s p. (s, p, pgo_improvement_pct s p)) ss' ps'"
    if "map workload ss' = map workload ps'" "set ps' \<subseteq> set ps" for ss' ps'
    using that
  proof (induction ss' arbitrary: ps')
    case (Cons s ss')
    then obtain p qs where p: "ps' = p # qs" "workload s = workload p" "map workload ss' = map workload qs" by auto
    then have "find (same_workload s) ps = Some p" using Cons.prems(2) find_workload [OF assms(2)] by simp
    then show ?case
      using Cons.IH [of qs] Cons.prems(2) p by (simp add: map_filter_simps)
  qed (simp add: map_filter_simps)
  then show ?thesis unfolding pair_pgo_results_def sel Let_def using assms(1) by blast
qed

lemma labelled_ends:
  "ends_with (br_candidate_name (labelled c scen ''standard'' b)) ''[standard]''"
  "\<not> ends_with (br_candidate_name (labelled c scen ''standard'' b)) ''[pgo]''"
  "ends_with (br_candidate_name (labelled c scen ''pgo'' b)) ''[pgo]''"
  "\<not> ends_with (br_candidate_name (labelled c scen ''pgo'' b)) ''[standard]''"
  by (cases c; simp add: labelled_def ends_with_def suffix_to_prefix)+

lemma workload_labelled [simp]: "workload (labelled c scen l b) = workload b"
  by (simp add: workload_def labelled_def)

lemma describes_workloads:
  "list_all2 (describes c scen) ws rs \<Longrightarrow> map workload rs = map (\<lambda>(v, p, n). (version_label v, payload_bytes_of p, n)) ws"
  by (induction rule: list_all2_induct) (auto simp: describes_def workload_def)

lemma produces_pgo_delta:
  assumes "launch_listens E"
  shows "\<exists>plan. produces (env_ok E) (run_pgo_delta E k8s cfg candidate standard_dir pgo_dir) plan
    (\<lambda>results. \<exists>bs cs. results = map (labelled candidate sc_pgo_delta ''standard'') bs @ map (labelled candidate sc_pgo_delta ''pgo'') cs \<and>
      list_all2 (describes candidate sc_pgo_delta) (windows sc_pgo_delta) bs \<and> list_all2 (describes candidate sc_pgo_delta) (windows sc_pgo_delta) cs)"
proof -
  define run1 where "run1 = (\<lambda>(label, dir). run_bind (run_candidate E k8s
      (cfg\<lparr>rcfg_deployment := Local dir (case rcfg_deployment cfg of Local d n \<Rightarrow> n | External a p \<Rightarrow> None)\<rparr>) candidate sc_pgo_delta) (\<lambda>batch.
        run_return (map (labelled candidate sc_pgo_delta label) batch)))"
  define plan where "plan = (\<lambda>ld :: bytes \<times> bytes. planned_loads k8s
      (cfg\<lparr>rcfg_deployment := Local (snd ld) (case rcfg_deployment cfg of Local d n \<Rightarrow> n | External a p \<Rightarrow> None)\<rparr>) candidate sc_pgo_delta)"
  define R where "R = (\<lambda>(ld :: bytes \<times> bytes) rs. \<exists>bs. rs = map (labelled candidate sc_pgo_delta (fst ld)) bs \<and>
      list_all2 (describes candidate sc_pgo_delta) (windows sc_pgo_delta) bs)"
  have "produces (env_ok E) (run1 ld) (plan ld) (R ld)" for ld :: "bytes \<times> bytes"
    unfolding run1_def plan_def R_def case_prod_beta
    by (rule produces_bind_left [OF produces_run_candidate [OF assms]]) (auto intro: produces_return)
  then have "produces (env_ok E) (run_each run1 lds) (concat (map plan lds)) (list_all2 R lds)" for lds
    by (intro produces_each)
  note both = this [of "[(''standard'', standard_dir), (''pgo'', pgo_dir)]"]
  have "produces (env_ok E) (run_pgo_delta E k8s cfg candidate standard_dir pgo_dir) (concat (map plan [(''standard'', standard_dir), (''pgo'', pgo_dir)]))
    (\<lambda>results. \<exists>bs cs. results = map (labelled candidate sc_pgo_delta ''standard'') bs @ map (labelled candidate sc_pgo_delta ''pgo'') cs \<and>
      list_all2 (describes candidate sc_pgo_delta) (windows sc_pgo_delta) bs \<and> list_all2 (describes candidate sc_pgo_delta) (windows sc_pgo_delta) cs)"
    unfolding run_pgo_delta_def Let_def run1_def [symmetric]
  proof (rule produces_bind_left [OF both], rule produces_return)
    fix rss
    assume "list_all2 R [(''standard'', standard_dir), (''pgo'', pgo_dir)] rss"
    then obtain r1 r2 where "rss = [r1, r2]" "R (''standard'', standard_dir) r1" "R (''pgo'', pgo_dir) r2"
      unfolding list_all2_Cons1 list_all2_Nil by auto
    then show "\<exists>bs cs. concat rss = map (labelled candidate sc_pgo_delta ''standard'') bs @ map (labelled candidate sc_pgo_delta ''pgo'') cs \<and>
      list_all2 (describes candidate sc_pgo_delta) (windows sc_pgo_delta) bs \<and> list_all2 (describes candidate sc_pgo_delta) (windows sc_pgo_delta) cs"
      unfolding R_def by auto
  qed
  then show ?thesis by blast
qed

text \<open>
  the comparison of two builds.  When the run over the standard and the optimised build succeeds, its
  results are the six windows of the one followed by those of the other, and the report pairs each window
  of the standard build with the same window of the optimised one, with the relative change of the
  throughput in percent.
\<close>

theorem pgo_delta_paired:
  assumes "launch_listens E" "run_pgo_delta E k8s cfg candidate standard_dir pgo_dir s = (Inr results, s')"
  shows "\<exists>ss ps. results = ss @ ps \<and> length ss = 6 \<and> length ps = 6 \<and>
    pair_pgo_results results = map2 (\<lambda>s p. (s, p, pgo_improvement_pct s p)) ss ps \<and>
    list_all2 same_workload ss ps \<and>
    (\<forall>b \<in> set ss. br_candidate_name b = display_name candidate @ '' [standard]'') \<and>
    (\<forall>b \<in> set ps. br_candidate_name b = display_name candidate @ '' [pgo]'')"
proof -
  obtain bs cs where bs: "results = map (labelled candidate sc_pgo_delta ''standard'') bs @ map (labelled candidate sc_pgo_delta ''pgo'') cs"
    "list_all2 (describes candidate sc_pgo_delta) (windows sc_pgo_delta) bs" "list_all2 (describes candidate sc_pgo_delta) (windows sc_pgo_delta) cs"
    using produces_pgo_delta [OF assms(1)] assms(2) unfolding produces_def by fastforce
  let ?ss = "map (labelled candidate sc_pgo_delta ''standard'') bs" and ?ps = "map (labelled candidate sc_pgo_delta ''pgo'') cs"
  have wl: "map workload ?ss = map workload ?ps" "distinct (map workload ?ps)"
    using describes_workloads [OF bs(2)] describes_workloads [OF bs(3)] by (simp_all add: comp_def windows_pgo_delta)
  have len: "length bs = 6" "length cs = 6" using bs(2,3) by (auto dest!: list_all2_lengthD simp: windows_pgo_delta)
  have pairs: "pair_pgo_results results = map2 (\<lambda>s p. (s, p, pgo_improvement_pct s p)) ?ss ?ps"
    unfolding bs(1) by (rule pair_distinct_workloads [OF wl]) (auto simp: labelled_ends)
  have "list_all2 same_workload ?ss ?ps"
    using wl(1) by (simp only: list_all2_same_workload)
  then show ?thesis
    using bs(1) len pairs by (intro exI [of _ ?ss] exI [of _ ?ps]) (simp add: labelled_def)
qed


section \<open>An example environment\<close>

definition example_env :: "(nat list, unit) Env" where
  "example_env =
     \<lparr>env_hist = list_hist, env_binary_dir = ''target/release'', env_probe = (\<lambda>w. (Some (''127.0.0.1'', 40000), w)),
      env_connect = (\<lambda>a w. (True, w)),
      env_launch = (\<lambda>spec w. (Inr \<lparr>rc_candidate = ls_candidate spec, rc_listen_addr = ls_listen_addr spec, rc_pid = 7, rc_child = True\<rparr>, w)),
      env_load = (\<lambda>cfg r w. (Some (1, r), w)), env_resources = (\<lambda>t w. ((0, 0), w))\<rparr>"

definition example_config :: RunnerConfig where
  "example_config = \<lparr>rcfg_warmup = warmup_quick, rcfg_deployment = Local ''target/release'' None, rcfg_upstream_addr = Some (''127.0.0.1'', 9090),
     rcfg_upstream_delay_ms = 0, rcfg_config_path = None\<rparr>"

lemma example_env_ok: "env_ok example_env" "launch_listens example_env"
  by (simp_all add: env_ok_def launch_listens_def example_env_def)

theorem run_candidate_correct_witness:
  "\<exists>rs t w. run_candidate example_env False example_config Hyper sc_quick ([], ()) = (Inr rs, (t, w)) \<and> length rs = 2 \<and>
     map br_concurrency rs = [50, 200] \<and> length (loads_of t) = 4 \<and> suffix [Stop_Candidate, Mock_Shutdown] t"
proof -
  obtain r t w where run: "run_candidate example_env False example_config Hyper sc_quick ([], ()) = (r, (t, w))"
    by (cases "run_candidate example_env False example_config Hyper sc_quick ([], ())") auto
  have ws: "windows sc_quick = [(Http11, Small1Kb, 50), (Http11, Small1Kb, 200)]" by (simp add: windows_def sc_quick_def)
  then have small: "length (windows sc_quick) < 2 ^ 64" by simp
  have plan: "length (planned_loads False example_config Hyper sc_quick) = 4"
    by (simp add: planned_loads_def ws window_loads_def)
  note correct = run_candidate_correct [OF example_env_ok(2) small run]
  then obtain rs where r: "r = Inr rs" using example_env_ok(1) by (cases r) auto
  have facts: "list_all2 (describes Hyper sc_quick) (windows sc_quick) rs" "loads_of t = planned_loads False example_config Hyper sc_quick"
    "torn_down example_config t"
    using correct unfolding r by auto
  have "length rs = 2" "map br_concurrency rs = [50, 200]"
    using facts(1) unfolding ws list_all2_Cons1 list_all2_Nil by (auto simp: describes_def)
  then show ?thesis
    using run facts plan unfolding r by (auto simp: torn_down_def is_local_def example_config_def)
qed

lemma mock_wait_at_once:
  "fst (env_connect E addr w) \<Longrightarrow> mock_wait E addr (Suc n) (t, w) = (Inr True, (t, snd (env_connect E addr w)))"
  by (simp add: run_bind_def run_ask_def run_return_def case_prod_beta)

theorem failed_launch_leaves_mock_witness:
  "\<exists>s'. run_candidate (example_env\<lparr>env_launch := \<lambda>spec w. (Inl Spawn_Failed, w)\<rparr>) False example_config Hyper sc_quick ([], ())
     = (Inl (Launch_Failed Spawn_Failed), s') \<and> last (fst s') = Mock_Dropped \<and>
     snd (mock_loop [Mock_Changed, Mock_Accept True, Mock_Changed] (watch_drop watch_channel)) \<noteq> None"
proof -
  let ?E = "example_env\<lparr>env_launch := \<lambda>spec w. (Inl Spawn_Failed, w)\<rparr>"
  have local: "rcfg_deployment example_config = Local ''target/release'' None" by (simp add: example_config_def)
  have wait: "mock_wait ?E addr 200 (t, w) = (Inr True, (t, w))" for addr t w
    using mock_wait_at_once [of ?E addr w 199 t] by (simp add: example_env_def)
  obtain s1 where mock: "start_mock_upstream ?E example_config ([], ()) = (Inr (''127.0.0.1'', 9090), s1)"
    by (simp add: start_mock_upstream_def mock_addr_def await_mock_def example_config_def run_bind_def run_return_def run_log_def wait)
  obtain r s' where run: "run_candidate ?E False example_config Hyper sc_quick ([], ()) = (r, s')"
    by (cases "run_candidate ?E False example_config Hyper sc_quick ([], ())") blast
  have "fst (env_launch ?E (launch_spec ?E example_config Hyper ''target/release'' None (''127.0.0.1'', 9090)) (snd s1)) = Inl Spawn_Failed" by simp
  from failed_launch_leaves_mock [OF local mock this run, of "[Mock_Changed, Mock_Accept True, Mock_Changed]"] run
  show ?thesis by auto
qed

theorem pgo_delta_paired_witness:
  "\<exists>results s'. run_pgo_delta example_env False example_config Pingora ''std'' ''opt'' ([], ()) = (Inr results, s') \<and>
     length (pair_pgo_results results) = 6"
proof -
  obtain r s' where run: "run_pgo_delta example_env False example_config Pingora ''std'' ''opt'' ([], ()) = (r, s')"
    by (cases "run_pgo_delta example_env False example_config Pingora ''std'' ''opt'' ([], ())") blast
  obtain results where r: "r = Inr results"
    using produces_pgo_delta [OF example_env_ok(2)] run example_env_ok(1) unfolding produces_def by (cases r) fastforce+
  have "length (pair_pgo_results results) = 6"
    using pgo_delta_paired [OF example_env_ok(2) run [unfolded r]] by auto
  with run show ?thesis unfolding r by blast
qed

end
