(* ===== verification/Hardware.thy ===== *)
theory Hardware
  imports Rust_Str
begin

text \<open>
  The environment snapshot of the bench crate (\<open>metrics/hardware.rs\<close>): the time stamp computed from the
  Unix epoch, the version probes and the target description.  What the probed tools print and what the
  build enables are arguments.  Years, months and days are \<open>i64\<close> in the code, which no date of a \<open>u64\<close>
  number of seconds exceeds; here they are unbounded integers.
\<close>

section \<open>Time stamps\<close>

definition civil_from_days :: "int \<Rightarrow> int \<times> int \<times> int" where
  "civil_from_days days =
     (let z = days + 719468;
          era = z div 146097;
          doe = z mod 146097;
          yoe = (doe - doe div 1460 + doe div 36524 - doe div 146096) div 365;
          y = yoe + era * 400;
          doy = doe - (365 * yoe + yoe div 4 - yoe div 100);
          mp = (5 * doy + 2) div 153;
          d = doy - (153 * mp + 2) div 5 + 1;
          m = (if mp < 10 then mp + 3 else mp - 9);
          y = (if m \<le> 2 then y + 1 else y)
      in (y, m, d))"

definition pad_zeros :: "nat \<Rightarrow> nat \<Rightarrow> bytes" where
  "pad_zeros width n = (let s = show_nat n in replicate (width - length s) (CHR ''0'') @ s)"

definition iso_text :: "int \<times> int \<times> int \<Rightarrow> nat \<Rightarrow> nat \<Rightarrow> nat \<Rightarrow> bytes" where
  "iso_text date hour minute second = (case date of (y, m, d) \<Rightarrow>
     pad_zeros 4 (nat y) @ ''-'' @ pad_zeros 2 (nat m) @ ''-'' @ pad_zeros 2 (nat d) @ ''T'' @
     pad_zeros 2 hour @ '':'' @ pad_zeros 2 minute @ '':'' @ pad_zeros 2 second @ ''Z'')"

definition format_iso8601 :: "nat \<Rightarrow> bytes" where
  "format_iso8601 unix_secs =
     (let days = int (unix_secs div 86400);
          rem = unix_secs mod 86400
      in iso_text (civil_from_days days) (rem div 3600) ((rem mod 3600) div 60) (rem mod 60))"

section \<open>Probes\<close>

text \<open>\<open>str::lines\<close>, the first one: up to a line feed, without a carriage return before it.\<close>

definition first_line :: "bytes \<Rightarrow> bytes option" where
  "first_line s =
     (if s = [] then None
      else let l = takeWhile (\<lambda>c. c \<noteq> CHR 0x0A) s
           in Some (if length l < length s \<and> l \<noteq> [] \<and> last l = CHR 0x0D then butlast l else l))"

text \<open>\<open>output\<close> is what running the tool gives: whether it succeeded and its standard output, valid UTF-8 or not.\<close>

definition tool_version :: "(bool \<times> bytes option) option \<Rightarrow> bytes" where
  "tool_version output =
     (case output of
        Some (True, Some text) \<Rightarrow>
          (case first_line text of
             Some l \<Rightarrow> (let s = str_trim l in if s \<noteq> [] then s else ''not installed'')
           | None \<Rightarrow> ''not installed'')
      | _ \<Rightarrow> ''not installed'')"

definition detect_target_cpu :: "bytes \<Rightarrow> (bytes \<Rightarrow> bool) \<Rightarrow> bytes" where
  "detect_target_cpu arch enabled =
     (let features = filter enabled
            (if arch = ''x86_64'' then [''avx512f'', ''avx2'', ''sse4.2''] else if arch = ''aarch64'' then [''neon'', ''sve''] else [])
      in if features = [] then arch else arch @ '' ('' @ join '', '' features @ '')'')"

section \<open>The calendar\<close>

definition leap :: "int \<Rightarrow> bool" where
  "leap y = (4 dvd y \<and> (\<not> 100 dvd y \<or> 400 dvd y))"

definition month_days :: "int \<Rightarrow> int \<Rightarrow> int" where
  "month_days y m =
     (if m = 2 then (if leap y then 29 else 28) else if m \<in> {4, 6, 9, 11} then 30 else 31)"

definition next_day :: "int \<times> int \<times> int \<Rightarrow> int \<times> int \<times> int" where
  "next_day date = (case date of (y, m, d) \<Rightarrow>
     if d < month_days y m then (y, m, d + 1) else if m < 12 then (y, m + 1, 1) else (y + 1, 1, 1))"

text \<open>
  The days counted from March: a year of the 400-year era starts at \<open>year_start\<close>, and a day of it has the
  month and day of \<open>march_date\<close>.
\<close>

definition year_start :: "int \<Rightarrow> int" where
  "year_start y = 365 * y + y div 4 - y div 100"

definition year_len :: "int \<Rightarrow> int" where
  "year_len y = (if leap (y + 1) then 366 else 365)"

definition yoe_of :: "int \<Rightarrow> int" where
  "yoe_of doe = (doe - doe div 1460 + doe div 36524 - doe div 146096) div 365"

definition march_date :: "int \<Rightarrow> int \<times> int" where
  "march_date doy =
     (let mp = (5 * doy + 2) div 153 in (if mp < 10 then mp + 3 else mp - 9, doy - (153 * mp + 2) div 5 + 1))"

definition date_at :: "int \<Rightarrow> int \<Rightarrow> int \<Rightarrow> int \<times> int \<times> int" where
  "date_at era y doy = (case march_date doy of (m, d) \<Rightarrow> (y + era * 400 + (if m \<le> 2 then 1 else 0), m, d))"

lemma yoe_numerator_step:
  fixes a :: int
  shows "a - a div 1460 + a div 36524 - a div 146096 \<le> (a + 1) - (a + 1) div 1460 + (a + 1) div 36524 - (a + 1) div 146096"
proof -
  define p where "p = a div 36524"
  define q where "q = (a + 1) div 36524"
  have step: "(a + 1) div k \<le> a div k + 1" if "0 < k" for k :: int
  proof -
    have "(a + 1) div k \<le> (a + k) div k" using that by (intro zdiv_mono1) simp_all
    also have "\<dots> = a div k + 1" using that by (intro div_add_self2) simp
    finally show ?thesis .
  qed
  have four: "x div 146096 = x div 36524 div 4" for x :: int
    using zdiv_zmult2_eq [of 4 x 36524] by simp
  have "p \<le> q" "q \<le> p + 1" using step [of 36524] by (simp_all add: p_def q_def zdiv_mono1)
  then have "q = p \<or> q = p + 1" by linarith
  moreover have "(p + 1) div 4 \<le> p div 4 + 1" by linarith
  ultimately have "q div 4 - p div 4 \<le> q - p" by auto
  with step [of 1460] show ?thesis unfolding four p_def [symmetric] q_def [symmetric] by linarith
qed

lemma yoe_of_mono: "a \<le> b \<Longrightarrow> yoe_of a \<le> yoe_of b"
proof (induction b rule: int_ge_induct)
  case (step i)
  have "yoe_of i \<le> yoe_of (i + 1)"
    unfolding yoe_of_def by (rule zdiv_mono1 [OF yoe_numerator_step]) simp
  with step show ?case by simp
qed simp

lemma year_bounds_check:
  "list_all (\<lambda>y. 0 \<le> year_start y \<and> year_start y + year_len y \<le> 146097 \<and>
     yoe_of (year_start y) = y \<and> yoe_of (year_start y + year_len y - 1) = y \<and>
     year_start (y + 1) = year_start y + (if y = 399 then 365 else year_len y)) [0..399]"
  by code_simp

lemma march_check:
  "list_all (\<lambda>doy. case march_date doy of (m, d) \<Rightarrow> march_date (doy + 1) =
     (if m = 2 then (if d = 28 then (2, 29) else (2, d + 1))
      else if d < (if m \<in> {4, 6, 9, 11} then 30 else 31) then (m, d + 1) else if m < 12 then (m + 1, 1) else (1, 1))
     \<and> 1 \<le> m \<and> m \<le> 12 \<and> (m = 2 \<longrightarrow> d \<le> 28 \<and> (d = 28 \<longrightarrow> doy = 364))) [0..364]"
  by code_simp

lemma year_bounds:
  assumes "0 \<le> y" "y \<le> 399"
  shows "0 \<le> year_start y" "year_start y + year_len y \<le> 146097" "yoe_of (year_start y) = y"
    "yoe_of (year_start y + year_len y - 1) = y" "year_start (y + 1) = year_start y + (if y = 399 then 365 else year_len y)"
proof -
  have "y \<in> set [0..399]" using assms by simp
  then show "0 \<le> year_start y" "year_start y + year_len y \<le> 146097" "yoe_of (year_start y) = y"
    "yoe_of (year_start y + year_len y - 1) = y" "year_start (y + 1) = year_start y + (if y = 399 then 365 else year_len y)"
    using year_bounds_check unfolding list_all_iff by blast+
qed

text \<open>The algorithm finds the year of the era and the day of the year.\<close>

lemma civil_at:
  assumes "0 \<le> y" "y \<le> 399" "0 \<le> doy" "doy < year_len y" "days + 719468 = 146097 * era + year_start y + doy"
  shows "civil_from_days days = date_at era y doy"
proof -
  note b = year_bounds [OF assms(1,2)]
  have doe: "0 \<le> year_start y + doy" "year_start y + doy < 146097" using b(1,2) assms(3,4) by simp_all
  have z: "(days + 719468) div 146097 = era" "(days + 719468) mod 146097 = year_start y + doy"
    using doe assms(5) by (auto intro!: int_div_pos_eq int_mod_pos_eq)
  have "yoe_of (year_start y) \<le> yoe_of (year_start y + doy)" "yoe_of (year_start y + doy) \<le> yoe_of (year_start y + year_len y - 1)"
    using assms(3,4) by (auto intro!: yoe_of_mono)
  then have yoe: "yoe_of (year_start y + doy) = y" using b(3,4) by simp
  have doy: "year_start y + doy - (365 * y + y div 4 - y div 100) = doy" by (simp add: year_start_def)
  show ?thesis
    unfolding civil_from_days_def Let_def z yoe_of_def [symmetric] yoe doy
    by (simp add: date_at_def march_date_def Let_def)
qed

lemma leap_era: "leap (y + era * 400) = leap y"
proof -
  have "(4 :: int) dvd y + era * 400 \<longleftrightarrow> 4 dvd y" "(100 :: int) dvd y + era * 400 \<longleftrightarrow> 100 dvd y" "(400 :: int) dvd y + era * 400 \<longleftrightarrow> 400 dvd y"
    by (simp_all add: dvd_add_left_iff)
  then show ?thesis by (simp add: leap_def)
qed

lemma march_step:
  assumes "0 \<le> doy" "doy \<le> 364" "march_date doy = (m, d)"
  shows "march_date (doy + 1) = (if m = 2 then (if d = 28 then (2, 29) else (2, d + 1))
      else if d < (if m \<in> {4, 6, 9, 11} then 30 else 31) then (m, d + 1) else if m < 12 then (m + 1, 1) else (1, 1))"
    and "1 \<le> m" "m \<le> 12" "m = 2 \<Longrightarrow> d \<le> 28" "m = 2 \<Longrightarrow> d = 28 \<Longrightarrow> doy = 364"
proof -
  have "doy \<in> set [0..364]" using assms(1,2) by simp
  then show "march_date (doy + 1) = (if m = 2 then (if d = 28 then (2, 29) else (2, d + 1))
      else if d < (if m \<in> {4, 6, 9, 11} then 30 else 31) then (m, d + 1) else if m < 12 then (m + 1, 1) else (1, 1))"
    "1 \<le> m" "m \<le> 12" "m = 2 \<Longrightarrow> d \<le> 28" "m = 2 \<Longrightarrow> d = 28 \<Longrightarrow> doy = 364"
    using march_check assms(3) unfolding list_all_iff by fastforce+
qed

lemma march_february: "march_date 364 = (2, 28)" "march_date 365 = (2, 29)" "march_date 0 = (3, 1)"
  by code_simp+

text \<open>The next day of the count from March is the next day of the calendar.\<close>

lemma date_step:
  assumes "0 \<le> doy" "doy + 1 < year_len y"
  shows "date_at era y (doy + 1) = next_day (date_at era y doy)"
proof -
  obtain m d where md: "march_date doy = (m, d)" by fastforce
  have doy: "doy \<le> 364" using assms(2) by (simp add: year_len_def split: if_splits)
  note step = march_step [OF assms(1) doy md]
  have leap: "leap (y + era * 400 + 1) = leap (y + 1)" using leap_era [of "y + 1" era] by (simp add: ac_simps)
  show ?thesis
  proof (cases "m = 2")
    case True
    have "d = 28 \<Longrightarrow> leap (y + 1)" "d \<noteq> 28 \<Longrightarrow> d < 28"
      using step(4,5) True assms(2) by (auto simp: year_len_def split: if_splits)
    then show ?thesis
      using step(1) True md leap by (auto simp: date_at_def next_day_def month_days_def)
  next
    case False
    then show ?thesis
      using step md by (auto simp: date_at_def next_day_def month_days_def)
  qed
qed

lemma date_wrap:
  assumes "doy = year_len y - 1"
  shows "date_at (if y = 399 then era + 1 else era) (if y = 399 then 0 else y + 1) 0 = next_day (date_at era y doy)"
proof -
  have leap: "leap (y + era * 400 + 1) = leap (y + 1)" using leap_era [of "y + 1" era] by (simp add: ac_simps)
  show ?thesis
    using assms leap by (auto simp: date_at_def next_day_def month_days_def march_february year_len_def algebra_simps split: if_splits)
qed


lemma civil_iterates:
  "civil_from_days (int n) = (next_day ^^ n) (1970, 1, 1) \<and>
   (\<exists>era y doy. 0 \<le> y \<and> y \<le> 399 \<and> 0 \<le> doy \<and> doy < year_len y \<and> int n + 719468 = 146097 * era + year_start y + doy)"
proof (induction n)
  case 0
  have "(0 :: int) \<le> 369" "(369 :: int) \<le> 399" "(0 :: int) \<le> 306" "306 < year_len 369" "int 0 + 719468 = 146097 * 4 + year_start 369 + 306"
    by (code_simp, code_simp, code_simp, code_simp, code_simp)
  moreover have "civil_from_days (int 0) = (next_day ^^ 0) (1970, 1, 1)" by code_simp
  ultimately show ?case by blast
next
  case (Suc n)
  then obtain era y doy where p: "0 \<le> y" "y \<le> 399" "0 \<le> doy" "doy < year_len y" "int n + 719468 = 146097 * era + year_start y + doy" by blast
  have here: "(next_day ^^ n) (1970, 1, 1) = date_at era y doy" using Suc civil_at [OF p] by simp
  define era' y' doy' where "era' = (if doy + 1 < year_len y \<or> y < 399 then era else era + 1)"
    and "y' = (if doy + 1 < year_len y then y else if y < 399 then y + 1 else 0)"
    and "doy' = (if doy + 1 < year_len y then doy + 1 else 0)"
  have pos: "0 < year_len k" for k by (simp add: year_len_def)
  have len399: "year_len 399 = 366" "year_start 399 = 145731" "year_start 0 = 0" by code_simp+
  have sum: "int (Suc n) + 719468 = 146097 * era' + year_start y' + doy'"
  proof (cases "doy + 1 < year_len y")
    case False
    then have last: "doy = year_len y - 1" using p(4) by simp
    show ?thesis
    proof (cases "y = 399")
      case True
      with p(5) last len399 show ?thesis by (simp add: era'_def y'_def doy'_def)
    next
      case not: False
      then show ?thesis using p last year_bounds(5) [OF p(1,2)] by (simp add: era'_def y'_def doy'_def)
    qed
  qed (use p(5) in \<open>simp add: era'_def y'_def doy'_def\<close>)
  have range: "0 \<le> y'" "y' \<le> 399" "0 \<le> doy'" "doy' < year_len y'"
    using p pos by (auto simp: y'_def doy'_def)
  have "date_at era' y' doy' = next_day (date_at era y doy)"
  proof (cases "doy + 1 < year_len y")
    case True
    then show ?thesis using date_step [OF p(3)] by (simp add: era'_def y'_def doy'_def)
  next
    case False
    then have "doy = year_len y - 1" using p(4) by simp
    from date_wrap [OF this, of era] False p(2) show ?thesis by (cases "y = 399") (simp_all add: era'_def y'_def doy'_def)
  qed
  then have "civil_from_days (int (Suc n)) = (next_day ^^ Suc n) (1970, 1, 1)"
    using civil_at [OF range sum] here by simp
  with range sum show ?case by blast
qed

text \<open>
  the time stamp of a report is the date and time of its second: the date is the one that counting the
  days forward from 1 January 1970 with the Gregorian month lengths gives, for every second after the
  epoch, followed by the hour, minute and second of the day.
\<close>

theorem format_iso8601_correct:
  "format_iso8601 s = iso_text ((next_day ^^ (s div 86400)) (1970, 1, 1)) (s div 3600 mod 24) (s div 60 mod 60) (s mod 60)"
proof -
  have mult: "a mod (b * c) div b = a div b mod c" if "0 < b" for a b c :: nat
    unfolding mod_mult2_eq using that by simp
  have "s mod 86400 div 3600 = s div 3600 mod 24" "s mod 3600 div 60 = s div 60 mod 60"
    using mult [of 3600 s 24] mult [of 60 s 60] by simp_all
  moreover have "s mod 86400 mod 3600 = s mod 3600" "s mod 86400 mod 60 = s mod 60"
    by (simp_all add: mod_mod_cancel)
  ultimately show ?thesis using civil_iterates [of "s div 86400"] by (simp add: format_iso8601_def Let_def)
qed

end
