(* ===== verification/System_Limits.thy ===== *)
theory System_Limits
  imports Rust_Str F64
begin

text \<open>
  The check of the system limits (\<open>harness/preflight.rs\<close> of the bench crate): one check per limit, their
  evaluation for a number of connections, the search for the largest supported number and the report.
  The operating system is an argument: the descriptor limit, what \<open>sysctl -n\<close> prints for a name when it
  succeeds, and the content of the Linux port-range file.  \<open>u64\<close> values are natural numbers here: the
  products stay below \<open>2^64\<close> for fewer than \<open>2^56\<close> connections.
\<close>

datatype Severity = Sev_Ok | Sev_Tight | Sev_Blocking

record Check =
  chk_name :: bytes
  chk_current :: nat
  chk_required :: nat
  chk_severity :: Severity
  chk_remedy :: "bytes option"
  chk_consequence :: bytes

definition check_new :: "bytes \<Rightarrow> nat \<Rightarrow> nat \<Rightarrow> bytes \<Rightarrow> bytes option \<Rightarrow> Check" where
  "check_new name current required consequence remedy =
     \<lparr>chk_name = name, chk_current = current, chk_required = required,
      chk_severity = (if required \<le> current then Sev_Ok else if required * 80 \<le> current * 100 then Sev_Tight else Sev_Blocking),
      chk_remedy = remedy, chk_consequence = consequence\<rparr>"

definition is_blocking :: "Check \<Rightarrow> bool" where
  "is_blocking c = (chk_severity c = Sev_Blocking)"

record Preflight =
  pf_concurrency :: nat
  pf_checks :: "Check list"

section \<open>Reading the limits\<close>

record System =
  sys_rlimit_nofile :: nat
  sys_sysctl :: "bytes \<Rightarrow> bytes option"
  sys_port_range_file :: "bytes option"

definition sysctl_u64 :: "System \<Rightarrow> bytes \<Rightarrow> nat option" where
  "sysctl_u64 S name = (case sys_sysctl S name of None \<Rightarrow> None | Some out \<Rightarrow> parse_uint 64 (str_trim out))"

text \<open>The next word of \<open>split_whitespace\<close> and what follows it.\<close>

fun token_len :: "bytes \<Rightarrow> nat" where
  "token_len [] = 0"
| "token_len (c # cs) = (if list_ex (\<lambda>p. prefix p (c # cs)) unicode_ws then 0 else Suc (token_len cs))"

definition next_word :: "bytes \<Rightarrow> bytes option \<times> bytes" where
  "next_word s =
     (let s = strip_front unicode_ws s; n = token_len s
      in (if s = [] then None else Some (take n s), drop n s))"

definition ephemeral_range :: "System \<Rightarrow> nat option \<times> nat option" where
  "ephemeral_range S =
     (case (sysctl_u64 S ''net.inet.ip.portrange.first'', sysctl_u64 S ''net.inet.ip.portrange.last'') of
        (Some lowest, Some highest) \<Rightarrow> (Some lowest, Some highest)
      | _ \<Rightarrow>
        (case sys_port_range_file S of
           Some text \<Rightarrow>
             (let (a, rest) = next_word text; (b, rest') = next_word rest
              in (Option.bind a (parse_uint 64), Option.bind b (parse_uint 64)))
         | None \<Rightarrow> (None, None)))"

text \<open>\<open>u64::next_power_of_two\<close>.\<close>

function pow2_from :: "nat \<Rightarrow> nat \<Rightarrow> nat" where
  "pow2_from n p = (if p < n \<and> 0 < p then pow2_from n (2 * p) else p)"
  by pat_completeness auto
termination
  by (relation "measure (\<lambda>(n, p). n - p)") auto

declare pow2_from.simps [simp del]

definition next_power_of_two :: "nat \<Rightarrow> nat" where
  "next_power_of_two n = pow2_from n 1"

section \<open>Evaluation\<close>

definition total_sockets :: "nat \<Rightarrow> rat \<Rightarrow> nat" where
  "total_sockets conn multiplier = f64_to_u64 (f64_mul (f64_of_nat conn) (f64_add 2 (f64_mul multiplier 2)))"

definition ephemeral_needed :: "nat \<Rightarrow> rat \<Rightarrow> nat" where
  "ephemeral_needed conn multiplier = f64_to_u64 (f64_mul (f64_of_nat conn) (f64_add 1 multiplier))"

definition somaxconn_needed :: "nat \<Rightarrow> nat" where
  "somaxconn_needed conn = min (max (conn div 8) 128) 8192"

definition evaluate :: "System \<Rightarrow> nat \<Rightarrow> rat \<Rightarrow> Preflight" where
  "evaluate S conn multiplier =
     \<lparr>pf_concurrency = conn,
      pf_checks =
        [check_new ''open files (ulimit -n)'' (sys_rlimit_nofile S) (conn * 2 + 1024)
           ''the generator cannot open all its connections and reports a lower concurrency than requested''
           (Some (''ulimit -n '' @ show_nat (max (conn * 4) 65536)))]
        @ (case sysctl_u64 S ''kern.maxfilesperproc'' of None \<Rightarrow> [] | Some maxfiles \<Rightarrow>
            [check_new ''kern.maxfilesperproc'' maxfiles (conn * 2 + 1024)
               ''caps `ulimit -n` regardless of the shell setting''
               (Some (''sudo sysctl -w kern.maxfilesperproc='' @ show_nat (max (conn * 4) 65536)))])
        @ (case sysctl_u64 S ''kern.maxfiles'' of None \<Rightarrow> [] | Some maxfiles \<Rightarrow>
            [check_new ''kern.maxfiles'' maxfiles (total_sockets conn multiplier + 8192)
               ''system-wide descriptor exhaustion affects every process, not just the benchmark''
               (Some (''sudo sysctl -w kern.maxfiles='' @ show_nat (max (total_sockets conn multiplier * 2) 131072)))])
        @ (case sysctl_u64 S ''kern.ipc.somaxconn'' of None \<Rightarrow> [] | Some somaxconn \<Rightarrow>
            [check_new ''kern.ipc.somaxconn'' somaxconn (somaxconn_needed conn)
               ''SYN queue overflows during the connection ramp; the TCP retries land in the histogram as seconds-long outliers''
               (Some (''sudo sysctl -w kern.ipc.somaxconn='' @ show_nat (max (next_power_of_two (somaxconn_needed conn)) 2048)))])
        @ (case ephemeral_range S of
             (Some lowest, Some highest) \<Rightarrow>
               [check_new ''ephemeral port range'' (highest - lowest + 1) (ephemeral_needed conn multiplier + 4096)
                  ''connections fail with EADDRNOTAVAIL partway through the ramp; the run measures whatever fraction of the target it managed to open''
                  (Some (''sudo sysctl -w net.inet.ip.portrange.first=16384  # macOS'' @ [CHR 0x0A] @
                         ''# Linux: sudo sysctl -w net.ipv4.ip_local_port_range='' @ [CHR 0x27] @ ''10000 65535'' @ [CHR 0x27]))]
           | _ \<Rightarrow> [])
        @ (case sysctl_u64 S ''net.inet.tcp.msl'' of None \<Rightarrow> [] | Some msl_ms \<Rightarrow>
            (let tw_seconds = (msl_ms * 2) div 1000
             in [check_new ''TIME_WAIT drain (2*MSL, s)'' (if tw_seconds = 0 then 60 else 60 div tw_seconds) 2
                   ''ports from the previous window are still held when the next one starts, so later sweeps run with less port space than earlier ones''
                   (Some ''sudo sysctl -w net.inet.tcp.msl=1000'')]))\<rparr>"

definition blocking :: "Preflight \<Rightarrow> Check list" where
  "blocking p = filter is_blocking (pf_checks p)"

section \<open>The largest supported number\<close>

function search :: "System \<Rightarrow> rat \<Rightarrow> nat \<Rightarrow> nat \<Rightarrow> nat" where
  "search S multiplier lo hi =
     (if lo < hi
      then let mid = (lo + hi + 1) div 2
           in if blocking (evaluate S mid multiplier) = [] then search S multiplier mid hi else search S multiplier lo (mid - 1)
      else lo)"
  by pat_completeness auto
termination
  by (relation "measure (\<lambda>(S, m, lo, hi). hi - lo)") auto

declare search.simps [simp del]

definition max_supported :: "System \<Rightarrow> rat \<Rightarrow> nat" where
  "max_supported S multiplier =
     (if blocking (evaluate S 1 multiplier) \<noteq> [] then 0 else search S multiplier 1 200000)"

section \<open>The report\<close>

definition pad_right :: "nat \<Rightarrow> bytes \<Rightarrow> bytes" where
  "pad_right n s = s @ replicate (n - length s) (CHR '' '')"

definition pad_left :: "nat \<Rightarrow> bytes \<Rightarrow> bytes" where
  "pad_left n s = replicate (n - length s) (CHR '' '') @ s"

definition check_display :: "Check \<Rightarrow> bytes" where
  "check_display c =
     (let mark = (case chk_severity c of Sev_Ok \<Rightarrow> ''ok  '' | Sev_Tight \<Rightarrow> ''TIGHT'' | Sev_Blocking \<Rightarrow> ''BLOCK'')
      in ''['' @ mark @ ''] '' @ pad_right 26 (chk_name c) @ '' have '' @ pad_left 7 (show_nat (chk_current c)) @
         ''  need '' @ pad_left 7 (show_nat (chk_required c)))"

definition report :: "Preflight \<Rightarrow> bytes" where
  "report p =
     (let nl = [CHR 0x0A];
          out = ''System preflight for '' @ show_nat (pf_concurrency p) @ '' concurrent connections'' @ nl @ nl;
          out = out @ concat (map (\<lambda>c. ''  '' @ check_display c @ nl) (pf_checks p));
          blk = blocking p
      in if blk = [] then out @ nl @ ''  All limits have headroom.'' @ nl
         else out @ nl @ ''  BLOCKING '' @ [CHR 0xE2, CHR 0x80, CHR 0x94] @ '' this run would not reach the requested concurrency:'' @ nl @
              concat (map (\<lambda>c. nl @ ''  * '' @ chk_name c @ nl @ ''    '' @ chk_consequence c @ nl @
                 (case chk_remedy c of None \<Rightarrow> [] | Some remedy \<Rightarrow> concat (map (\<lambda>l. ''      '' @ l @ nl) (lines_of remedy)))) blk))"

section \<open>The search\<close>

definition fits :: "nat \<Rightarrow> nat \<Rightarrow> bool" where
  "fits current required = (required * 80 \<le> current * 100)"

lemma fits_less: "fits current r \<Longrightarrow> r' \<le> r \<Longrightarrow> fits current r'"
  by (simp add: fits_def)

lemma is_blocking_check: "is_blocking (check_new n current required x y) \<longleftrightarrow> \<not> fits current required"
  by (simp add: is_blocking_def check_new_def fits_def)

lemma supported_iff:
  "blocking (evaluate S c m) = [] \<longleftrightarrow>
     fits (sys_rlimit_nofile S) (c * 2 + 1024) \<and>
     (\<forall>x. sysctl_u64 S ''kern.maxfilesperproc'' = Some x \<longrightarrow> fits x (c * 2 + 1024)) \<and>
     (\<forall>x. sysctl_u64 S ''kern.maxfiles'' = Some x \<longrightarrow> fits x (total_sockets c m + 8192)) \<and>
     (\<forall>x. sysctl_u64 S ''kern.ipc.somaxconn'' = Some x \<longrightarrow> fits x (somaxconn_needed c)) \<and>
     (\<forall>a b. ephemeral_range S = (Some a, Some b) \<longrightarrow> fits (b - a + 1) (ephemeral_needed c m + 4096)) \<and>
     (\<forall>x. sysctl_u64 S ''net.inet.tcp.msl'' = Some x \<longrightarrow> fits (if x * 2 div 1000 = 0 then 60 else 60 div (x * 2 div 1000)) 2)"
proof -
  have one: "filter is_blocking [check_new n x r a b] = [] \<longleftrightarrow> fits x r" for n x r a b
    by (simp add: is_blocking_check)
  have opt: "filter is_blocking (case_option [] f v) = [] \<longleftrightarrow> (\<forall>x. v = Some x \<longrightarrow> filter is_blocking (f x) = [])" for v :: "nat option" and f
    by (cases v) simp_all
  have range: "filter is_blocking (case p of (Some u, Some v) \<Rightarrow> f u v | _ \<Rightarrow> []) = [] \<longleftrightarrow>
      (\<forall>u v. p = (Some u, Some v) \<longrightarrow> filter is_blocking (f u v) = [])" for p :: "nat option \<times> nat option" and f
    by (cases p; cases "fst p"; cases "snd p") auto
  show ?thesis
    unfolding blocking_def evaluate_def Preflight.select_convs filter_append append_is_Nil_conv Let_def opt range one ..
qed

lemma f64_to_u64_mono: "q \<le> r \<Longrightarrow> f64_to_u64 q \<le> f64_to_u64 r"
  unfolding f64_to_u64_def by (intro min.mono nat_mono floor_mono) simp_all

lemma f64_scale_mono: "c \<le> c' \<Longrightarrow> 0 \<le> k \<Longrightarrow> f64_to_u64 (f64_mul (f64_of_nat c) k) \<le> f64_to_u64 (f64_mul (f64_of_nat c') k)"
  unfolding f64_mul_def f64_of_nat_def
  by (intro f64_to_u64_mono f64_round_mono mult_right_mono) simp_all

lemma supported_less:
  assumes "blocking (evaluate S c' m) = []" "c \<le> c'"
  shows "blocking (evaluate S c m) = []"
proof -
  have "total_sockets c m \<le> total_sockets c' m" "ephemeral_needed c m \<le> ephemeral_needed c' m"
    using assms(2) unfolding total_sockets_def ephemeral_needed_def f64_add_def by (auto intro: f64_scale_mono)
  moreover have "somaxconn_needed c \<le> somaxconn_needed c'"
    unfolding somaxconn_needed_def by (intro min.mono max.mono div_le_mono assms(2)) simp_all
  ultimately show ?thesis
    using assms unfolding supported_iff by (auto elim!: fits_less)
qed

lemma search_correct:
  assumes "blocking (evaluate S lo m) = []" "lo \<le> hi"
  shows "lo \<le> search S m lo hi \<and> search S m lo hi \<le> hi \<and> blocking (evaluate S (search S m lo hi) m) = [] \<and>
    (\<forall>c. search S m lo hi < c \<and> c \<le> hi \<longrightarrow> blocking (evaluate S c m) \<noteq> [])"
  using assms
proof (induction S m lo hi rule: search.induct)
  case (1 S m lo hi)
  show ?case
  proof (cases "lo < hi")
    case True
    define mid where "mid = (lo + hi + 1) div 2"
    have mid: "lo < mid" "mid \<le> hi" using True by (auto simp: mid_def)
    have unf: "search S m lo hi = (if blocking (evaluate S mid m) = [] then search S m mid hi else search S m lo (mid - 1))"
      using True by (subst search.simps) (simp only: if_True Let_def mid_def)
    show ?thesis
    proof (cases "blocking (evaluate S mid m) = []")
      case ok: True
      have eq: "search S m lo hi = search S m mid hi" unfolding unf using ok by (rule if_P)
      have "mid \<le> search S m mid hi" using 1(1) [OF True mid_def ok ok mid(2)] by blast
      then have "lo \<le> search S m mid hi" using mid(1) by linarith
      then show ?thesis unfolding eq using 1(1) [OF True mid_def ok ok mid(2)] by blast
    next
      case bad: False
      have eq: "search S m lo hi = search S m lo (mid - 1)" unfolding unf using bad by (rule if_not_P)
      have le: "lo \<le> mid - 1" using mid(1) by linarith
      note IH = 1(2) [OF True mid_def bad 1(3) le]
      have "search S m lo (mid - 1) \<le> mid - 1" using IH by blast
      then have "search S m lo (mid - 1) \<le> hi" using mid by linarith
      moreover have "blocking (evaluate S c m) \<noteq> []" if "search S m lo (mid - 1) < c" "c \<le> hi" for c
      proof (cases "mid \<le> c")
        case True
        then show ?thesis using bad supported_less by blast
      next
        case False
        then have "c \<le> mid - 1" by linarith
        then show ?thesis using IH that(1) by blast
      qed
      ultimately show ?thesis unfolding eq using IH by blast
    qed
  next
    case False
    then have "search S m lo hi = lo" by (subst search.simps) (rule if_not_P)
    then show ?thesis using 1(3,4) False by auto
  qed
qed



definition example_system :: System where
  "example_system = \<lparr>sys_rlimit_nofile = 10240, sys_sysctl = (\<lambda>_. None), sys_port_range_file = None\<rparr>"


end
