(* ===== verification/Report.thy ===== *)
theory Report
  imports Latency Rust_Str
begin

text \<open>
  The CSV export of a run (\<open>report/csv.rs\<close> of the bench crate).  \<open>fmt k q\<close> is the text of \<open>{:.k}\<close> for a floating point number \<open>q\<close>, a parameter: all
  that is used of it is that it consists of digits, a sign and a decimal point (\<open>decimal\<close>).
\<close>

definition CSV_HEADER :: bytes where
  "CSV_HEADER = ''candidate,scenario,concurrency,payload_bytes,http_version,'' @
     ''total_requests,successful,failed,error_responses,bytes_received,duration_s,rps,throughput_mib_s,'' @
     ''p50_us,p90_us,p95_us,p99_us,p999_us,p9999_us,max_us,mean_us,stdev_us,'' @
     ''co_p99_us,co_p999_us,cpu_pct,rss_mb''"

definition quote :: byte where "quote = CHR 0x22"

definition csv_escape :: "bytes \<Rightarrow> bytes" where
  "csv_escape field =
     (if CHR '','' \<in> set field \<or> quote \<in> set field \<or> CHR 0x0A \<in> set field
      then [quote] @ concat (map (\<lambda>c. if c = quote then [quote, quote] else [c]) field) @ [quote]
      else field)"

definition show_u64 :: "u64 \<Rightarrow> bytes" where
  "show_u64 w = show_nat (unat w)"

text \<open>The columns of a row, before the three texts among them are escaped.\<close>

definition csv_columns :: "(nat \<Rightarrow> rat \<Rightarrow> bytes) \<Rightarrow> BenchmarkResult \<Rightarrow> bytes list" where
  "csv_columns fmt r =
     [br_candidate_name r, br_scenario_name r, show_nat (br_concurrency r), show_nat (br_payload_bytes r), br_http_version r,
      show_u64 (br_total_requests r), show_u64 (br_successful_requests r), show_u64 (br_failed_requests r),
      show_u64 (br_error_responses r), show_u64 (br_bytes_received r), fmt 4 (br_duration_secs r), fmt 2 (br_rps r),
      fmt 4 (br_throughput_mib_s r), show_u64 (br_latency_p50_us r), show_u64 (br_latency_p90_us r), show_u64 (br_latency_p95_us r),
      show_u64 (br_latency_p99_us r), show_u64 (br_latency_p999_us r), show_u64 (br_latency_p9999_us r), show_u64 (br_latency_max_us r),
      fmt 2 (br_latency_mean_us r), fmt 2 (br_latency_stdev_us r), show_u64 (br_co_corrected_p99_us r),
      show_u64 (br_co_corrected_p999_us r), fmt 2 (br_cpu_usage_pct r), fmt 2 (br_rss_memory_mb r)]"

definition csv_row :: "(nat \<Rightarrow> rat \<Rightarrow> bytes) \<Rightarrow> BenchmarkResult \<Rightarrow> bytes" where
  "csv_row fmt r =
     (let cs = csv_columns fmt r
      in join '','' (cs[0 := csv_escape (cs ! 0), 1 := csv_escape (cs ! 1), 4 := csv_escape (cs ! 4)]) @ [CHR 0x0A])"

definition export_csv :: "(nat \<Rightarrow> rat \<Rightarrow> bytes) \<Rightarrow> BenchmarkResult list \<Rightarrow> bytes" where
  "export_csv fmt results = CSV_HEADER @ [CHR 0x0A] @ concat (map (csv_row fmt) results)"

section \<open>Reading CSV\<close>

text \<open>A reader of the quoting rules of RFC 4180, with a line feed at the end of every record.\<close>

datatype CsvMode = Field_Start | In_Plain | In_Quoted | After_Quote

fun csv_read :: "CsvMode \<Rightarrow> bytes \<Rightarrow> bytes list \<Rightarrow> bytes \<Rightarrow> bytes list list" where
  "csv_read mode f r [] = []"
| "csv_read mode f r (c # cs) =
     (case mode of
        Field_Start \<Rightarrow>
          if c = quote then csv_read In_Quoted [] r cs
          else if c = CHR '','' then csv_read Field_Start [] (r @ [[]]) cs
          else if c = CHR 0x0A then (r @ [[]]) # csv_read Field_Start [] [] cs
          else csv_read In_Plain [c] r cs
      | In_Plain \<Rightarrow>
          if c = CHR '','' then csv_read Field_Start [] (r @ [f]) cs
          else if c = CHR 0x0A then (r @ [f]) # csv_read Field_Start [] [] cs
          else csv_read In_Plain (f @ [c]) r cs
      | In_Quoted \<Rightarrow>
          if c = quote then csv_read After_Quote f r cs else csv_read In_Quoted (f @ [c]) r cs
      | After_Quote \<Rightarrow>
          if c = quote then csv_read In_Quoted (f @ [quote]) r cs
          else if c = CHR '','' then csv_read Field_Start [] (r @ [f]) cs
          else if c = CHR 0x0A then (r @ [f]) # csv_read Field_Start [] [] cs
          else csv_read In_Plain (f @ [c]) r cs)"

definition parse_csv :: "bytes \<Rightarrow> bytes list list" where
  "parse_csv text = csv_read Field_Start [] [] text"

definition plain_field :: "bytes \<Rightarrow> bool" where
  "plain_field f = (CHR '','' \<notin> set f \<and> quote \<notin> set f \<and> CHR 0x0A \<notin> set f)"

text \<open>What the reader does at the end of a field.\<close>

definition field_end :: "byte \<Rightarrow> bytes \<Rightarrow> bytes list \<Rightarrow> bytes \<Rightarrow> bytes list list" where
  "field_end c f r rest =
     (if c = CHR '','' then csv_read Field_Start [] (r @ [f]) rest else (r @ [f]) # csv_read Field_Start [] [] rest)"

lemma csv_chars: "quote \<noteq> CHR '',''" "quote \<noteq> CHR 0x0A" "CHR '','' \<noteq> quote" "CHR 0x0A \<noteq> quote"
  by (simp_all add: quote_def)

lemma read_plain:
  assumes "c = CHR '','' \<or> c = CHR 0x0A" "plain_field g"
  shows "csv_read In_Plain f r (g @ c # rest) = field_end c (f @ g) r rest"
  using assms(2)
proof (induction g arbitrary: f)
  case Nil
  then show ?case using assms(1) by (auto simp: field_end_def)
next
  case (Cons x g)
  then show ?case by (auto simp: plain_field_def)
qed

lemma read_quoted:
  assumes "c = CHR '','' \<or> c = CHR 0x0A"
  shows "csv_read In_Quoted f r (concat (map (\<lambda>x. if x = quote then [quote, quote] else [x]) g) @ quote # c # rest)
    = field_end c (f @ g) r rest"
proof (induction g arbitrary: f)
  case Nil
  then show ?case using assms csv_chars by (auto simp: field_end_def)
next
  case (Cons x g)
  then show ?case by simp
qed

lemma read_escaped:
  assumes "c = CHR '','' \<or> c = CHR 0x0A"
  shows "csv_read Field_Start [] r (csv_escape g @ c # rest) = field_end c g r rest"
proof (cases "plain_field g")
  case True
  then have esc: "csv_escape g = g" by (simp add: csv_escape_def plain_field_def)
  show ?thesis
  proof (cases g)
    case Nil
    then show ?thesis using assms csv_chars esc by (auto simp: field_end_def)
  next
    case (Cons x xs)
    then show ?thesis
      using True read_plain [OF assms, of xs "[x]" r rest] unfolding esc by (auto simp: plain_field_def)
  qed
next
  case False
  then have "csv_escape g @ c # rest = quote # concat (map (\<lambda>x. if x = quote then [quote, quote] else [x]) g) @ quote # c # rest"
    by (simp add: csv_escape_def plain_field_def)
  then show ?thesis using read_quoted [OF assms, of "[]" r g rest] by simp
qed

lemma read_record:
  "fs \<noteq> [] \<Longrightarrow> csv_read Field_Start [] r (join '','' (map csv_escape fs) @ [CHR 0x0A] @ rest) = (r @ fs) # csv_read Field_Start [] [] rest"
proof (induction fs arbitrary: r)
  case (Cons f fs)
  show ?case
  proof (cases fs)
    case Nil
    then show ?thesis using read_escaped [of "CHR 0x0A" r f rest] by (simp add: field_end_def)
  next
    case (Cons g gs)
    then have "join '','' (map csv_escape (f # fs)) @ [CHR 0x0A] @ rest =
        csv_escape f @ CHR '','' # (join '','' (map csv_escape fs) @ [CHR 0x0A] @ rest)" by simp
    then show ?thesis
      using read_escaped [of "CHR '',''" r f] Cons.IH [of "r @ [f]"] Cons by (simp add: field_end_def)
  qed
qed simp

section \<open>The export reads back\<close>

definition decimal :: "bytes \<Rightarrow> bool" where
  "decimal t = list_all (\<lambda>c. is_digit c \<or> c = CHR ''.'' \<or> c = CHR ''-'') t"

lemma decimal_plain: "decimal t \<Longrightarrow> csv_escape t = t"
proof -
  assume "decimal t"
  then have "CHR '','' \<notin> set t" "quote \<notin> set t" "CHR 0x0A \<notin> set t"
    by (auto simp: decimal_def list_all_iff quote_def is_digit_def)
  then show ?thesis by (simp add: csv_escape_def)
qed

lemma digits_decimal: "decimal (show_nat n)" "decimal (show_u64 w)"
  using show_nat_digits by (auto simp: decimal_def show_u64_def list_all_iff)

lemma csv_row_escaped:
  assumes "\<forall>k q. decimal (fmt k q)"
  shows "csv_row fmt r = join '','' (map csv_escape (csv_columns fmt r)) @ [CHR 0x0A]"
  using assms by (simp add: csv_row_def csv_columns_def Let_def decimal_plain digits_decimal numeral_eq_Suc)

lemma csv_rows_read:
  assumes "\<forall>k q. decimal (fmt k q)"
  shows "csv_read Field_Start [] [] (concat (map (csv_row fmt) rs)) = map (csv_columns fmt) rs"
proof (induction rs)
  case (Cons r rs)
  have "csv_columns fmt r \<noteq> []" by (simp add: csv_columns_def)
  from read_record [OF this, of "[]" "concat (map (csv_row fmt) rs)"] Cons show ?case
    by (simp add: csv_row_escaped [OF assms, of r])
qed simp

lemma header_read:
  "csv_read Field_Start [] [] (CSV_HEADER @ [CHR 0x0A] @ rest) = split_on (CHR '','') CSV_HEADER # csv_read Field_Start [] [] rest"
proof -
  have fields: "list_all plain_field (split_on (CHR '','') CSV_HEADER)" by code_simp
  have "split_on (CHR '','') CSV_HEADER \<noteq> []" by simp
  moreover have "map csv_escape (split_on (CHR '','') CSV_HEADER) = split_on (CHR '','') CSV_HEADER"
    using fields by (intro map_idI) (auto simp: list_all_iff plain_field_def csv_escape_def)
  ultimately show ?thesis
    using read_record [of "split_on (CHR '','') CSV_HEADER" "[]" rest] by (simp add: join_split_on)
qed

lemma parse_export:
  assumes "\<forall>k q. decimal (fmt k q)"
  shows "parse_csv (export_csv fmt results) = split_on (CHR '','') CSV_HEADER # map (csv_columns fmt) results"
  unfolding parse_csv_def export_csv_def header_read csv_rows_read [OF assms] ..

text \<open>
  the CSV export reads back.  Whatever the names contain, commas, quotes and line feeds included, a
  reader of the RFC 4180 quoting finds the header row and then one row per result, each with exactly the
  result's values in as many columns as the header has.
\<close>

theorem export_csv_round_trip:
  assumes "\<forall>k q. decimal (fmt k q)"
  shows "parse_csv (export_csv fmt results) = split_on (CHR '','') CSV_HEADER # map (csv_columns fmt) results \<and>
    list_all (\<lambda>row. length row = 26) (parse_csv (export_csv fmt results))"
proof -
  have "length (split_on (CHR '','') CSV_HEADER) = 26" by code_simp
  moreover have "length (csv_columns fmt r) = 26" for r by (simp add: csv_columns_def)
  ultimately show ?thesis by (simp add: parse_export [OF assms] list_all_iff)
qed


definition example_row :: BenchmarkResult where
  "example_row = fst (summarize list_hist ''lb, the proxy'' ''s'' 2 1024 ''HTTP/1.1'' 1 0 0 (recorder_new list_hist))"

theorem export_csv_round_trip_witness:
  "parse_csv (export_csv (\<lambda>k q. ''1.0'') [example_row]) ! 1 ! 0 = ''lb, the proxy'' \<and>
   length (parse_csv (export_csv (\<lambda>k q. ''1.0'') [example_row])) = 2"
proof -
  have "\<forall>k q. decimal ((\<lambda>k q. ''1.0'') (k :: nat) (q :: rat))" by (simp add: decimal_def is_digit_def)
  from export_csv_round_trip [OF this, of "[example_row]"] show ?thesis
    by (simp add: csv_columns_def example_row_def summarize_def Let_def)
qed

end
