(* ===== verification/End_To_End.thy ===== *)
theory End_To_End
  imports Gateway Hyper_Server Http2 Pingora
begin

text \<open>
  Properties that span the control plane, the route table and the data planes: where a request sent to
  the proxy ends up in terms of the Gateway API objects in the cluster, and that the data planes forward
  alike.
\<close>

section \<open>Tables in use\<close>

text \<open>A table after any earlier requests have selected endpoints from it.\<close>

definition in_use :: "RouteAction list \<Rightarrow> 'r RouteTable \<Rightarrow> 'r RouteTable" where
  "in_use earlier table = fold (\<lambda>a t. snd (action_select t a)) earlier table"

lemma lookup_groups: "lookup m arch R (t\<lparr>groups := gs\<rparr>) host path = lookup m arch R t host path"
  by (cases t) (simp only: lookup_def RouteTable.simps)

definition groups_like :: "BackendEndpoint list list \<Rightarrow> TargetGroup list \<Rightarrow> bool" where
  "groups_like ess gs = list_all2 (\<lambda>es g. group_ok g \<and> group_schedule g = group_schedule (from_endpoints es)) ess gs"

lemma action_select_like:
  assumes "groups_like ess (groups t)"
  shows "lookup m arch R (snd (action_select t a)) = lookup m arch R t \<and> groups_like ess (groups (snd (action_select t a)))"
proof (cases "target_group a < length (groups t)")
  case True
  then obtain e g' where sel: "select (groups t ! target_group a) = (e, g')" by (cases "select (groups t ! target_group a)")
  have n: "target_group a < length ess" "group_ok (groups t ! target_group a)"
    "group_schedule (groups t ! target_group a) = group_schedule (from_endpoints (ess ! target_group a))"
    using assms True by (auto simp: groups_like_def list_all2_conv_all_nth)
  have "group_ok g'" "group_schedule g' = group_schedule (from_endpoints (ess ! target_group a))"
    using target.pick_ok [OF n(2)] target.pick_schedule [OF n(2)] sel n(3) by simp_all
  then have "groups_like (ess[target_group a := ess ! target_group a]) ((groups t)[target_group a := g'])"
    using assms unfolding groups_like_def by (intro list_all2_update_cong) simp_all
  then show ?thesis
    using True sel by (simp add: action_select_def lookup_groups fun_eq_iff)
qed (use assms in \<open>simp add: action_select_def index_opt_def\<close>)

lemma in_use_like:
  "groups_like ess (groups t) \<Longrightarrow> lookup m arch R (in_use earlier t) = lookup m arch R t \<and> groups_like ess (groups (in_use earlier t))"
proof (induction earlier arbitrary: t)
  case (Cons a earlier)
  then show ?case using action_select_like [OF Cons.prems] by (simp add: in_use_def)
qed (simp add: in_use_def)

lemma select_from_like:
  assumes "groups_like ess (groups t)" "target_group a < length ess"
  shows "\<exists>e. fst (action_select t a) = Some e \<and> e \<in> set (group_schedule (from_endpoints (ess ! target_group a)))"
proof -
  have n: "target_group a < length (groups t)" "group_ok (groups t ! target_group a)"
    "group_schedule (groups t ! target_group a) = group_schedule (from_endpoints (ess ! target_group a))"
    using assms by (auto simp: groups_like_def list_all2_conv_all_nth)
  then show ?thesis using target.pick_member [OF n(2)] by (auto simp: action_select_def case_prod_beta)
qed

section \<open>The route behind an action\<close>

lemma first_some_mem: "first_some xs = Some v \<Longrightarrow> Some v \<in> set xs"
  by (induction xs) (auto split: option.splits)

lemma pattern_at_key:
  assumes "pattern_at f q = Some v"
  obtains k where "f k = Some v" "\<And>g w. g k = Some w \<Longrightarrow> pattern_at g q \<noteq> None"
proof (cases "plain q \<and> f q = Some v")
  case True
  then show ?thesis using that [of q] by (auto simp: pattern_at_def)
next
  case False
  then have "first_some (map (\<lambda>p. f (p @ ''/{*catchall}'')) (parents q)) = Some v"
    using assms by (auto simp: pattern_at_def split: if_splits option.splits)
  then obtain p where p: "p \<in> set (parents q)" "f (p @ ''/{*catchall}'') = Some v"
    using first_some_mem by fastforce
  show ?thesis
  proof (rule that [OF p(2)])
    fix g :: "char list \<Rightarrow> 'b option" and w
    assume "g (p @ ''/{*catchall}'') = Some w"
    with p(1) have "first_some (map (\<lambda>p. g (p @ ''/{*catchall}'')) (parents q)) \<noteq> None"
      unfolding first_some_None by auto
    then show "pattern_at g q \<noteq> None" by (auto simp: pattern_at_def split: option.split)
  qed
qed

lemma tier_action:
  assumes "pattern_at (map_of (tier_routes ss t)) q = Some a"
  shows "\<exists>i < length ss. tier_of (spec_hostname (ss ! i)) = t \<and> a = spec_action i (ss ! i) \<and>
    pattern_at (map_of (spec_routes i (ss ! i))) q \<noteq> None"
proof -
  obtain k where k: "map_of (tier_routes ss t) k = Some a"
    "\<And>g w. g k = Some w \<Longrightarrow> pattern_at (g :: bytes \<Rightarrow> RouteAction option) q \<noteq> None"
    by (rule pattern_at_key [OF assms]) blast
  have "(k, a) \<in> set (tier_routes ss t)" using k(1) by (rule map_of_SomeD)
  then obtain i where i: "i < length ss" "tier_of (spec_hostname (ss ! i)) = t" "(k, a) \<in> set (spec_routes i (ss ! i))"
    by (auto simp: tier_routes_def in_set_enumerate_eq split: if_splits)
  then have "map_of (spec_routes i (ss ! i)) k \<noteq> None" by (auto simp: map_of_eq_None_iff intro: rev_image_eqI)
  with k(2) i show ?thesis by (auto simp: spec_routes_def)
qed


lemma lookup_action:
  assumes "router_spec R held" "memchr_spec m" "\<forall>s\<in>set ss. plain (spec_path s)"
    "builder_build R (fold builder_add ss builder_new) = Inr tbl"
    "lookup m arch R (in_use earlier tbl) host path = Some a"
  shows "\<exists>i < length ss. a = spec_action i (ss ! i) \<and> tier_of (spec_hostname (ss ! i)) \<in> set (host_tiers m arch host) \<and>
    pattern_at (map_of (spec_routes i (ss ! i))) (clean_path path) \<noteq> None \<and>
    (\<exists>e. fst (action_select (in_use earlier tbl) a) = Some e \<and>
       e \<in> set (group_schedule (from_endpoints (spec_endpoints (ss ! i)))))"
proof -
  note built = built_lookup [OF assms(1-4)]
  have like: "groups_like (map spec_endpoints ss) (groups tbl)"
    using built by (simp add: groups_like_def list_all2_map1 list_all2_map2 list_all2_same from_endpoints_ok)
  note use = in_use_like [OF like, of m arch R earlier]
  have "first_some (map (\<lambda>t. pattern_at (map_of (tier_routes ss t)) (clean_path path)) (host_tiers m arch host)) = Some a"
    using assms(5) use built by simp
  from first_some_mem [OF this] obtain t where t: "t \<in> set (host_tiers m arch host)"
    "pattern_at (map_of (tier_routes ss t)) (clean_path path) = Some a" by auto
  from tier_action [OF t(2)] obtain i where i: "i < length ss" "tier_of (spec_hostname (ss ! i)) = t" "a = spec_action i (ss ! i)"
    "pattern_at (map_of (spec_routes i (ss ! i))) (clean_path path) \<noteq> None" by blast
  have "\<exists>e. fst (action_select (in_use earlier tbl) a) = Some e \<and> e \<in> set (group_schedule (from_endpoints (map spec_endpoints ss ! target_group a)))"
    using select_from_like [OF conjunct2 [OF use], of a] i by (simp add: spec_action_def)
  with i t(1) show ?thesis by (auto simp: spec_action_def)
qed

lemma rule_endpoints_unresolved: "e \<in> set (rule_endpoints st stored rule) \<Longrightarrow> authority_cell e = None"
  by (auto simp: rule_endpoints_def resolve_ready ep_new_def split: if_splits)

text \<open>The routes of the cluster that serve a request: attached, with a hostname and a path match that apply.\<close>

definition cluster_serves ::
  "memchr \<Rightarrow> arch \<Rightarrow> ControllerConfig \<Rightarrow> ClusterState \<Rightarrow> bytes option \<Rightarrow> bytes \<Rightarrow> StoredRoute \<Rightarrow> HttpRouteRule \<Rightarrow>
     (bytes \<times> PathMatch) \<Rightarrow> bool" where
  "cluster_serves m arch cfg st host path stored rule p =
     (stored \<in> snd ` set (cs_routes st) \<and> route_is_ours cfg stored \<and> rule \<in> set (rules (sr_spec stored)) \<and> backend_refs rule \<noteq> [] \<and>
      p \<in> set (rule_match_list rule) \<and>
      (\<exists>h \<in> set (route_hostnames stored). tier_of h \<in> set (host_tiers m arch host)) \<and>
      pattern_at (map_of (map (\<lambda>k. (k, ())) (expand_pattern (fst p) (snd p)))) (clean_path path) \<noteq> None)"

text \<open>The endpoints a rule may select: the resolved ones of positive weight, and a placeholder when there is none.\<close>

definition rule_target :: "ClusterState \<Rightarrow> StoredRoute \<Rightarrow> HttpRouteRule \<Rightarrow> BackendEndpoint \<Rightarrow> bool" where
  "rule_target st stored rule target =
     (if \<exists>e\<in>set (rule_endpoints st stored rule). weight e > 0
      then target \<in> set (rule_endpoints st stored rule) \<and> weight target > 0 else target = ep_new ''127.0.0.1:80'' 1)"

lemma rule_target_schedule:
  "e \<in> set (group_schedule (from_endpoints (rule_endpoints st stored rule))) \<Longrightarrow> rule_target st stored rule e"
  unfolding rule_target_def using from_endpoints_schedule [of "rule_endpoints st stored rule"] by (auto split: if_splits)

lemma rule_target_unresolved: "rule_target st stored rule e \<Longrightarrow> authority_cell e = None"
  unfolding rule_target_def using rule_endpoints_unresolved by (auto simp: ep_new_def split: if_splits)

lemma pattern_at_None:
  "pattern_at f q = None \<longleftrightarrow> (plain q \<longrightarrow> f q = None) \<and> (\<forall>p\<in>set (parents q). f (p @ ''/{*catchall}'') = None)"
  by (auto simp: pattern_at_def first_some_None split: option.split)

lemma pattern_at_dom:
  "(\<And>k. (f k = None) = (g k = None)) \<Longrightarrow> (pattern_at f q = None) = (pattern_at g q = None)"
  by (simp add: pattern_at_None)

lemma spec_routes_dom: "(map_of (spec_routes i s) k = None) = (map_of (map (\<lambda>k. (k, ())) (expand_pattern (spec_path s) (spec_match s))) k = None)"
  by (simp add: spec_routes_def map_of_eq_None_iff image_image)

lemma handle_total:
  assumes "\<And>a. lookup m arch R table (host_of L (req_uri req) (req_headers req)) (uri_path (req_uri req)) = Some a \<Longrightarrow>
      \<exists>e. fst (action_select table a) = Some e"
  shows "handle_request L U m arch R config upstream table peer req \<noteq> None"
proof (cases "lookup m arch R table (host_of L (req_uri req) (req_headers req)) (uri_path (req_uri req))")
  case (Some a)
  obtain e t where "action_select table a = (Some e, t)" using assms [OF Some] by (metis prod.collapse)
  with Some show ?thesis by (simp add: handle_request_def Let_def split: option.split)
qed (simp add: handle_request_def)

lemma handle_forwarded:
  assumes "handle_request L U m arch R config upstream table peer req = Some (resp, Some out, table')"
  obtains a target t au pq where
    "lookup m arch R table (host_of L (req_uri req) (req_headers req)) (uri_path (req_uri req)) = Some a"
    "action_select table a = (Some target, t)" "fst (ep_authority (authority_try_from U) target) = Some au"
    "uri_from_parts U au pq = Some (req_uri out)"
    "req_headers out = hyper_headers (is_http2_upstream upstream) au L (forwarded_headers config) peer (filters a) (req_headers req)"
proof -
  obtain a where a: "lookup m arch R table (host_of L (req_uri req) (req_headers req)) (uri_path (req_uri req)) = Some a"
    using assms by (auto simp: handle_request_def split: option.splits)
  obtain target t where sel: "action_select table a = (Some target, t)"
    using assms a by (auto simp: handle_request_def split: option.splits prod.splits)
  obtain au where au: "fst (ep_authority (authority_try_from U) target) = Some au"
    using assms a sel by (auto simp: handle_request_def split: option.splits)
  obtain pq u where pq: "upstream_pq U (filters a) (req_uri req) = Some pq" "uri_from_parts U au pq = Some u"
    using assms a sel au by (auto simp: handle_request_def split: option.splits)
  have "req_uri out = u \<and> req_headers out = hyper_headers (is_http2_upstream upstream) au L (forwarded_headers config) peer (filters a) (req_headers req)"
    using assms a sel au pq by (auto simp: handle_request_def Let_def split: option.splits)
  with that a sel au pq show ?thesis by simp
qed

lemma gateway_spec_route:
  assumes "iter_spec iter" "s \<in> set (gateway_specs L cfg st (iter (cs_routes st)))"
  obtains key stored j h p where "(key, stored) \<in> set (cs_routes st)" "route_is_ours cfg stored" "j < length (rules (sr_spec stored))"
    "backend_refs (rules (sr_spec stored) ! j) \<noteq> []" "h \<in> set (route_hostnames stored)" "p \<in> set (rule_match_list (rules (sr_spec stored) ! j))"
    "spec_hostname s = h" "spec_path s = fst p" "spec_match s = snd p" "spec_endpoints s = rule_endpoints st stored (rules (sr_spec stored) ! j)"
    "spec_filters s = compile_filters L (rule_filters (rules (sr_spec stored) ! j)) (fst p)"
  using assms(2) unfolding gateway_specs_iff iter_specD [OF assms(1)] by (elim exE conjE) (rule that, assumption+, simp_all)

definition plain_rules :: "HttpRouteSpec \<Rightarrow> bool" where
  "plain_rules spec = (\<forall>rule\<in>set (rules spec). \<forall>p\<in>set (rule_match_list rule). plain (fst p))"

definition plain_routes :: "ClusterState \<Rightarrow> bool" where
  "plain_routes st = (\<forall>e\<in>set (cs_routes st). plain_rules (sr_spec (snd e)))"

text \<open>What a lookup in the table of the cluster finds, and what its selection yields.\<close>

lemma cluster_action:
  assumes "router_spec R held" "memchr_spec m" "iter_spec iter" "plain_routes st"
    and "lookup m arch R (in_use earlier (compile_state L R iter cfg st)) host path = Some a"
  shows "\<exists>stored rule p e t. cluster_serves m arch cfg st host path stored rule p \<and> filters a = compile_filters L (rule_filters rule) (fst p) \<and>
    action_select (in_use earlier (compile_state L R iter cfg st)) a = (Some e, t) \<and> rule_target st stored rule e"
proof -
  let ?ss = "gateway_specs L cfg st (iter (cs_routes st))" and ?t = "in_use earlier (compile_state L R iter cfg st)"
  have specs: "\<forall>s\<in>set ?ss. plain (spec_path s)"
  proof
    fix s
    assume "s \<in> set ?ss"
    then show "plain (spec_path s)"
      by (rule gateway_spec_route [OF assms(3)]) (use assms(4) nth_mem in \<open>fastforce simp: plain_routes_def plain_rules_def\<close>)
  qed
  obtain i e where i: "i < length ?ss" "a = spec_action i (?ss ! i)" "tier_of (spec_hostname (?ss ! i)) \<in> set (host_tiers m arch host)"
    "pattern_at (map_of (spec_routes i (?ss ! i))) (clean_path path) \<noteq> None"
    and e: "fst (action_select ?t a) = Some e" "e \<in> set (group_schedule (from_endpoints (spec_endpoints (?ss ! i))))"
    using lookup_action [OF assms(1,2) specs build_or_default_build] assms(5) unfolding compile_state_specs by blast
  obtain key stored j h p where s: "(key, stored) \<in> set (cs_routes st)" "route_is_ours cfg stored" "j < length (rules (sr_spec stored))"
    "backend_refs (rules (sr_spec stored) ! j) \<noteq> []" "h \<in> set (route_hostnames stored)" "p \<in> set (rule_match_list (rules (sr_spec stored) ! j))"
    and s': "spec_hostname (?ss ! i) = h" "spec_path (?ss ! i) = fst p" "spec_match (?ss ! i) = snd p"
      "spec_endpoints (?ss ! i) = rule_endpoints st stored (rules (sr_spec stored) ! j)"
      "spec_filters (?ss ! i) = compile_filters L (rule_filters (rules (sr_spec stored) ! j)) (fst p)"
    by (rule gateway_spec_route [OF assms(3) nth_mem [OF i(1)]])
  define rule where "rule = rules (sr_spec stored) ! j"
  have path: "pattern_at (map_of (map (\<lambda>k. (k, ())) (expand_pattern (fst p) (snd p)))) (clean_path path) \<noteq> None"
    using i(4) pattern_at_dom [OF spec_routes_dom [of i "?ss ! i"]] unfolding s' by simp
  have "stored \<in> snd ` set (cs_routes st)" using s(1) by (rule rev_image_eqI) simp
  moreover have "rule \<in> set (rules (sr_spec stored))" unfolding rule_def by (rule nth_mem [OF s(3)])
  moreover have "\<exists>h \<in> set (route_hostnames stored). tier_of h \<in> set (host_tiers m arch host)" using s(5) i(3) s'(1) by blast
  ultimately have "cluster_serves m arch cfg st host path stored rule p"
    unfolding cluster_serves_def using s(2,4,6) path unfolding rule_def [symmetric] by blast
  moreover have "filters a = compile_filters L (rule_filters rule) (fst p)" using i(2) s'(5) by (simp add: spec_action_def rule_def)
  moreover have "rule_target st stored rule e" using e(2) rule_target_schedule unfolding s'(4) rule_def [symmetric] by blast
  ultimately show ?thesis using e(1) by (metis prod.collapse)
qed

text \<open>
  C7: from the cluster to the wire.  With the table compiled from the Gateway API objects of the cluster,
  and whatever requests it has served before, the Hyper data plane never panics; and a request it sends
  upstream is addressed to an endpoint that the cluster state resolves for a rule, with a matching path,
  of an \<open>HTTPRoute\<close> that attaches to this Gateway with a hostname that applies (to the placeholder
  \<open>127.0.0.1:80\<close> when all weights of that rule are zero), with the headers of the forwarding contract
  under that rule's filters.
\<close>

theorem cluster_to_wire:
  assumes "router_spec R held" "memchr_spec m" "iter_spec iter" "http_spec L" "list_all visible_char peer" "plain_routes st"
    and "handle_request L U m arch R config upstream (in_use earlier (compile_state L R iter cfg st)) peer req = outcome"
  shows "outcome \<noteq> None \<and>
    (\<forall>resp out table'. outcome = Some (resp, Some out, table') \<longrightarrow>
       (\<exists>stored rule p target au pq.
          cluster_serves m arch cfg st (host_of L (req_uri req) (req_headers req)) (uri_path (req_uri req)) stored rule p \<and>
          rule_target st stored rule target \<and>
          authority_try_from U (address target) = Some au \<and> uri_from_parts U au pq = Some (req_uri out) \<and>
          (\<forall>n. n \<noteq> HOST \<longrightarrow> hm_get_all L (req_headers out) n =
             hm_get_all L (forward_headers L (forwarded_headers config) peer (compile_filters L (rule_filters rule) (fst p)) (req_headers req)) n)))"
proof -
  let ?t = "in_use earlier (compile_state L R iter cfg st)"
  let ?host = "host_of L (req_uri req) (req_headers req)" and ?path = "uri_path (req_uri req)"
  note act = cluster_action [OF assms(1-3,6)]
  have total: "outcome \<noteq> None"
    unfolding assms(7) [symmetric] by (rule handle_total) (metis act fst_conv)
  have "\<exists>stored rule p target au pq. cluster_serves m arch cfg st ?host ?path stored rule p \<and> rule_target st stored rule target \<and>
      authority_try_from U (address target) = Some au \<and> uri_from_parts U au pq = Some (req_uri out) \<and>
      (\<forall>n. n \<noteq> HOST \<longrightarrow> hm_get_all L (req_headers out) n =
         hm_get_all L (forward_headers L (forwarded_headers config) peer (compile_filters L (rule_filters rule) (fst p)) (req_headers req)) n)"
    if out: "outcome = Some (resp, Some out, table')" for resp out table'
  proof -
    obtain a target t' au pq where fwd: "lookup m arch R ?t ?host ?path = Some a" "action_select ?t a = (Some target, t')"
      "fst (ep_authority (authority_try_from U) target) = Some au" "uri_from_parts U au pq = Some (req_uri out)"
      "req_headers out = hyper_headers (is_http2_upstream upstream) au L (forwarded_headers config) peer (filters a) (req_headers req)"
      by (rule handle_forwarded [OF assms(7) [unfolded out]])
    obtain stored rule p where served: "cluster_serves m arch cfg st ?host ?path stored rule p"
      "filters a = compile_filters L (rule_filters rule) (fst p)" "rule_target st stored rule target"
      using act [OF fwd(1)] fwd(2) by auto
    have au: "authority_try_from U (address target) = Some au"
      using fwd(3) rule_target_unresolved [OF served(3)] by (simp add: ep_authority_def Let_def)
    have "hm_get_all L (req_headers out) n =
        hm_get_all L (forward_headers L (forwarded_headers config) peer (compile_filters L (rule_filters rule) (fst p)) (req_headers req)) n" if "n \<noteq> HOST" for n
      using hyper.prepare_values [OF assms(4,5) that] unfolding fwd(5) served(2) .
    with served au fwd(4) show ?thesis by blast
  qed
  with total show ?thesis by blast
qed

definition example_call :: "((bytes \<times> bytes) list, unit) Request" where
  "example_call =
     \<lparr>req_method = ''GET'', req_uri = \<lparr>uri_host = None, uri_path = ''/a'', uri_query = None, uri_pq = Some ''/a''\<rparr>, req_version = HTTP_11,
      req_headers = [(HOST, ''x.Y:1''), (''te'', ''gzip'')], req_body = Empty_Body\<rparr>"

definition example_outcome :: "(((bytes \<times> bytes) list, unit) Response \<times> ((bytes \<times> bytes) list, unit) Request option \<times> (bytes \<times> RouteAction) list RouteTable) option" where
  "example_outcome = handle_request list_http plain_uri memchr_scan Other_Arch list_router (server_config_new 1 ''0.0.0.0:80'') example_client
     (in_use [] (compile_state list_http list_router (\<lambda>m. m) controller_default example_cluster)) ''10.0.0.9'' example_call"

lemma example_served_route:
  "lookup memchr_scan Other_Arch list_router (in_use [] (compile_state list_http list_router (\<lambda>m. m) controller_default example_cluster))
     (host_of list_http (req_uri example_call) (req_headers example_call)) (uri_path (req_uri example_call))
   = Some \<lparr>target_group = 0, filters = None, route_name = ''ns/r#0''\<rparr>"
  by code_simp

lemma example_chosen:
  "fst (action_select (in_use [] (compile_state list_http list_router (\<lambda>m. m) controller_default example_cluster))
     \<lparr>target_group = 0, filters = None, route_name = ''ns/r#0''\<rparr>) = Some (ep_new ''10.0.0.1:80'' 1)"
  by code_simp

lemma example_sent: "\<exists>resp out t. example_outcome = Some (resp, Some out, t)"
proof -
  let ?t = "in_use [] (compile_state list_http list_router (\<lambda>m. m) controller_default example_cluster)"
    and ?a = "\<lparr>target_group = 0, filters = None, route_name = ''ns/r#0''\<rparr>"
  obtain t where sel: "action_select ?t ?a = (Some (ep_new ''10.0.0.1:80'' 1), t)"
    using example_chosen by (metis prod.collapse)
  have au: "fst (ep_authority (authority_try_from plain_uri) (ep_new ''10.0.0.1:80'' 1)) = Some ''10.0.0.1:80''" by code_simp
  have pq: "upstream_pq plain_uri None (req_uri example_call) = Some ''/a''" by code_simp
  obtain u where u: "uri_from_parts plain_uri ''10.0.0.1:80'' ''/a'' = Some u" using plain_uri_from_parts by blast
  have fwd: "upstream_forward example_client r = Some \<lparr>resp_status = 200, resp_headers = [(''server'', ''s'')], resp_body = Empty_Body\<rparr>"
    for r by (simp add: upstream_forward_def example_client_def)
  show ?thesis
    unfolding example_outcome_def by (simp add: handle_request_def example_served_route sel pq au u fwd Let_def)
qed

theorem cluster_to_wire_witness:
  "\<exists>resp out t stored rule p target. example_outcome = Some (resp, Some out, t) \<and>
     cluster_serves memchr_scan Other_Arch controller_default example_cluster
       (host_of list_http (req_uri example_call) (req_headers example_call)) (uri_path (req_uri example_call)) stored rule p \<and>
     rule_target example_cluster stored rule target"
proof -
  have iter: "iter_spec (\<lambda>m :: (ServiceKey \<times> StoredRoute) list. m)" by (simp add: iter_spec_def)
  have peer: "list_all visible_char ''10.0.0.9''" by code_simp
  have plain: "plain_routes example_cluster"
    by (simp add: plain_routes_def plain_rules_def example_cluster_def rule_match_list_def)
  obtain resp out t where run: "example_outcome = Some (resp, Some out, t)" using example_sent by blast
  note wire = cluster_to_wire [OF list_router_spec memchr_scan_spec iter list_http_spec peer plain example_outcome_def [symmetric], THEN conjunct2, rule_format, OF run]
  from wire show ?thesis by (elim exE conjE) (intro exI conjI, rule run, assumption+)
qed

text \<open>
  C23: the data planes forward alike.  Given the same request headers, peer and route filters, the Hyper
  plane (over HTTP/1.1 or HTTP/2), the HTTP/2 handler of the Monoio plane and the Pingora plane send
  the same values of every header but \<open>Host\<close>, which each plane sets for its own upstream connection.
\<close>

theorem planes_forward_alike:
  assumes "pingora_spec L P" "list_all visible_char peer" "n \<noteq> HOST"
  shows "hm_get_all L (hyper_headers http2 authority L forwarded_on peer rf (p_headers P q)) n
        = hm_get_all L (p_headers P (pingora_prepare P L forwarded_on peer rf q)) n \<and>
    hm_get_all L (h2_headers authority' L forwarded_on peer rf (p_headers P q)) n
        = hm_get_all L (p_headers P (pingora_prepare P L forwarded_on peer rf q)) n"
  using hyper.prepare_values [OF pingora_specD(1) [OF assms(1)] assms(2,3)]
    h2.prepare_values [OF pingora_specD(1) [OF assms(1)] assms(2,3)] pingora.prepare_values [OF assms] by simp

theorem planes_forward_alike_witness:
  "hm_get_all list_http (hyper_headers True ''u:1'' list_http True ''10.0.0.9'' (filters example_action) (req_headers example_req)) FORWARDED_FOR
    = hm_get_all list_http (h2_headers ''v:2'' list_http True ''10.0.0.9'' (filters example_action) (req_headers example_req)) FORWARDED_FOR"
proof -
  have peer: "list_all visible_char ''10.0.0.9''" and name: "FORWARDED_FOR \<noteq> HOST" by code_simp+
  have view: "p_headers (pair_pingora list_http) (req_uri example_req, req_headers example_req) = req_headers example_req"
    by (simp add: pair_pingora_def)
  show ?thesis
    using planes_forward_alike [OF pair_pingora_spec [OF list_http_spec] peer name, where q = "(req_uri example_req, req_headers example_req)",
        of True "''u:1''" True "filters example_action" "''v:2''"] unfolding view by simp
qed

end
