(* ===== verification/Supervisor.thy ===== *)
theory Supervisor
  imports End_To_End
begin

text \<open>
  Running the controller beside a data plane: \<open>gateway::run\<close> as a whole, the restart loop around it
  (\<open>k8s_controller.rs\<close> of the three proxies) and the table they share with the request path.  The tasks
  that \<open>run\<close> spawns are not stopped when it returns: \<open>select!\<close> drops their handles, which detaches them,
  so a state has one controller per call of \<open>run\<close>, each with the tasks that still live.  The watch
  events, the answers of the API server, the end of a task by a panic and the requests of the data plane
  come in any order.
\<close>

section \<open>Model\<close>

datatype Task = Routes_Task | Slices_Task | Rebuild_Task

text \<open>One call of \<open>run\<close>: its controller, whether its watches are in a relist, and its living tasks.\<close>

record 'r Incarnation =
  ctl :: "'r Controller"
  relist_routes :: bool
  relist_slices :: bool
  living :: "Task list"

datatype Phase = Calling | Waiting nat | Sleeping

record 'r Supervisor =
  shared_routes :: "'r SharedRouteTable"
  runs :: "'r Incarnation list"
  phase :: Phase
  backoff :: nat
  slept :: "nat list"

definition start_k8s_reconciler :: "'r SharedRouteTable \<Rightarrow> 'r Supervisor" where
  "start_k8s_reconciler shared = \<lparr>shared_routes = shared, runs = [], phase = Calling, backoff = 1, slept = []\<rparr>"

text \<open>The beginning of \<open>run\<close>: without a client it fails at once; otherwise it spawns its three tasks.\<close>

definition run_call :: "bool \<Rightarrow> 'r Supervisor \<Rightarrow> 'r Supervisor" where
  "run_call client sv =
     (if \<not> client then sv\<lparr>phase := Sleeping\<rparr>
      else sv\<lparr>runs := runs sv @ [\<lparr>ctl = run_init (shared_routes sv), relist_routes = False, relist_slices = False,
                                   living = [Routes_Task, Slices_Task, Rebuild_Task]\<rparr>],
              phase := Waiting (length (runs sv))\<rparr>)"

text \<open>The \<open>select!\<close> of \<open>run\<close>: it returns when one of its own tasks has ended; the others run on.\<close>

definition task_ended :: "nat \<Rightarrow> Task \<Rightarrow> 'r Supervisor \<Rightarrow> 'r Supervisor" where
  "task_ended i task sv =
     sv\<lparr>runs := (runs sv)[i := (runs sv ! i)\<lparr>living := removeAll task (living (runs sv ! i))\<rparr>],
        phase := (if phase sv = Waiting i then Sleeping else phase sv)\<rparr>"

text \<open>After the sleep of the restart loop.\<close>

definition restart :: "'r Supervisor \<Rightarrow> 'r Supervisor" where
  "restart sv = sv\<lparr>phase := Calling, slept := slept sv @ [backoff sv], backoff := min (backoff sv * 2) 30\<rparr>"

text \<open>A step of a task of one controller, on the table shared by all.\<close>

definition on_shared :: "'r Supervisor \<Rightarrow> nat \<Rightarrow> 'r Controller" where
  "on_shared sv i = (ctl (runs sv ! i))\<lparr>published := shared_routes sv\<rparr>"

definition with_ctl :: "nat \<Rightarrow> 'r Controller \<Rightarrow> 'r Supervisor \<Rightarrow> 'r Supervisor" where
  "with_ctl i c sv = sv\<lparr>shared_routes := published c, runs := (runs sv)[i := (runs sv ! i)\<lparr>ctl := c\<rparr>]\<rparr>"

definition with_relist :: "nat \<Rightarrow> bool \<Rightarrow> bool \<Rightarrow> 'r Supervisor \<Rightarrow> 'r Supervisor" where
  "with_relist i ri si sv = sv\<lparr>runs := (runs sv)[i := (runs sv ! i)\<lparr>relist_routes := ri, relist_slices := si\<rparr>]\<rparr>"

text \<open>A request of the data plane moves the cursor of the group it selects from, in the active table.\<close>

definition serve_request :: "RouteAction \<Rightarrow> 'r Supervisor \<Rightarrow> 'r Supervisor" where
  "serve_request a sv = sv\<lparr>shared_routes := shared_from_table (snd (action_select (shared_load (shared_routes sv)) a))\<rparr>"

inductive supervisor_step ::
  "('j \<Rightarrow> HttpRouteSpec option) \<Rightarrow> (ControllerConfig \<Rightarrow> ClusterState \<Rightarrow> 'r RouteTable) \<Rightarrow> ControllerConfig
    \<Rightarrow> 'r Supervisor \<Rightarrow> 'r Supervisor \<Rightarrow> bool"
  for from_value compile cfg where
  calls: "phase sv = Calling \<Longrightarrow> supervisor_step from_value compile cfg sv (run_call client sv)"
| wakes: "phase sv = Sleeping \<Longrightarrow> supervisor_step from_value compile cfg sv (restart sv)"
| ends: "i < length (runs sv) \<Longrightarrow> task \<in> set (living (runs sv ! i)) \<Longrightarrow>
    supervisor_step from_value compile cfg sv (task_ended i task sv)"
| serves: "supervisor_step from_value compile cfg sv (serve_request a sv)"
| sees_route: "i < length (runs sv) \<Longrightarrow> Routes_Task \<in> set (living (runs sv ! i)) \<Longrightarrow>
    supervisor_step from_value compile cfg sv
      (with_relist i (relisting ev (relist_routes (runs sv ! i))) (relist_slices (runs sv ! i))
         (with_ctl i (on_httproute from_value ev (on_shared sv i)) sv))"
| sees_slice: "i < length (runs sv) \<Longrightarrow> Slices_Task \<in> set (living (runs sv ! i)) \<Longrightarrow>
    supervisor_step from_value compile cfg sv
      (with_relist i (relist_routes (runs sv ! i)) (relisting ev' (relist_slices (runs sv ! i)))
         (with_ctl i (on_endpointslice ev' (on_shared sv i)) sv))"
| takes: "i < length (runs sv) \<Longrightarrow> Rebuild_Task \<in> set (living (runs sv ! i)) \<Longrightarrow> rebuild_start (on_shared sv i) = Some c \<Longrightarrow>
    supervisor_step from_value compile cfg sv (with_ctl i c sv)"
| publishes: "i < length (runs sv) \<Longrightarrow> Rebuild_Task \<in> set (living (runs sv ! i)) \<Longrightarrow>
    rebuild_finish compile cfg (on_shared sv i) = Some c \<Longrightarrow>
    supervisor_step from_value compile cfg sv (with_ctl i c sv)"

section \<open>What is published\<close>

text \<open>The cluster states that watch events can produce.\<close>

inductive watched :: "('j \<Rightarrow> HttpRouteSpec option) \<Rightarrow> ClusterState \<Rightarrow> bool" for from_value where
  initially: "watched from_value cluster_default"
| route: "watched from_value (state c) \<Longrightarrow> watched from_value (state (on_httproute from_value ev (c :: unit Controller)))"
| slice: "watched from_value (state c) \<Longrightarrow> watched from_value (state (on_endpointslice ev' (c :: unit Controller)))"

lemma state_on_httproute:
  "state c = state c' \<Longrightarrow> state (on_httproute fv ev c) = state (on_httproute fv ev c')"
  by (cases ev) (simp_all add: on_httproute_def notify_one_def split: option.split)

lemma state_on_endpointslice:
  "state c = state c' \<Longrightarrow> state (on_endpointslice ev c) = state (on_endpointslice ev c')"
  by (cases ev) (simp_all add: on_endpointslice_def notify_one_def split: option.split)

definition holding :: "ClusterState \<Rightarrow> unit Controller" where
  "holding st = \<lparr>state = st, dirty = False, rebuilding = False, published = shared_from_table undefined\<rparr>"

lemma watched_events:
  assumes "watched fv (state c)"
  shows "watched fv (state (on_httproute fv ev c))" "watched fv (state (on_endpointslice ev' c))"
proof -
  have eq: "state c = state (holding (state c))" by (simp add: holding_def)
  show "watched fv (state (on_httproute fv ev c))"
    unfolding state_on_httproute [OF eq] by (rule watched.route) (use assms eq in simp)
  show "watched fv (state (on_endpointslice ev' c))"
    unfolding state_on_endpointslice [OF eq] by (rule watched.slice) (use assms eq in simp)
qed

lemma in_use_snoc: "in_use (earlier @ [a]) t = snd (action_select (in_use earlier t) a)"
  by (simp add: in_use_def)

lemma in_use_Nil [simp]: "in_use [] t = t"
  by (simp add: in_use_def)

lemma published_events [simp]:
  "published (on_httproute fv ev c) = published c" "published (on_endpointslice ev' c) = published c"
  by (cases ev; simp add: on_httproute_def notify_one_def split: option.split)
    (cases ev'; simp add: on_endpointslice_def notify_one_def split: option.split)

definition used_from :: "'r RouteTable \<Rightarrow> 'r SharedRouteTable \<Rightarrow> bool" where
  "used_from t shared = (\<exists>earlier. shared_load shared = in_use earlier t)"

lemma used_from_start [simp]: "used_from t (shared_store t s)" "used_from t (shared_from_table t)"
  by (auto simp: used_from_def shared_load_def shared_store_def shared_from_table_def intro: exI [of _ "[]"])

lemma used_from_request:
  "used_from t shared \<Longrightarrow> used_from t (shared_from_table (snd (action_select (shared_load shared) a)))"
  unfolding used_from_def by (metis in_use_snoc shared_load_def shared_from_table_def SharedRouteTable.select_convs(1))

lemmas supervisor_defs = run_call_def restart_def task_ended_def serve_request_def with_ctl_def with_relist_def on_shared_def

text \<open>Every table in use was the seed or compiled from what some watch has reported.\<close>

definition origin_inv ::
  "'r RouteTable \<Rightarrow> ('j \<Rightarrow> HttpRouteSpec option) \<Rightarrow> (ControllerConfig \<Rightarrow> ClusterState \<Rightarrow> 'r RouteTable) \<Rightarrow> ControllerConfig \<Rightarrow> 'r Supervisor \<Rightarrow> bool" where
  "origin_inv seed fv compile cfg sv \<longleftrightarrow>
     (\<forall>r\<in>set (runs sv). watched fv (state (ctl r))) \<and>
     (used_from seed (shared_routes sv) \<or> (\<exists>st. watched fv st \<and> used_from (compile cfg st) (shared_routes sv)))"

lemma origin_with_ctl:
  assumes "origin_inv seed fv compile cfg sv" "i < length (runs sv)" "watched fv (state c)"
    "published c = shared_routes sv \<or> published c = shared_store (compile cfg (state c)) (shared_routes sv)"
  shows "origin_inv seed fv compile cfg (with_ctl i c sv)"
proof -
  have "set ((runs sv)[i := (runs sv ! i)\<lparr>ctl := c\<rparr>]) \<subseteq> insert ((runs sv ! i)\<lparr>ctl := c\<rparr>) (set (runs sv))"
    by (rule set_update_subset_insert)
  then show ?thesis using assms by (auto simp: origin_inv_def with_ctl_def)
qed

lemma origin_with_relist:
  assumes "origin_inv seed fv compile cfg sv" "i < length (runs sv)"
  shows "origin_inv seed fv compile cfg (with_relist i ri si sv)"
proof -
  have "set ((runs sv)[i := (runs sv ! i)\<lparr>relist_routes := ri, relist_slices := si\<rparr>])
      \<subseteq> insert ((runs sv ! i)\<lparr>relist_routes := ri, relist_slices := si\<rparr>) (set (runs sv))"
    by (rule set_update_subset_insert)
  moreover have "watched fv (state (ctl (runs sv ! i)))" using assms by (simp add: origin_inv_def)
  ultimately show ?thesis using assms by (auto simp: origin_inv_def with_relist_def)
qed

interpretation origin: step_invariant "\<lambda>s. s = start_k8s_reconciler (shared_from_table seed)"
  "supervisor_step from_value compile cfg" "origin_inv seed from_value compile cfg" for seed from_value compile cfg
proof
  fix s :: "'a Supervisor"
  assume "s = start_k8s_reconciler (shared_from_table seed)"
  then show "origin_inv seed from_value compile cfg s" by (simp add: start_k8s_reconciler_def origin_inv_def)
next
  fix s t :: "'a Supervisor"
  assume inv: "origin_inv seed from_value compile cfg s" and step: "supervisor_step from_value compile cfg s t"
  have at: "watched from_value (state (on_shared s i))" if "i < length (runs s)" for i
    using inv that by (simp add: origin_inv_def on_shared_def)
  from step show "origin_inv seed from_value compile cfg t"
  proof cases
    case (calls client)
    then show ?thesis using inv by (auto simp: origin_inv_def run_call_def run_init_def intro: watched.initially)
  next
    case (ends i task)
    have "set ((runs s)[i := (runs s ! i)\<lparr>living := removeAll task (living (runs s ! i))\<rparr>])
        \<subseteq> insert ((runs s ! i)\<lparr>living := removeAll task (living (runs s ! i))\<rparr>) (set (runs s))"
      by (rule set_update_subset_insert)
    then show ?thesis using inv ends by (auto simp: origin_inv_def task_ended_def)
  next
    case (sees_route i ev)
    have "origin_inv seed from_value compile cfg (with_ctl i (on_httproute from_value ev (on_shared s i)) s)"
      by (rule origin_with_ctl [OF inv sees_route(2) watched_events(1) [OF at [OF sees_route(2)]]]) (simp add: on_shared_def)
    then show ?thesis unfolding sees_route(1) by (rule origin_with_relist) (use sees_route(2) in \<open>simp add: with_ctl_def\<close>)
  next
    case (sees_slice i ev)
    have "origin_inv seed from_value compile cfg (with_ctl i (on_endpointslice ev (on_shared s i)) s)"
      by (rule origin_with_ctl [OF inv sees_slice(2) watched_events(2) [OF at [OF sees_slice(2)]]]) (simp add: on_shared_def)
    then show ?thesis unfolding sees_slice(1) by (rule origin_with_relist) (use sees_slice(2) in \<open>simp add: with_ctl_def\<close>)
  next
    case (takes i c)
    then have "state c = state (on_shared s i)" "published c = shared_routes s"
      by (auto simp: rebuild_start_def on_shared_def split: if_splits)
    then show ?thesis unfolding takes(1) using at [OF takes(2)] by (intro origin_with_ctl [OF inv takes(2)]) simp_all
  next
    case (publishes i c)
    then have "state c = state (on_shared s i)" "published c = shared_store (compile cfg (state c)) (shared_routes s)"
      by (auto simp: rebuild_finish_def on_shared_def split: if_splits)
    then show ?thesis unfolding publishes(1) using at [OF publishes(2)] by (intro origin_with_ctl [OF inv publishes(2)]) simp_all
  qed (use inv in \<open>auto simp: origin_inv_def restart_def serve_request_def intro: used_from_request\<close>)
qed

text \<open>The waits of the restart loop: 1, 2, 4, 8 and 16 seconds, then 30 each time, for as long as it runs.\<close>

definition backoff_inv :: "'r Supervisor \<Rightarrow> bool" where
  "backoff_inv sv \<longleftrightarrow> backoff sv = min (2 ^ length (slept sv)) 30 \<and>
     slept sv = map (\<lambda>k. min (2 ^ k) 30) [0..<length (slept sv)]"

interpretation waits: step_invariant "\<lambda>s. s = start_k8s_reconciler shared" "supervisor_step from_value compile cfg" backoff_inv
  for shared from_value compile cfg
proof
  fix s t :: "'a Supervisor"
  assume inv: "backoff_inv s" and step: "supervisor_step from_value compile cfg s t"
  from step show "backoff_inv t" by cases (use inv in \<open>auto simp: backoff_inv_def supervisor_defs\<close>)
qed (simp add: start_k8s_reconciler_def backoff_inv_def)

text \<open>With a single call of \<open>run\<close> that got a client, the table follows its watches.\<close>

definition single_inv :: "'r RouteTable \<Rightarrow> (ControllerConfig \<Rightarrow> ClusterState \<Rightarrow> 'r RouteTable) \<Rightarrow> ControllerConfig \<Rightarrow> 'r Supervisor \<Rightarrow> bool" where
  "single_inv seed compile cfg sv \<longleftrightarrow>
     (runs sv = [] \<longrightarrow> used_from seed (shared_routes sv)) \<and>
     (\<forall>r. runs sv = [r] \<longrightarrow> dirty (ctl r) \<or> rebuilding (ctl r) \<or> relist_routes r \<or> relist_slices r \<or>
        used_from (compile cfg (state (ctl r))) (shared_routes sv) \<or> state (ctl r) = cluster_default \<and> used_from seed (shared_routes sv))"

lemma single_update: "length xs = Suc 0 \<Longrightarrow> i < length xs \<Longrightarrow> xs[i := y] = [y] \<and> xs = [xs ! i]"
  by (cases xs) simp_all

lemma list_update_singleton: "xs[i := y] = [z] \<Longrightarrow> i < length xs \<Longrightarrow> y = z \<and> xs = [xs ! i]"
  by (metis length_list_update length_Cons list.size(3) single_update list.inject)

interpretation single: step_invariant "\<lambda>s. s = start_k8s_reconciler (shared_from_table seed)" "supervisor_step from_value compile cfg"
  "single_inv seed compile cfg" for seed from_value compile cfg
proof
  fix s t :: "'a Supervisor"
  assume inv: "single_inv seed compile cfg s" and step: "supervisor_step from_value compile cfg s t"
  from step show "single_inv seed compile cfg t"
  proof cases
    case (calls client)
    then show ?thesis using inv by (auto simp: single_inv_def run_call_def run_init_def)
  next
    case (ends i task)
    then show ?thesis using inv by (auto simp: single_inv_def task_ended_def dest!: list_update_singleton)
  next
    case (sees_route i ev)
    then show ?thesis
      using inv on_httproute_dirty [of from_value ev "on_shared s i"] initdone_dirty(1) [of from_value "on_shared s i"]
      by (cases ev) (auto simp: single_inv_def with_ctl_def with_relist_def on_shared_def relisting_def dest!: list_update_singleton)
  next
    case (sees_slice i ev)
    then show ?thesis
      using inv on_endpointslice_dirty [of ev "on_shared s i"] initdone_dirty(2) [of "on_shared s i"]
      by (cases ev) (auto simp: single_inv_def with_ctl_def with_relist_def on_shared_def relisting_def dest!: list_update_singleton)
  next
    case (takes i c)
    then show ?thesis
      by (auto simp: single_inv_def with_ctl_def on_shared_def rebuild_start_def split: if_splits dest!: list_update_singleton)
  next
    case (publishes i c)
    then show ?thesis
      by (auto simp: single_inv_def with_ctl_def on_shared_def rebuild_finish_def split: if_splits dest!: list_update_singleton)
  qed (use inv in \<open>auto simp: single_inv_def restart_def serve_request_def intro: used_from_request\<close>)
qed (simp add: start_k8s_reconciler_def single_inv_def)

section \<open>The paths of watched routes\<close>

lemma plain_on_httproute:
  assumes "\<And>j spec. fv j = Some spec \<Longrightarrow> plain_rules spec" "plain_routes (state c)"
  shows "plain_routes (state (on_httproute fv ev c))"
proof -
  have "plain_routes st'" if "insert_route fv obj (state c) = Some st'" for obj st'
    using that assms by (auto simp: insert_route_def plain_routes_def map_insert_def split: bind_splits)
  then show ?thesis
    using assms(2) by (cases ev) (auto simp: on_httproute_def notify_one_def plain_routes_def map_remove_def split: option.split)
qed

lemma routes_on_endpointslice [simp]: "cs_routes (state (on_endpointslice ev c)) = cs_routes (state c)"
  by (cases ev) (auto simp: on_endpointslice_def notify_one_def split: option.split)

lemma watched_plain:
  assumes "\<And>j spec. fv j = Some spec \<Longrightarrow> plain_rules spec" "watched fv st"
  shows "plain_routes st"
  using assms(2)
proof induction
  case (slice c ev')
  then show ?case by (simp add: plain_routes_def)
next
  case (route c ev)
  show ?case by (rule plain_on_httproute [OF assms(1) route.IH])
qed (simp add: plain_routes_def cluster_default_def)

text \<open>
  C8: the table behind the request path.  Whatever the API server, the watches and the tasks of the
  controllers do, and whatever requests are served meanwhile, the active table is the one the proxy was
  started with or was compiled from a state its watches reported; it is the former as long as no client
  could be built.  After a single successful start, when nothing is due and no relist is under way, it
  is the compilation of the reported state (or nothing was ever reported).  The restart loop waits 1, 2, 4, 8, 16
  and then 30 seconds each time, whether or not the controller worked in between.
\<close>

theorem supervised_table:
  assumes "reachable (\<lambda>s. s = start_k8s_reconciler (shared_from_table seed)) (supervisor_step from_value compile cfg) sv"
  shows "(used_from seed (shared_routes sv) \<or> (\<exists>st. watched from_value st \<and> used_from (compile cfg st) (shared_routes sv))) \<and>
    (runs sv = [] \<longrightarrow> used_from seed (shared_routes sv)) \<and>
    (\<forall>r. runs sv = [r] \<and> \<not> dirty (ctl r) \<and> \<not> rebuilding (ctl r) \<and> \<not> relist_routes r \<and> \<not> relist_slices r \<longrightarrow>
       used_from (compile cfg (state (ctl r))) (shared_routes sv) \<or> state (ctl r) = cluster_default \<and> used_from seed (shared_routes sv)) \<and>
    slept sv = map (\<lambda>k. min (2 ^ k) 30) [0..<length (slept sv)]"
  using origin.inv_reachable [OF assms] single.inv_reachable [OF assms] waits.inv_reachable [OF assms]
  unfolding origin_inv_def single_inv_def backoff_inv_def by blast

section \<open>After a restart\<close>

lemma insert_route_event:
  assumes "insert_route fv obj (state c) = Some st"
  shows "on_httproute fv (Apply obj) c = notify_one (c\<lparr>state := st\<rparr>)"
  using assms by (simp add: on_httproute_def)

lemma supervisor_extend:
  "reachable init (supervisor_step fv compile cfg) s \<Longrightarrow> supervisor_step fv compile cfg s t \<Longrightarrow> t = t' \<Longrightarrow>
     reachable init (supervisor_step fv compile cfg) t'"
  by (auto intro: reachable.extend)

definition incarnation :: "ClusterState \<Rightarrow> bool \<Rightarrow> bool \<Rightarrow> 'r SharedRouteTable \<Rightarrow> Task list \<Rightarrow> 'r Incarnation" where
  "incarnation st d b shared tasks =
     \<lparr>ctl = \<lparr>state = st, dirty = d, rebuilding = b, published = shared\<rparr>, relist_routes = False, relist_slices = False, living = tasks\<rparr>"

text \<open>
  C21: a restart can lose an update.  When one task of a controller crashes, its other tasks keep running
  beside those of the restarted controller.  So there are runs in which the restarted controller, with all
  its tasks alive and nothing due, has seen the current routes, but the active table is compiled from the
  routes its predecessor had seen before the crash.
\<close>

theorem restart_loses_update:
  assumes "insert_route from_value old cluster_default = Some st_old" "insert_route from_value new cluster_default = Some st_new"
  shows "\<exists>sv r_old r_new. reachable (\<lambda>s. s = start_k8s_reconciler (shared_from_table seed)) (supervisor_step from_value compile cfg) sv \<and>
    runs sv = [r_old, r_new] \<and> phase sv = Waiting 1 \<and> set (living r_new) = UNIV \<and> state (ctl r_new) = st_new \<and>
    \<not> dirty (ctl r_new) \<and> \<not> rebuilding (ctl r_new) \<and> \<not> relist_routes r_new \<and> \<not> relist_slices r_new \<and>
    shared_load (shared_routes sv) = compile cfg st_old"
proof -
  let ?reach = "reachable (\<lambda>s. s = start_k8s_reconciler (shared_from_table seed)) (supervisor_step from_value compile cfg)"
  let ?all = "[Routes_Task, Slices_Task, Rebuild_Task]" and ?seed = "shared_from_table seed"
  let ?new = "shared_store (compile cfg st_new) ?seed" and ?left = "incarnation st_old False True ?seed [Slices_Task, Rebuild_Task]"
  note defs = supervisor_defs incarnation_def run_init_def notify_one_def rebuild_start_def rebuild_finish_def relisting_def cluster_default_def
  note ev = insert_route_event [where fv = from_value]
  have "?reach (start_k8s_reconciler ?seed)" by (rule reachable.start) simp
  then have "?reach \<lparr>shared_routes = ?seed, runs = [incarnation cluster_default False False ?seed ?all], phase = Waiting 0, backoff = 1, slept = []\<rparr>"
    by (rule supervisor_extend [OF _ supervisor_step.calls [where client = True]]) (simp_all add: defs start_k8s_reconciler_def)
  then have "?reach \<lparr>shared_routes = ?seed, runs = [incarnation st_old True False ?seed ?all], phase = Waiting 0, backoff = 1, slept = []\<rparr>"
    by (rule supervisor_extend [OF _ supervisor_step.sees_route [where i = 0 and ev = "Apply old"]])
      (use assms(1) in \<open>simp_all add: defs ev\<close>)
  then have "?reach \<lparr>shared_routes = ?seed, runs = [incarnation st_old False True ?seed ?all], phase = Waiting 0, backoff = 1, slept = []\<rparr>"
    by (rule supervisor_extend [OF _ supervisor_step.takes [where i = 0 and c = "ctl (incarnation st_old False True ?seed [])"]]) (simp_all add: defs)
  then have "?reach \<lparr>shared_routes = ?seed, runs = [?left], phase = Sleeping, backoff = 1, slept = []\<rparr>"
    by (rule supervisor_extend [OF _ supervisor_step.ends [where i = 0 and task = Routes_Task]]) (simp_all add: defs)
  then have "?reach \<lparr>shared_routes = ?seed, runs = [?left], phase = Calling, backoff = 2, slept = [1]\<rparr>"
    by (rule supervisor_extend [OF _ supervisor_step.wakes]) (simp_all add: defs)
  then have "?reach \<lparr>shared_routes = ?seed, runs = [?left, incarnation cluster_default False False ?seed ?all], phase = Waiting 1, backoff = 2, slept = [1]\<rparr>"
    by (rule supervisor_extend [OF _ supervisor_step.calls [where client = True]]) (simp_all add: defs)
  then have "?reach \<lparr>shared_routes = ?seed, runs = [?left, incarnation st_new True False ?seed ?all], phase = Waiting 1, backoff = 2, slept = [1]\<rparr>"
    by (rule supervisor_extend [OF _ supervisor_step.sees_route [where i = 1 and ev = "Apply new"]])
      (use assms(2) in \<open>simp_all add: defs ev\<close>)
  then have "?reach \<lparr>shared_routes = ?seed, runs = [?left, incarnation st_new False True ?seed ?all], phase = Waiting 1, backoff = 2, slept = [1]\<rparr>"
    by (rule supervisor_extend [OF _ supervisor_step.takes [where i = 1 and c = "ctl (incarnation st_new False True ?seed [])"]]) (simp_all add: defs)
  then have "?reach \<lparr>shared_routes = ?new, runs = [?left, incarnation st_new False False ?new ?all], phase = Waiting 1, backoff = 2, slept = [1]\<rparr>"
    by (rule supervisor_extend [OF _ supervisor_step.publishes [where i = 1 and c = "ctl (incarnation st_new False False ?new [])"]]) (simp_all add: defs)
  then have "?reach \<lparr>shared_routes = shared_store (compile cfg st_old) ?new,
      runs = [incarnation st_old False False (shared_store (compile cfg st_old) ?new) [Slices_Task, Rebuild_Task],
              incarnation st_new False False ?new ?all], phase = Waiting 1, backoff = 2, slept = [1]\<rparr>"
    by (rule supervisor_extend [OF _ supervisor_step.publishes [where i = 0 and c = "ctl (incarnation st_old False False (shared_store (compile cfg st_old) ?new) [])"]]) (simp_all add: defs)
  moreover have "set ?all = UNIV" using Task.exhaust by auto
  ultimately show ?thesis by (fastforce simp: incarnation_def shared_load_def shared_store_def)
qed

section \<open>Examples\<close>

definition example_seed :: RouteConfig where
  "example_seed = single_upstream ''u:1''"

definition example_sv :: "(bytes \<times> RouteAction) list Supervisor" where
  "example_sv = restart (run_call False (start_k8s_reconciler (shared_from_table (config_compile list_http list_router example_seed))))"

lemma example_sv_reachable:
  "reachable (\<lambda>s. s = start_k8s_reconciler (shared_from_table (config_compile list_http list_router example_seed)))
     (supervisor_step (\<lambda>_ :: unit. None) (compile_state list_http list_router (\<lambda>m. m)) controller_default) example_sv"
proof -
  let ?s = "start_k8s_reconciler (shared_from_table (config_compile list_http list_router example_seed))"
    and ?step = "supervisor_step (\<lambda>_ :: unit. None) (compile_state list_http list_router (\<lambda>m. m)) controller_default"
  have "reachable (\<lambda>s. s = ?s) ?step ?s" by (rule reachable.start) simp
  then have "reachable (\<lambda>s. s = ?s) ?step (run_call False ?s)"
    by (rule reachable.extend) (rule supervisor_step.calls, simp add: start_k8s_reconciler_def)
  then show ?thesis unfolding example_sv_def
    by (rule reachable.extend) (rule supervisor_step.wakes, simp add: run_call_def)
qed

theorem supervised_table_witness:
  "slept example_sv = [1] \<and> used_from (config_compile list_http list_router example_seed) (shared_routes example_sv)"
proof -
  have "runs example_sv = []" "length (slept example_sv) = 1"
    by (simp_all add: example_sv_def restart_def run_call_def start_k8s_reconciler_def)
  with supervised_table [OF example_sv_reachable] show ?thesis by simp
qed

definition example_spec_of :: "bool \<Rightarrow> HttpRouteSpec option" where
  "example_spec_of b = Some (if b then sr_spec (snd (hd (cs_routes example_cluster)))
     else \<lparr>parent_refs = [], hostnames = [], rules = []\<rparr>)"

definition example_object :: "bool \<Rightarrow> bool DynamicObject" where
  "example_object b = \<lparr>obj_name = Some ''r'', obj_namespace = Some ''ns'', obj_spec = b\<rparr>"

definition example_seen :: "bool \<Rightarrow> ClusterState" where
  "example_seen b = the (insert_route example_spec_of (example_object b) cluster_default)"

theorem restart_loses_update_witness:
  "\<exists>(sv :: (bytes \<times> RouteAction) list Supervisor) r_old r_new.
     reachable (\<lambda>s. s = start_k8s_reconciler (shared_new list_router))
       (supervisor_step example_spec_of (compile_state list_http list_router (\<lambda>m. m)) controller_default) sv \<and>
     runs sv = [r_old, r_new] \<and> \<not> dirty (ctl r_new) \<and> \<not> rebuilding (ctl r_new) \<and>
     shared_load (shared_routes sv) \<noteq> compile_state list_http list_router (\<lambda>m. m) controller_default (state (ctl r_new))"
proof -
  have st: "insert_route example_spec_of (example_object b) cluster_default = Some (example_seen b)" for b
    by (simp add: example_seen_def insert_route_def example_object_def example_spec_of_def)
  have "table_len (compile_state list_http list_router (\<lambda>m. m) controller_default (example_seen True)) = 1"
    "table_len (compile_state list_http list_router (\<lambda>m. m) controller_default (example_seen False)) = 0"
    by code_simp+
  then have differ: "compile_state list_http list_router (\<lambda>m. m) controller_default (example_seen True)
      \<noteq> compile_state list_http list_router (\<lambda>m. m) controller_default (example_seen False)" by (metis zero_neq_one)
  obtain sv :: "(bytes \<times> RouteAction) list Supervisor" and r_old r_new where run:
    "reachable (\<lambda>s. s = start_k8s_reconciler (shared_from_table (table_empty list_router)))
       (supervisor_step example_spec_of (compile_state list_http list_router (\<lambda>m. m)) controller_default) sv"
    "runs sv = [r_old, r_new]" "\<not> dirty (ctl r_new)" "\<not> rebuilding (ctl r_new)" "state (ctl r_new) = example_seen False"
    "shared_load (shared_routes sv) = compile_state list_http list_router (\<lambda>m. m) controller_default (example_seen True)"
    using restart_loses_update [OF st [of True] st [of False], of "table_empty list_router" "compile_state list_http list_router (\<lambda>m. m)" controller_default]
    by blast
  from differ have "shared_load (shared_routes sv) \<noteq> compile_state list_http list_router (\<lambda>m. m) controller_default (state (ctl r_new))"
    unfolding run(5,6) .
  with run(1-4) show ?thesis unfolding shared_new_def shared_from_table_def [symmetric] by blast
qed

end
