(* ===== verification/Supervised_Planes.thy ===== *)
theory Supervised_Planes
  imports Supervisor Monoio_Server
begin

text \<open>
  The data planes on the table of a supervised controller.  Every request loads the shared table anew
  (\<open>routes.load\<close> in Hyper, HTTP/2 and Pingora, \<open>routes.load_full\<close> in each turn of the Monoio connection
  loop), so between two requests it may have been replaced any number of times.  What the planes rely
  on is stated once, as a locale; the tables of the reachable states of \<open>Supervisor\<close> are shown to keep it.
\<close>

section \<open>What a data plane relies on\<close>

text \<open>Of every table that can be loaded: whatever route a request finds, an endpoint can be selected for it, and only
  one that may serve the request; and a selection leaves a table that can be loaded.\<close>

locale loaded_tables =
  fixes m :: memchr and arch :: arch and R :: "('r, RouteAction) router_lib"
    and loaded :: "'r RouteTable \<Rightarrow> bool" and may_serve :: "bytes option \<Rightarrow> bytes \<Rightarrow> BackendEndpoint \<Rightarrow> bool"
  assumes selects: "loaded t \<Longrightarrow> lookup m arch R t host path = Some a \<Longrightarrow>
    \<exists>e t'. action_select t a = (Some e, t') \<and> may_serve host path e"
    and requests: "loaded t \<Longrightarrow> loaded (snd (action_select t a))"
begin

lemma loaded_select: "loaded t \<Longrightarrow> action_select t a = (x, t') \<Longrightarrow> loaded t'"
  using requests by (metis snd_conv)

lemma hyper_answers:
  assumes "loaded t"
  shows "\<exists>resp out t'. handle_request L U m arch R config upstream t peer req = Some (resp, out, t') \<and> loaded t' \<and>
    (\<forall>r. out = Some r \<longrightarrow> (\<exists>e au pq. may_serve (host_of L (req_uri req) (req_headers req)) (uri_path (req_uri req)) e \<and>
       fst (ep_authority (authority_try_from U) e) = Some au \<and> uri_from_parts U au pq = Some (req_uri r)))"
proof -
  have "handle_request L U m arch R config upstream t peer req \<noteq> None"
    by (rule handle_total) (use selects [OF assms] in fastforce)
  then obtain resp out t' where h: "handle_request L U m arch R config upstream t peer req = Some (resp, out, t')" by auto
  have "\<exists>e au pq. may_serve (host_of L (req_uri req) (req_headers req)) (uri_path (req_uri req)) e \<and>
      fst (ep_authority (authority_try_from U) e) = Some au \<and> uri_from_parts U au pq = Some (req_uri r)" if r: "out = Some r" for r
    by (rule handle_forwarded [OF h [unfolded r]]) (use selects [OF assms] in fastforce)
  moreover have "loaded t'"
    using h assms by (auto simp: handle_request_def Let_def split: option.splits prod.splits dest: loaded_select)
  ultimately show ?thesis using h by blast
qed

lemma h2_answers:
  assumes "loaded t"
  shows "\<exists>resp out t'. h2_handle L U m arch R fwd forward_h1 t peer req = Some (resp, out, t') \<and> loaded t' \<and>
    (\<forall>r. out = Some r \<longrightarrow> (\<exists>e au pq. may_serve (host_of L (req_uri req) (req_headers req)) (uri_path (req_uri req)) e \<and>
       fst (ep_authority (authority_try_from U) e) = Some au \<and> uri_from_parts U au pq = Some (req_uri r)))"
proof (cases "lookup m arch R t (host_of L (req_uri req) (req_headers req)) (uri_path (req_uri req))")
  case None
  then show ?thesis by (simp add: h2_handle_def assms)
next
  case (Some a)
  from selects [OF assms this] obtain e t' where e: "action_select t a = (Some e, t')"
    "may_serve (host_of L (req_uri req) (req_headers req)) (uri_path (req_uri req)) e" by blast
  have t': "loaded t'" by (rule loaded_select [OF assms e(1)])
  show ?thesis
  proof (cases "fst (ep_authority (authority_try_from U) e)")
    case None
    then show ?thesis by (simp add: h2_handle_def Some e(1) t')
  next
    case au: (Some au)
    show ?thesis
    proof (cases "uri_from_parts U au (h2_pq U (filters a) (req_uri req))")
      case None
      then show ?thesis by (simp add: h2_handle_def Some e(1) au t')
    next
      case u: (Some u)
      let ?out = "req\<lparr>req_headers := h2_headers au L fwd peer (filters a) (req_headers req), req_version := HTTP_11, req_uri := u\<rparr>"
      have "\<exists>resp. h2_handle L U m arch R fwd forward_h1 t peer req = Some (resp, Some ?out, t')"
        by (cases "forward_h1 (address e) ?out") (simp_all add: h2_handle_def Some e(1) au u Let_def)
      moreover have "req_uri ?out = u" by simp
      ultimately show ?thesis using e(2) au u t' by (metis option.inject)
    qed
  qed
qed

lemma pingora_answers:
  assumes "loaded t"
  shows "\<exists>dest ctx' t'. upstream_peer L m arch R P t req ctx = Some (dest, ctx', t') \<and> loaded t' \<and>
    (\<forall>addr. dest = Inr addr \<longrightarrow> (\<exists>e. addr = address e \<and>
       may_serve (host_of L (p_uri P req) (p_headers P req)) (uri_path (p_uri P req)) e))"
proof (cases "lookup m arch R t (host_of L (p_uri P req) (p_headers P req)) (uri_path (p_uri P req))")
  case None
  then show ?thesis by (simp add: upstream_peer_def assms)
next
  case (Some a)
  from selects [OF assms this] obtain e t' where e: "action_select t a = (Some e, t')"
    "may_serve (host_of L (p_uri P req) (p_headers P req)) (uri_path (p_uri P req)) e" by blast
  then show ?thesis using loaded_select [OF assms e(1)] by (auto simp: upstream_peer_def Some)
qed

lemma monoio_serves:
  assumes "loaded (w_table w)" "\<And>n t. loaded t \<Longrightarrow> loaded (active n t)" "l_memchr P = m" "coherent w" "connector_spec connect"
    "serve_connection P arch R active connect fwd_headers peer now down w = (r, down', w')"
  shows "r \<noteq> Panicked \<and> loaded (w_table w') \<and> (\<exists>made. w_log w' = w_log w @ made \<and> length made \<le> MAX_REQUESTS_PER_CONNECTION \<and>
    (\<forall>(addr, up)\<in>set made. conn_peer up = addr \<and> (\<exists>host path e. addr = address e \<and> may_serve host path e)))"
proof -
  let ?Q = "\<lambda>addr. \<exists>host path e. addr = address e \<and> may_serve host path e"
  note run = assms(6) [unfolded serve_connection_def]
  have sel: "\<exists>e t'. action_select t a = (Some e, t') \<and> ?Q (address e)"
    if "loaded t" "lookup (l_memchr P) arch R t host path = Some a" for t host path a
    using selects that unfolding assms(3) by blast
  have log: "r \<noteq> Panicked \<and> loaded (w_table w') \<and> (\<exists>made. w_log w' = w_log w @ made \<and> (\<forall>(addr, up)\<in>set made. ?Q addr))"
    by (rule serve_loop_log [where K = loaded, OF run assms(1,2) requests sel])
  then obtain made where made: "w_log w' = w_log w @ made" "\<forall>(addr, up)\<in>set made. ?Q addr" by blast
  have "coherent w' \<and> length (w_log w') \<le> length (w_log w) + MAX_REQUESTS_PER_CONNECTION"
    by (rule serve_loop_coherent [OF run assms(4,5)])
  then have "\<forall>(addr, up)\<in>set made. conn_peer up = addr" "length made \<le> MAX_REQUESTS_PER_CONNECTION"
    using made(1) by (auto simp: coherent_def)
  then show ?thesis using log made by (intro conjI exI [of _ made]) fastforce+
qed

end

section \<open>The tables of a supervised controller\<close>

text \<open>The endpoint belongs to a route for this host and path: of the configuration the proxy was started with, or of
  the cluster as the watches have at some time reported it.\<close>

definition seed_route :: "'h http_lib \<Rightarrow> memchr \<Rightarrow> arch \<Rightarrow> RouteConfig \<Rightarrow> bytes option \<Rightarrow> bytes \<Rightarrow> BackendEndpoint \<Rightarrow> bool" where
  "seed_route L m arch rc host path e \<longleftrightarrow>
     (\<exists>s \<in> entry_spec L ` set (routes rc). tier_of (spec_hostname s) \<in> set (host_tiers m arch host) \<and>
        pattern_at (map_of (map (\<lambda>k. (k, ())) (expand_pattern (spec_path s) (spec_match s)))) (clean_path path) \<noteq> None \<and>
        e \<in> set (group_schedule (from_endpoints (spec_endpoints s))))"

definition cluster_route ::
  "('j \<Rightarrow> HttpRouteSpec option) \<Rightarrow> memchr \<Rightarrow> arch \<Rightarrow> ControllerConfig \<Rightarrow> bytes option \<Rightarrow> bytes \<Rightarrow> BackendEndpoint \<Rightarrow> bool" where
  "cluster_route from_value m arch cfg host path e \<longleftrightarrow>
     (\<exists>st stored rule p. watched from_value st \<and> cluster_serves m arch cfg st host path stored rule p \<and> rule_target st stored rule e)"

text \<open>What the parts outside the repository promise, and that no configured path carries a wildcard of the router.\<close>

definition supervised_env ::
  "('r, RouteAction) router_lib \<Rightarrow> ('r \<Rightarrow> (bytes \<times> RouteAction) list) \<Rightarrow> memchr \<Rightarrow> ((ServiceKey \<times> StoredRoute) list \<Rightarrow> (ServiceKey \<times> StoredRoute) list)
     \<Rightarrow> ('j \<Rightarrow> HttpRouteSpec option) \<Rightarrow> RouteConfig \<Rightarrow> bool" where
  "supervised_env R inside m iter from_value rc \<longleftrightarrow> router_spec R inside \<and> memchr_spec m \<and> iter_spec iter \<and>
     (\<forall>entry\<in>set (routes rc). plain (re_path entry)) \<and> (\<forall>j spec. from_value j = Some spec \<longrightarrow> plain_rules spec)"

text \<open>The tables a request can load while the controller runs beside the data plane.\<close>

definition supervised_load ::
  "'h http_lib \<Rightarrow> ('r, RouteAction) router_lib \<Rightarrow> ((ServiceKey \<times> StoredRoute) list \<Rightarrow> (ServiceKey \<times> StoredRoute) list)
     \<Rightarrow> ('j \<Rightarrow> HttpRouteSpec option) \<Rightarrow> RouteConfig \<Rightarrow> ControllerConfig \<Rightarrow> 'r RouteTable \<Rightarrow> bool" where
  "supervised_load L R iter from_value rc cfg t \<longleftrightarrow>
     (\<exists>sv. reachable (\<lambda>s. s = start_k8s_reconciler (shared_from_table (config_compile L R rc)))
         (supervisor_step from_value (compile_state L R iter) cfg) sv \<and> t = shared_load (shared_routes sv))"

lemma seed_selects:
  assumes "router_spec R inside" "memchr_spec m" "\<forall>entry\<in>set (routes rc). plain (re_path entry)"
    "lookup m arch R (in_use earlier (config_compile L R rc)) host path = Some a"
  shows "\<exists>e t'. action_select (in_use earlier (config_compile L R rc)) a = (Some e, t') \<and> seed_route L m arch rc host path e"
proof -
  let ?ss = "map (entry_spec L) (routes rc)"
  have "\<forall>s\<in>set ?ss. plain (spec_path s)" using assms(3) by (auto simp: entry_spec_def)
  from lookup_action [OF assms(1,2) this build_or_default_build] assms(4)
  obtain i e where i: "i < length ?ss" "tier_of (spec_hostname (?ss ! i)) \<in> set (host_tiers m arch host)"
    "pattern_at (map_of (spec_routes i (?ss ! i))) (clean_path path) \<noteq> None"
    and e: "fst (action_select (in_use earlier (config_compile L R rc)) a) = Some e"
      "e \<in> set (group_schedule (from_endpoints (spec_endpoints (?ss ! i))))"
    unfolding config_compile_def fold_entry_specs by blast
  have "pattern_at (map_of (map (\<lambda>k. (k, ())) (expand_pattern (spec_path (?ss ! i)) (spec_match (?ss ! i))))) (clean_path path) \<noteq> None"
    using i(3) pattern_at_dom [OF spec_routes_dom [of i "?ss ! i"]] by simp
  moreover have "?ss ! i \<in> entry_spec L ` set (routes rc)" using nth_mem [OF i(1)] by simp
  ultimately have "seed_route L m arch rc host path e" unfolding seed_route_def using i(2) e(2) by blast
  with e(1) show ?thesis by (metis prod.collapse)
qed

text \<open>A selection by a request is a step of the supervised system.\<close>

lemma supervised_load_request:
  assumes "supervised_load L R iter from_value rc cfg t"
  shows "supervised_load L R iter from_value rc cfg (snd (action_select t a))"
proof -
  from assms obtain sv where sv: "reachable (\<lambda>s. s = start_k8s_reconciler (shared_from_table (config_compile L R rc)))
      (supervisor_step from_value (compile_state L R iter) cfg) sv" "t = shared_load (shared_routes sv)"
    unfolding supervised_load_def by blast
  from reachable.extend [OF sv(1) supervisor_step.serves]
  have "supervised_load L R iter from_value rc cfg (shared_load (shared_routes (serve_request a sv)))"
    unfolding supervised_load_def by blast
  then show ?thesis by (simp add: sv(2) serve_request_def shared_load_def shared_from_table_def)
qed

interpretation supervised: loaded_tables m arch R
  "\<lambda>t. supervised_env R inside m iter from_value rc \<and> supervised_load L R iter from_value rc cfg t"
  "\<lambda>host path e. seed_route L m arch rc host path e \<or> cluster_route from_value m arch cfg host path e"
  for L :: "'h http_lib" and m arch R inside iter and from_value :: "'j \<Rightarrow> HttpRouteSpec option" and rc cfg
proof
  fix t host path a
  assume ok: "supervised_env R inside m iter from_value rc \<and> supervised_load L R iter from_value rc cfg t"
    and found: "lookup m arch R t host path = Some a"
  note env = ok [THEN conjunct1, unfolded supervised_env_def]
  from ok obtain sv where sv: "reachable (\<lambda>s. s = start_k8s_reconciler (shared_from_table (config_compile L R rc)))
      (supervisor_step from_value (compile_state L R iter) cfg) sv" "t = shared_load (shared_routes sv)"
    unfolding supervised_load_def by blast
  consider earlier where "t = in_use earlier (config_compile L R rc)"
    | earlier st where "watched from_value st" "t = in_use earlier (compile_state L R iter cfg st)"
    using origin.inv_reachable [OF sv(1)] sv(2) unfolding origin_inv_def used_from_def by blast
  then show "\<exists>e t'. action_select t a = (Some e, t') \<and> (seed_route L m arch rc host path e \<or> cluster_route from_value m arch cfg host path e)"
  proof cases
    case (1 earlier)
    then show ?thesis using seed_selects [of R inside m rc arch earlier L host path a] env found by blast
  next
    case (2 earlier st)
    have "plain_routes st" using watched_plain [of from_value st] env 2(1) by blast
    then show ?thesis
      using cluster_action [of R inside m iter st arch earlier L cfg host path a] env found 2 unfolding cluster_route_def by blast
  qed
next
  fix t a
  assume "supervised_env R inside m iter from_value rc \<and> supervised_load L R iter from_value rc cfg t"
  then show "supervised_env R inside m iter from_value rc \<and> supervised_load L R iter from_value rc cfg (snd (action_select t a))"
    using supervised_load_request by blast
qed

section \<open>The request path under supervision\<close>



section \<open>Examples\<close>

lemma example_load:
  "supervised_load list_http list_router (\<lambda>m. m) (\<lambda>_ :: unit. None) example_seed controller_default
     (shared_load (shared_routes example_sv))"
  unfolding supervised_load_def using example_sv_reachable by blast

lemma example_iter: "iter_spec (\<lambda>m :: (ServiceKey \<times> StoredRoute) list. m)"
  by (simp add: iter_spec_def)

lemma example_paths: "\<forall>entry\<in>set (routes example_seed). plain (re_path entry)"
  by (simp add: example_seed_def single_upstream_def)


text \<open>Here every request finds the table the proxy was started with, as another connection may have left it.\<close>

definition supervised_worker :: "(bytes \<times> RouteAction) list Worker" where
  "supervised_worker = \<lparr>w_pool = pool_new, w_table = shared_load (shared_routes example_sv), w_dials = 0, w_log = []\<rparr>"


end
