(* ===== verification/Proxy_Main.thy ===== *)
theory Proxy_Main
  imports Supervisor Runtime_Support Monoio_Server
begin

text \<open>
  The entry points of the three proxies (\<open>main.rs\<close> of \<open>proxy-hyper\<close>, \<open>proxy-pingora\<close> and \<open>proxy-monoio\<close>): the
  arguments with the defaults clap gives them, the table the data plane starts from, whether a controller
  is started, and the configuration of the server.  Reading the route file and parsing it are arguments,
  as in \<open>Route_Config\<close>; logging, the runtimes and the sockets are not modelled.
\<close>

section \<open>Model\<close>

record ProxyArgs =
  arg_listen :: bytes
  arg_mode :: bytes
  arg_config :: "bytes option"
  arg_default_upstream :: bytes
  arg_workers :: "nat option"   \<comment> \<open>\<open>threads\<close> in the Pingora and Monoio binaries\<close>
  arg_gateway_name :: bytes
  arg_namespace :: "bytes option"
  arg_http2_upstream :: bool    \<comment> \<open>of the Hyper binary only\<close>

definition args_default :: "bytes \<Rightarrow> ProxyArgs" where
  "args_default listen =
     \<lparr>arg_listen = listen, arg_mode = ''standalone'', arg_config = None, arg_default_upstream = ''127.0.0.1:9090'',
      arg_workers = None, arg_gateway_name = ''lb-gateway'', arg_namespace = None, arg_http2_upstream = False\<rparr>"

definition hyper_args_default :: ProxyArgs where "hyper_args_default = args_default ''0.0.0.0:8080''"
definition pingora_args_default :: ProxyArgs where "pingora_args_default = args_default ''0.0.0.0:8081''"
definition monoio_args_default :: ProxyArgs where "monoio_args_default = args_default ''0.0.0.0:8082''"

definition thread_count :: "nat \<Rightarrow> ProxyArgs \<Rightarrow> nat" where
  "thread_count num_cpus args = max (case arg_workers args of Some n \<Rightarrow> n | None \<Rightarrow> num_cpus) 1"

definition seed_config ::
  "(bytes \<Rightarrow> 'io + bytes) \<Rightarrow> (bytes \<Rightarrow> 'yaml + RouteConfig) \<Rightarrow> ProxyArgs \<Rightarrow> ('io, 'yaml) ConfigError + RouteConfig" where
  "seed_config read_to_string from_str args =
     (case arg_config args of
        Some path \<Rightarrow> config_from_path read_to_string from_str path
      | None \<Rightarrow> Inr (single_upstream (arg_default_upstream args)))"

definition controller_of :: "ProxyArgs \<Rightarrow> ControllerConfig option" where
  "controller_of args =
     (if arg_mode args = ''k8s'' then Some \<lparr>gateway_name = Some (arg_gateway_name args), cfg_namespace = arg_namespace args\<rparr> else None)"

text \<open>What is set up before the server runs; the controller is started only when there is a configuration for it.\<close>

record 'r Boot =
  boot_allocator :: "bytes option"
  boot_routes :: "'r SharedRouteTable"
  boot_controller :: "ControllerConfig option"

definition boot_with :: "'h http_lib \<Rightarrow> ('r, RouteAction) router_lib \<Rightarrow> bytes \<Rightarrow> ProxyArgs \<Rightarrow> RouteConfig \<Rightarrow> 'r Boot" where
  "boot_with L R allocator args rc =
     \<lparr>boot_allocator = alloc_register allocator None,
      boot_routes = shared_from_table (config_compile L R rc),
      boot_controller = controller_of args\<rparr>"

definition hyper_main ::
  "(bytes \<Rightarrow> 'io + bytes) \<Rightarrow> (bytes \<Rightarrow> 'yaml + RouteConfig) \<Rightarrow> 'h http_lib \<Rightarrow> ('r, RouteAction) router_lib \<Rightarrow> nat \<Rightarrow> ProxyArgs
    \<Rightarrow> ('io, 'yaml) ConfigError + 'r Boot \<times> ServerConfig \<times> ClientConfig" where
  "hyper_main read_to_string from_str L R num_cpus args =
     (let n = thread_count num_cpus args
      in case seed_config read_to_string from_str args of
           Inl e \<Rightarrow> Inl e
         | Inr rc \<Rightarrow> Inr (boot_with L R ''jemalloc'' args rc,
             (server_config_new num_cpus (arg_listen args))\<lparr>workers := n\<rparr>,
             client_config_default\<lparr>http2_upstream := arg_http2_upstream args\<rparr>))"

definition pingora_main ::
  "(bytes \<Rightarrow> 'io + bytes) \<Rightarrow> (bytes \<Rightarrow> 'yaml + RouteConfig) \<Rightarrow> 'h http_lib \<Rightarrow> ('r, RouteAction) router_lib \<Rightarrow> nat \<Rightarrow> ProxyArgs
    \<Rightarrow> ('io, 'yaml) ConfigError + 'r Boot \<times> ServiceConfig" where
  "pingora_main read_to_string from_str L R num_cpus args =
     (let n = thread_count num_cpus args
      in case seed_config read_to_string from_str args of
           Inl e \<Rightarrow> Inl e
         | Inr rc \<Rightarrow> Inr (boot_with L R ''jemalloc'' args rc, (service_config_new num_cpus (arg_listen args))\<lparr>sc_threads := n\<rparr>))"

text \<open>One thread per core, each with its own proxy on the shared table.\<close>

definition monoio_main ::
  "(bytes \<Rightarrow> 'io + bytes) \<Rightarrow> (bytes \<Rightarrow> 'yaml + RouteConfig) \<Rightarrow> 'h http_lib \<Rightarrow> ('r, RouteAction) router_lib \<Rightarrow> nat \<Rightarrow> ProxyArgs
    \<Rightarrow> ('io, 'yaml) ConfigError + 'r Boot \<times> WorkerConfig \<times> bytes list" where
  "monoio_main read_to_string from_str L R num_cpus args =
     (let n = thread_count num_cpus args
      in case seed_config read_to_string from_str args of
           Inl e \<Rightarrow> Inl e
         | Inr rc \<Rightarrow> Inr (boot_with L R ''mimalloc'' args rc, (worker_config_new num_cpus (arg_listen args))\<lparr>wc_workers := n\<rparr>,
             map (\<lambda>worker_id. ''lb-monoio-'' @ show_nat worker_id) [0..<n]))"

section \<open>The default upstream\<close>

lemma schedule_single: "e \<in> set (group_schedule (from_endpoints [ep_new up 1])) \<Longrightarrow> e = ep_new up 1"
  using from_endpoints_schedule [of "[ep_new up 1]"] by (auto simp: ep_new_def split: if_splits)

lemma single_upstream_route:
  assumes "router_spec R kept" "memchr_spec m" "path = [] \<or> starts_with path ''/''"
  shows "\<exists>a t. lookup m arch R (in_use earlier (config_compile L R (single_upstream up))) host path = Some a \<and>
    filters a = None \<and> action_select (in_use earlier (config_compile L R (single_upstream up))) a = (Some (ep_new up 1), t)"
proof -
  let ?tbl = "config_compile L R (single_upstream up)"
  define ss where "ss = [entry_spec L (hd (routes (single_upstream up)))]"
  have plain: "\<forall>s\<in>set ss. plain (spec_path s)" by (simp add: ss_def entry_spec_def single_upstream_def)
  have build: "builder_build R (fold builder_add ss builder_new) = Inr ?tbl"
    by (simp add: ss_def config_compile_def build_or_default_build single_upstream_def)
  note built = built_lookup [OF assms(1,2) plain build]
  have like: "groups_like (map spec_endpoints ss) (groups ?tbl)"
    using built by (simp add: groups_like_def list_all2_map1 list_all2_map2 list_all2_same from_endpoints_ok)
  obtain a where a: "lookup m arch R ?tbl host path = Some a" using single_upstream_serves [OF assms] by blast
  then have look: "lookup m arch R (in_use earlier ?tbl) host path = Some a" using in_use_like [OF like] by metis
  have only: "ss ! i = entry_spec L (hd (routes (single_upstream up)))" if "i < length ss" for i
    using that by (simp add: ss_def)
  obtain i e where i: "i < length ss" "a = spec_action i (ss ! i)" "fst (action_select (in_use earlier ?tbl) a) = Some e"
    "e \<in> set (group_schedule (from_endpoints (spec_endpoints (ss ! i))))"
    using lookup_action [OF assms(1,2) plain build look] by blast
  have "filters a = None" unfolding i(2) only [OF i(1)]
    by (simp add: spec_action_def entry_spec_def single_upstream_def filters_new_def compile_all_def Let_def)
  moreover have "e = ep_new up 1"
    by (rule schedule_single) (use i(4) only [OF i(1)] in \<open>simp add: entry_spec_def single_upstream_def\<close>)
  ultimately show ?thesis using look i(3) by (metis prod.collapse)
qed



end
