(* ===== verification/Pgo_Pipeline.thy ===== *)
theory Pgo_Pipeline
  imports Runner
begin

text \<open>
  The PGO build of a candidate (\<open>profiling/pgo.rs\<close> of the bench crate): an instrumented build, a workload
  that collects profiles, their merge, and the optimised build.  Cargo, rustc, \<open>which\<close>, \<open>llvm-profdata\<close> and the
  file system answer through an environment; every action is logged.
\<close>

section \<open>Model\<close>

record PgoConfig =
  pg_profile_dir :: bytes
  pg_target_dir :: bytes
  pg_route_config :: bytes
  pg_collect_duration :: nat
  pg_concurrencies :: "nat list"
  pg_target_cpu :: bytes

definition pgo_config_default :: PgoConfig where
  "pgo_config_default =
     \<lparr>pg_profile_dir = ''target/pgo-profiles'', pg_target_dir = ''target'', pg_route_config = ''examples/pgo_routes.yaml'',
      pg_collect_duration = from_secs 10, pg_concurrencies = [100, 500, 1000], pg_target_cpu = ''native''\<rparr>"

datatype PgoError =
    Cannot_Pgo Candidate | Profile_Dir_Failed | Absolute_Failed | Cargo_Not_Run | Cargo_Failed
  | Pgo_Bind_Failed | Pgo_Launch_Failed LaunchError | Pgo_Load_Failed | Nothing_Driven
  | Profdata_Missing | No_Profraw | Merge_Not_Run | Merge_Failed

text \<open>\<open>Pgo_Killed\<close> and \<open>Pgo_Mock_Dropped\<close> are the drops of the running candidate (\<open>kill_on_drop\<close>) and of the
  sending end of the mock's shutdown channel when an error leaves \<open>collect_profile\<close>.\<close>

datatype PgoAction =
    Remove_Profiles | Create_Profiles | Cargo "bytes list" bytes | Pgo_Mock MockUpstreamConfig | Pgo_Launch LaunchSpec
  | Pgo_Load LoadConfig | Pgo_Stop | Pgo_Mock_Shutdown | Pgo_Killed | Pgo_Mock_Dropped | Pgo_Collected nat
  | Merge bytes bytes nat

text \<open>A tool's output: whether it succeeded, and its standard output when that is UTF-8.\<close>

type_synonym tool_output = "(bool \<times> bytes option) option"

record ('h, 'w) PgoEnv =
  pe_run :: "('h, 'w) Env"
  pe_create :: "'w \<Rightarrow> bool \<times> 'w"
  pe_absolute :: "bytes \<Rightarrow> bytes option"
  pe_cargo :: "bytes list \<Rightarrow> bytes \<Rightarrow> 'w \<Rightarrow> bool option \<times> 'w"
  pe_exists :: "'w \<Rightarrow> bytes \<Rightarrow> bool"
  pe_sysroot :: "'w \<Rightarrow> tool_output \<times> 'w"
  pe_which :: "'w \<Rightarrow> tool_output \<times> 'w"
  pe_read_dir :: "'w \<Rightarrow> bytes \<Rightarrow> bytes list option"
  pe_merge :: "bytes \<Rightarrow> bytes \<Rightarrow> 'w \<Rightarrow> bool option \<times> 'w"

type_synonym ('w, 'a) pgo = "(PgoError, PgoAction, 'w, 'a) logged"

definition run_cargo :: "('h, 'w) PgoEnv \<Rightarrow> bytes list \<Rightarrow> bytes \<Rightarrow> ('w, unit) pgo" where
  "run_cargo E args rustflags =
     run_bind (run_log (Cargo args rustflags)) (\<lambda>_.
     run_bind (run_ask (pe_cargo E args rustflags)) (\<lambda>r.
       case r of None \<Rightarrow> run_fail Cargo_Not_Run | Some ok \<Rightarrow> if ok then run_return () else run_fail Cargo_Failed))"

definition stdout_of :: "tool_output \<Rightarrow> bytes option" where
  "stdout_of out = (case out of Some (True, Some text) \<Rightarrow> Some (str_trim text) | _ \<Rightarrow> None)"

definition find_llvm_profdata :: "('h, 'w) PgoEnv \<Rightarrow> ('w, bytes option) pgo" where
  "find_llvm_profdata E =
     run_bind (run_ask (pe_sysroot E)) (\<lambda>sysroot.
     run_bind (look (\<lambda>w. case stdout_of sysroot of
         None \<Rightarrow> None
       | Some base \<Rightarrow> (case pe_read_dir E w (path_join base ''lib/rustlib'') of
           None \<Rightarrow> None
         | Some entries \<Rightarrow> find (pe_exists E w) (map (\<lambda>entry. path_join entry ''bin/llvm-profdata'') entries)))) (\<lambda>bundled.
       case bundled of
         Some tool \<Rightarrow> run_return (Some tool)
       | None \<Rightarrow>
           run_bind (run_ask (pe_which E)) (\<lambda>found.
             look (\<lambda>w. case stdout_of found of
               None \<Rightarrow> None
             | Some tool \<Rightarrow> if pe_exists E w tool then Some tool else None))))"

definition build_args :: "bytes \<Rightarrow> bytes list" where
  "build_args binary = [''build'', ''--release'', ''--bin'', binary]"

definition generate_flags :: "PgoConfig \<Rightarrow> bytes \<Rightarrow> bytes" where
  "generate_flags cfg dir = ''-C target-cpu='' @ pg_target_cpu cfg @ '' -C profile-generate='' @ dir"

definition use_flags :: "PgoConfig \<Rightarrow> bytes \<Rightarrow> bytes" where
  "use_flags cfg profdata =
     ''-C target-cpu='' @ pg_target_cpu cfg @ '' -C profile-use='' @ profdata @ '' -C llvm-args=-pgo-warn-missing-function''"

definition build_instrumented :: "('h, 'w) PgoEnv \<Rightarrow> PgoConfig \<Rightarrow> Candidate \<Rightarrow> ('w, unit) pgo" where
  "build_instrumented E cfg candidate =
     (case binary_name candidate of
        None \<Rightarrow> run_fail (Cannot_Pgo candidate)
      | Some binary \<Rightarrow>
          run_bind (run_log Remove_Profiles) (\<lambda>_.
          run_bind (run_log Create_Profiles) (\<lambda>_.
          run_bind (run_ask (pe_create E)) (\<lambda>ok.
            if \<not> ok then run_fail Profile_Dir_Failed
            else case pe_absolute E (pg_profile_dir cfg) of
                   None \<Rightarrow> run_fail Absolute_Failed
                 | Some dir \<Rightarrow> run_cargo E (build_args binary) (generate_flags cfg dir)))))"

text \<open>The workload: every concurrency with two payload sizes, at the candidate's own address.\<close>

definition collect_loads :: "PgoConfig \<Rightarrow> bytes \<Rightarrow> LoadConfig list" where
  "collect_loads cfg base =
     concat (map (\<lambda>conc. map (\<lambda>size. load_config_new (base @ ''/bench?size='' @ show_nat size) conc (pg_collect_duration cfg))
       [1024, 65536]) (pg_concurrencies cfg))"

fun drive :: "('h, 'w) PgoEnv \<Rightarrow> LoadConfig list \<Rightarrow> 'h LatencyRecorder \<Rightarrow> ('w, 'h LatencyRecorder) pgo" where
  "drive E [] recorder = run_return recorder"
| "drive E (load # loads) recorder =
     run_bind (run_log (Pgo_Load load)) (\<lambda>_.
     run_bind (run_ask (env_load (pe_run E) load recorder)) (\<lambda>r.
       case r of
         None \<Rightarrow> run_bind (run_log Pgo_Killed) (\<lambda>_. run_bind (run_log Pgo_Mock_Dropped) (\<lambda>_. run_fail Pgo_Load_Failed))
       | Some (elapsed, recorder) \<Rightarrow> drive E loads recorder))"

definition collect_finish :: "'h LatencyRecorder \<Rightarrow> ('w, nat) pgo" where
  "collect_finish recorder =
     run_bind (run_log Pgo_Stop) (\<lambda>_.
     run_bind (run_log Pgo_Mock_Shutdown) (\<lambda>_.
     let driven = unat (recorder_completed recorder)
     in if driven = 0 then run_fail Nothing_Driven
        else run_bind (run_log (Pgo_Collected driven)) (\<lambda>_. run_return driven)))"

definition collect_spec :: "('h, 'w) PgoEnv \<Rightarrow> PgoConfig \<Rightarrow> Candidate \<Rightarrow> SocketAddr \<Rightarrow> bool \<Rightarrow> LaunchSpec" where
  "collect_spec E cfg candidate upstream has_config =
     (launch_spec_new (env_binary_dir (pe_run E)) candidate (''127.0.0.1'', default_port candidate) upstream)
       \<lparr>ls_binary_dir := path_join (pg_target_dir cfg) ''release'',
        ls_config_path := (if has_config then Some (pg_route_config cfg) else None)\<rparr>"

definition collect_launched :: "('h, 'w) PgoEnv \<Rightarrow> PgoConfig \<Rightarrow> LaunchSpec \<Rightarrow> ('w, nat) pgo" where
  "collect_launched E cfg spec =
     run_bind (run_log (Pgo_Launch spec)) (\<lambda>_.
     run_bind (run_ask (env_launch (pe_run E) spec)) (\<lambda>launched.
       case launched of
         Inl e \<Rightarrow> run_bind (run_log Pgo_Mock_Dropped) (\<lambda>_. run_fail (Pgo_Launch_Failed e))
       | Inr running \<Rightarrow>
           run_bind (drive E (collect_loads cfg (base_url running)) (recorder_new (env_hist (pe_run E)))) collect_finish))"

definition collect_profile :: "('h, 'w) PgoEnv \<Rightarrow> PgoConfig \<Rightarrow> Candidate \<Rightarrow> ('w, nat) pgo" where
  "collect_profile E cfg candidate =
     run_bind (run_ask (env_probe (pe_run E))) (\<lambda>probe.
       case probe of
         None \<Rightarrow> run_fail Pgo_Bind_Failed
       | Some upstream \<Rightarrow>
           run_bind (run_log (Pgo_Mock (mock_config_default\<lparr>mock_listen_addr := show_addr upstream\<rparr>))) (\<lambda>_.
           run_bind (look (\<lambda>w. pe_exists E w (pg_route_config cfg))) (\<lambda>has_config.
             collect_launched E cfg (collect_spec E cfg candidate upstream has_config))))"

definition merge_profiles :: "('h, 'w) PgoEnv \<Rightarrow> PgoConfig \<Rightarrow> ('w, bytes) pgo" where
  "merge_profiles E cfg =
     run_bind (find_llvm_profdata E) (\<lambda>found.
       case found of
         None \<Rightarrow> run_fail Profdata_Missing
       | Some tool \<Rightarrow>
           let merged = path_join (pg_profile_dir cfg) ''merged.profdata''
           in run_bind (look (\<lambda>w. case pe_read_dir E w (pg_profile_dir cfg) of
                None \<Rightarrow> 0
              | Some entries \<Rightarrow> length (filter (\<lambda>p. extension p = Some ''profraw'') entries))) (\<lambda>raw_count.
              if raw_count = 0 then run_fail No_Profraw
              else run_bind (run_log (Merge tool merged raw_count)) (\<lambda>_.
                   run_bind (run_ask (pe_merge E tool merged)) (\<lambda>r.
                     case r of None \<Rightarrow> run_fail Merge_Not_Run | Some ok \<Rightarrow> if ok then run_return merged else run_fail Merge_Failed))))"

definition build_optimized :: "('h, 'w) PgoEnv \<Rightarrow> PgoConfig \<Rightarrow> Candidate \<Rightarrow> bytes \<Rightarrow> ('w, unit) pgo" where
  "build_optimized E cfg candidate profdata =
     (case binary_name candidate of
        None \<Rightarrow> run_fail (Cannot_Pgo candidate)
      | Some binary \<Rightarrow>
          (case pe_absolute E profdata of
             None \<Rightarrow> run_fail Absolute_Failed
           | Some file \<Rightarrow> run_cargo E (build_args binary) (use_flags cfg file)))"

definition pgo_run :: "('h, 'w) PgoEnv \<Rightarrow> PgoConfig \<Rightarrow> Candidate \<Rightarrow> ('w, bytes) pgo" where
  "pgo_run E cfg candidate =
     run_bind (build_instrumented E cfg candidate) (\<lambda>_.
     run_bind (collect_profile E cfg candidate) (\<lambda>_.
     run_bind (merge_profiles E cfg) (\<lambda>profdata.
     run_bind (build_optimized E cfg candidate profdata) (\<lambda>_.
       run_return (path_join (path_join (pg_target_dir cfg) ''release'') (the (binary_name candidate)))))))"

section \<open>The order of the passes\<close>

text \<open>After a failure at most what was started is dropped.\<close>

definition cleanups :: "PgoAction list set" where
  "cleanups = {[], [Pgo_Mock_Dropped], [Pgo_Killed, Pgo_Mock_Dropped]}"

interpretation pgo: planned_run cleanups
  by unfold_locales (simp add: cleanups_def)

lemma cleanup_cases [simp]: "[] \<in> cleanups" "[Pgo_Mock_Dropped] \<in> cleanups" "[Pgo_Killed, Pgo_Mock_Dropped] \<in> cleanups"
  by (simp_all add: cleanups_def)

definition own_url :: "Candidate \<Rightarrow> bytes" where
  "own_url candidate = ''http://'' @ show_addr (''127.0.0.1'', default_port candidate)"

definition instrumented_log :: "('h, 'w) PgoEnv \<Rightarrow> PgoConfig \<Rightarrow> Candidate \<Rightarrow> PgoAction list" where
  "instrumented_log E cfg candidate =
     [Remove_Profiles, Create_Profiles,
      Cargo (build_args (the (binary_name candidate))) (generate_flags cfg (the (pe_absolute E (pg_profile_dir cfg))))]"

definition collect_log :: "('h, 'w) PgoEnv \<Rightarrow> PgoConfig \<Rightarrow> Candidate \<Rightarrow> SocketAddr \<Rightarrow> bool \<Rightarrow> nat \<Rightarrow> PgoAction list" where
  "collect_log E cfg candidate upstream has_config n =
     [Pgo_Mock (mock_config_default\<lparr>mock_listen_addr := show_addr upstream\<rparr>), Pgo_Launch (collect_spec E cfg candidate upstream has_config)] @
     map Pgo_Load (collect_loads cfg (own_url candidate)) @ [Pgo_Stop, Pgo_Mock_Shutdown, Pgo_Collected n]"

definition optimized_log :: "('h, 'w) PgoEnv \<Rightarrow> PgoConfig \<Rightarrow> Candidate \<Rightarrow> bytes \<Rightarrow> PgoAction list" where
  "optimized_log E cfg candidate profdata =
     [Cargo (build_args (the (binary_name candidate))) (use_flags cfg (the (pe_absolute E profdata)))]"

lemma follows_cargo: "appends (run_cargo E args flags) (follows cleanups {[Cargo args flags]} (\<lambda>_. True))"
proof -
  have "appends (run_cargo E args flags) (follows cleanups (concs {[Cargo args flags]} {[]}) (\<lambda>_. True))"
    unfolding run_cargo_def
    by (rule pgo.follows_bind_log, rule pgo.follows_bind_quiet [OF pgo.follows_ask [where Q = "\<lambda>_. True"]])
      (auto split: option.split intro: pgo.follows_return pgo.follows_fail)
  then show ?thesis by simp
qed

lemma follows_build_instrumented:
  "appends (build_instrumented E cfg candidate) (follows cleanups {instrumented_log E cfg candidate} (\<lambda>_. binary_name candidate \<noteq> None))"
proof (cases "binary_name candidate")
  case (Some binary)
  let ?cargo = "{[Cargo (build_args binary) (generate_flags cfg (the (pe_absolute E (pg_profile_dir cfg))))]}"
  have "appends (build_instrumented E cfg candidate)
      (follows cleanups (concs {[Remove_Profiles]} (concs {[Create_Profiles]} ?cargo)) (\<lambda>_. binary_name candidate \<noteq> None))"
    unfolding build_instrumented_def Some option.case
    by (rule pgo.follows_bind_log, rule pgo.follows_bind_log, rule pgo.follows_bind_quiet [OF pgo.follows_ask [where Q = "\<lambda>_. True"]])
      (auto split: option.split intro: pgo.follows_fail pgo.follows_mono [OF follows_cargo])
  then show ?thesis by (simp add: instrumented_log_def Some)
qed (simp add: build_instrumented_def pgo.follows_fail)

lemma follows_build_optimized:
  "appends (build_optimized E cfg candidate profdata) (follows cleanups {optimized_log E cfg candidate profdata} (\<lambda>_. True))"
  unfolding build_optimized_def optimized_log_def
  by (cases "binary_name candidate"; cases "pe_absolute E profdata") (auto intro: pgo.follows_fail follows_cargo)

lemma follows_drop:
  "S \<noteq> {} \<Longrightarrow> appends (run_bind (run_log Pgo_Mock_Dropped) (\<lambda>_. run_fail e)) (follows cleanups S Q)"
  by (auto simp: appends_def run_bind_def run_basics cleanup_cases intro!: pgo.follows_cleanup)

lemma follows_kill:
  "S \<noteq> {} \<Longrightarrow> appends (run_bind (run_log Pgo_Killed) (\<lambda>_. run_bind (run_log Pgo_Mock_Dropped) (\<lambda>_. run_fail e))) (follows cleanups S Q)"
  by (auto simp: appends_def run_bind_def run_basics cleanup_cases intro!: pgo.follows_cleanup)

lemma follows_drive: "appends (drive E loads recorder) (follows cleanups {map Pgo_Load loads} (\<lambda>_. True))"
proof (induction loads arbitrary: recorder)
  case (Cons load loads)
  have "appends (drive E (load # loads) recorder) (follows cleanups (concs {[Pgo_Load load]} {map Pgo_Load loads}) (\<lambda>_. True))"
    unfolding drive.simps
    by (rule pgo.follows_bind_log, rule pgo.follows_bind_quiet [OF pgo.follows_ask [where Q = "\<lambda>_. True"]])
      (auto split: option.split intro: follows_kill Cons.IH)
  then show ?case by simp
qed (simp add: pgo.follows_return)

lemma follows_finish:
  "appends (collect_finish recorder) (follows cleanups {[Pgo_Stop, Pgo_Mock_Shutdown, Pgo_Collected n] | n. 0 < n} (\<lambda>n. 0 < n))"
proof -
  have "appends (let driven = unat (recorder_completed recorder)
      in if driven = 0 then run_fail Nothing_Driven else run_bind (run_log (Pgo_Collected driven)) (\<lambda>_. run_return driven))
      (follows cleanups {[Pgo_Collected n] | n. 0 < n} (\<lambda>n. 0 < n))"
    by (auto simp: appends_def run_bind_def run_basics pgo.follows_simps Let_def cleanup_cases split: if_splits)
  then have "appends (collect_finish recorder)
    (follows cleanups (concs {[Pgo_Stop]} (concs {[Pgo_Mock_Shutdown]} {[Pgo_Collected n] | n. 0 < n})) (\<lambda>n. 0 < n))"
    unfolding collect_finish_def by (intro pgo.follows_bind_log) auto
  then show ?thesis by (rule pgo.follows_mono) (auto simp: concs_def)
qed

definition driven_logs :: "PgoConfig \<Rightarrow> Candidate \<Rightarrow> PgoAction list set" where
  "driven_logs cfg candidate =
     concs {map Pgo_Load (collect_loads cfg (own_url candidate))} {[Pgo_Stop, Pgo_Mock_Shutdown, Pgo_Collected n] | n. 0 < n}"

lemma driven_logs_ne: "driven_logs cfg candidate \<noteq> {}"
  by (auto simp: driven_logs_def)

lemma follows_launched:
  assumes "launch_listens (pe_run E)"
  shows "appends (collect_launched E cfg (collect_spec E cfg candidate upstream has_config))
    (follows cleanups (concs {[Pgo_Launch (collect_spec E cfg candidate upstream has_config)]} (driven_logs cfg candidate)) (\<lambda>n. 0 < n))"
proof -
  have driven: "appends (run_bind (drive E (collect_loads cfg (base_url running)) (recorder_new (env_hist (pe_run E)))) collect_finish)
      (follows cleanups (driven_logs cfg candidate) (\<lambda>n. 0 < n))" if "rc_listen_addr running = (''127.0.0.1'', default_port candidate)" for running
  proof -
    have base: "base_url running = own_url candidate" by (simp only: base_url_def own_url_def that)
    show ?thesis unfolding base driven_logs_def by (rule pgo.follows_bind [OF follows_drive follows_finish]) auto
  qed
  show ?thesis
    unfolding collect_launched_def
  proof (rule pgo.follows_bind_log [OF pgo.follows_bind_quiet [OF pgo.follows_ask [where Q = "\<lambda>r. \<forall>running. r = Inr running \<longrightarrow>
        rc_listen_addr running = (''127.0.0.1'', default_port candidate)"]]])
    show "\<forall>running. fst (env_launch (pe_run E) (collect_spec E cfg candidate upstream has_config) w) = Inr running \<longrightarrow>
        rc_listen_addr running = (''127.0.0.1'', default_port candidate)" for w
      using assms by (auto simp: launch_listens_def collect_spec_def launch_spec_new_def)
  qed (auto split: sum.split intro: driven follows_drop [OF driven_logs_ne] simp: driven_logs_ne)
qed

lemma follows_collect:
  assumes "launch_listens (pe_run E)"
  shows "appends (collect_profile E cfg candidate)
    (follows cleanups {collect_log E cfg candidate upstream has_config n | upstream has_config n. 0 < n} (\<lambda>n. 0 < n))"
proof -
  let ?all = "{collect_log E cfg candidate upstream has_config n | upstream has_config n. 0 < n}"
  have some: "?all \<noteq> {}" by auto
  have mock: "appends (run_bind (run_log (Pgo_Mock (mock_config_default\<lparr>mock_listen_addr := show_addr upstream\<rparr>))) (\<lambda>_.
      run_bind (look has) (\<lambda>has_config. collect_launched E cfg (collect_spec E cfg candidate upstream has_config))))
      (follows cleanups ?all (\<lambda>n. 0 < n))" for has upstream
  proof (rule pgo.follows_mono [OF pgo.follows_bind_log [OF pgo.follows_bind_quiet [OF pgo.follows_look]]])
    show "appends (collect_launched E cfg (collect_spec E cfg candidate upstream h))
        (follows cleanups (\<Union>h. concs {[Pgo_Launch (collect_spec E cfg candidate upstream h)]} (driven_logs cfg candidate)) (\<lambda>n. 0 < n))" for h
      by (rule pgo.follows_mono [OF follows_launched [OF assms]]) auto
    show "concs {[Pgo_Mock (mock_config_default\<lparr>mock_listen_addr := show_addr upstream\<rparr>)]}
        (\<Union>h. concs {[Pgo_Launch (collect_spec E cfg candidate upstream h)]} (driven_logs cfg candidate)) \<subseteq> ?all"
    proof
      fix l
      assume "l \<in> concs {[Pgo_Mock (mock_config_default\<lparr>mock_listen_addr := show_addr upstream\<rparr>)]}
        (\<Union>h. concs {[Pgo_Launch (collect_spec E cfg candidate upstream h)]} (driven_logs cfg candidate))"
      then obtain h n where "l = collect_log E cfg candidate upstream h n" "0 < n"
        by (auto simp: driven_logs_def concs_def collect_log_def)
      then show "l \<in> ?all" by blast
    qed
  qed (auto simp: driven_logs_ne)
  show ?thesis
    unfolding collect_profile_def
  proof (rule pgo.follows_bind_quiet [OF pgo.follows_ask [where Q = "\<lambda>_. True"] _ some])
    fix probe :: "SocketAddr option"
    show "appends (case probe of None \<Rightarrow> run_fail Pgo_Bind_Failed | Some upstream \<Rightarrow>
        run_bind (run_log (Pgo_Mock (mock_config_default\<lparr>mock_listen_addr := show_addr upstream\<rparr>))) (\<lambda>_.
        run_bind (look (\<lambda>w. pe_exists E w (pg_route_config cfg))) (\<lambda>has_config.
          collect_launched E cfg (collect_spec E cfg candidate upstream has_config)))) (follows cleanups ?all (\<lambda>n. 0 < n))"
      by (cases probe) (simp_all only: option.case pgo.follows_fail [OF some] mock)
  qed simp
qed

definition merged_file :: "PgoConfig \<Rightarrow> bytes" where
  "merged_file cfg = path_join (pg_profile_dir cfg) ''merged.profdata''"

lemma follows_find: "appends (find_llvm_profdata E) (follows cleanups {[]} (\<lambda>_. True))"
  unfolding find_llvm_profdata_def
  by (rule pgo.follows_bind_quiet [OF pgo.follows_ask [where Q = "\<lambda>_. True"]], simp, rule pgo.follows_bind_quiet [OF pgo.follows_look])
    (auto split: option.split intro!: pgo.follows_return pgo.follows_bind_quiet [OF pgo.follows_ask [where Q = "\<lambda>_. True"]] pgo.follows_look)

lemma follows_merge_step:
  assumes "0 < k"
  shows "appends (run_bind (run_log (Merge tool merged k)) (\<lambda>_. run_bind (run_ask f) (\<lambda>r.
      case r of None \<Rightarrow> run_fail Merge_Not_Run | Some ok \<Rightarrow> if ok then run_return merged else run_fail Merge_Failed)))
      (follows cleanups {[Merge tool merged k] | tool k. 0 < k} (\<lambda>out. out = merged))"
proof (rule pgo.follows_mono [OF pgo.follows_bind_log [OF pgo.follows_bind_quiet [OF pgo.follows_ask [where Q = "\<lambda>_. True"]]]])
  show "appends (case r of None \<Rightarrow> run_fail Merge_Not_Run | Some ok \<Rightarrow> if ok then run_return merged else run_fail Merge_Failed)
      (follows cleanups {[]} (\<lambda>out. out = merged))" for r
    by (auto split: option.split intro: pgo.follows_return pgo.follows_fail)
qed (use assms in auto)

lemma follows_merge:
  "appends (merge_profiles E cfg) (follows cleanups {[Merge tool (merged_file cfg) k] | tool k. 0 < k} (\<lambda>out. out = merged_file cfg))"
proof -
  have some: "{[Merge tool (merged_file cfg) k] | tool k. 0 < k} \<noteq> {}" by auto
  show ?thesis
    unfolding merge_profiles_def merged_file_def [symmetric] Let_def
    by (rule pgo.follows_bind_quiet [OF follows_find _ some])
      (auto split: option.split intro!: pgo.follows_fail [OF some] pgo.follows_bind_quiet [OF pgo.follows_look _ some] follows_merge_step)
qed

text \<open>
  C28: a PGO build uses a profile that was collected.  When the pipeline succeeds it has run exactly the
  instrumented build, the launch of that build, the whole workload against its own address, a merge of at
  least one raw profile and the build that uses the merged one, in this order, and at least one request was
  completed.  When it fails it has done the beginning of this, so the optimised build is never started after a failed
  pass, and a candidate without a binary fails before the old profiles are removed.
\<close>

theorem pgo_run_ordered:
  assumes "launch_listens (pe_run E)" "pgo_run E cfg candidate (trace, w) = (r, (trace', w'))"
  shows "\<exists>log upstream has_config n tool k. trace' = trace @ log \<and> 0 < n \<and> 0 < k \<and>
    (case r of
       Inr binary \<Rightarrow> binary_name candidate \<noteq> None \<and>
         log = instrumented_log E cfg candidate @ collect_log E cfg candidate upstream has_config n @
               Merge tool (merged_file cfg) k # optimized_log E cfg candidate (merged_file cfg) \<and>
         binary = path_join (path_join (pg_target_dir cfg) ''release'') (the (binary_name candidate))
     | Inl e \<Rightarrow> \<exists>past cleanup. log = past @ cleanup \<and> cleanup \<in> cleanups \<and>
         prefix past (instrumented_log E cfg candidate @ collect_log E cfg candidate upstream has_config n @
               Merge tool (merged_file cfg) k # optimized_log E cfg candidate (merged_file cfg)))
    \<and> (binary_name candidate = None \<longrightarrow> log = [])"
proof -
  let ?collect = "{collect_log E cfg candidate upstream has_config n | upstream has_config n. 0 < n}"
    and ?merge = "{[Merge tool (merged_file cfg) k] | tool k. 0 < k}"
  let ?plans = "concs {instrumented_log E cfg candidate} (concs ?collect (concs ?merge {optimized_log E cfg candidate (merged_file cfg)}))"
  let ?Q = "\<lambda>binary. binary = path_join (path_join (pg_target_dir cfg) ''release'') (the (binary_name candidate)) \<and> binary_name candidate \<noteq> None"
  have run: "appends (pgo_run E cfg candidate) (follows cleanups ?plans ?Q)"
    unfolding pgo_run_def
  proof (rule pgo.follows_bind [OF follows_build_instrumented], rule pgo.follows_bind [OF follows_collect [OF assms(1)]], rule pgo.follows_bind [OF follows_merge])
    fix out
    assume "binary_name candidate \<noteq> None" "out = merged_file cfg"
    then show "appends (run_bind (build_optimized E cfg candidate out) (\<lambda>_. run_return (path_join (path_join (pg_target_dir cfg) ''release'') (the (binary_name candidate)))))
        (follows cleanups {optimized_log E cfg candidate (merged_file cfg)} ?Q)"
      using pgo.follows_bind [OF follows_build_optimized [of E cfg candidate out] pgo.follows_return [where Q = ?Q]] by simp
  qed auto
  from appendsE [OF run assms(2)] obtain log where log: "trace' = trace @ log" "follows cleanups ?plans ?Q r log" by blast
  have none: "log = []" if "binary_name candidate = None"
    using assms(2) log(1) that by (auto simp: pgo_run_def build_instrumented_def run_bind_def run_basics)
  let ?plan = "\<lambda>upstream has_config n tool k. instrumented_log E cfg candidate @ collect_log E cfg candidate upstream has_config n @
      Merge tool (merged_file cfg) k # optimized_log E cfg candidate (merged_file cfg)"
  have shape: "\<exists>upstream has_config n tool k. plan = ?plan upstream has_config n tool k \<and> 0 < n \<and> 0 < k" if mem: "plan \<in> ?plans" for plan
  proof -
    obtain upstream has_config n tool k where
      "plan = instrumented_log E cfg candidate @ (collect_log E cfg candidate upstream has_config n @
        ([Merge tool (merged_file cfg) k] @ optimized_log E cfg candidate (merged_file cfg)))" "0 < n" "0 < k"
      using mem unfolding concs_def by blast
    then have "plan = ?plan upstream has_config n tool k" by simp
    with \<open>0 < n\<close> \<open>0 < k\<close> show ?thesis by blast
  qed
  show ?thesis
  proof (cases r)
    case (Inl e)
    with log(2) obtain plan v c where v: "plan \<in> ?plans" "log = v @ c" "prefix v plan" "c \<in> cleanups" unfolding Inl pgo.follows_simps by blast
    from shape [OF v(1)] obtain upstream has_config n tool k where p: "plan = ?plan upstream has_config n tool k" "0 < n" "0 < k" by blast
    show ?thesis unfolding Inl sum.case
      by (rule exI [of _ log], rule exI [of _ upstream], rule exI [of _ has_config], rule exI [of _ n], rule exI [of _ tool], rule exI [of _ k])
        (intro conjI impI exI [of _ v] exI [of _ c] log(1) p(2,3) v(2,4) v(3) [unfolded p(1)] none)
  next
    case (Inr binary)
    with log(2) have b: "log \<in> ?plans" "?Q binary" unfolding Inr pgo.follows_simps by blast+
    from shape [OF b(1)] obtain upstream has_config n tool k where p: "log = ?plan upstream has_config n tool k" "0 < n" "0 < k" by blast
    show ?thesis unfolding Inr sum.case
      by (rule exI [of _ log], rule exI [of _ upstream], rule exI [of _ has_config], rule exI [of _ n], rule exI [of _ tool], rule exI [of _ k])
        (intro conjI impI log(1) p none conjunct1 [OF b(2)] conjunct2 [OF b(2)])
  qed
qed

section \<open>What the guard counts\<close>

definition only_fails :: "('h, 'w) PgoEnv \<Rightarrow> (LoadConfig \<Rightarrow> nat) \<Rightarrow> bool" where
  "only_fails E fails = (\<forall>load recorder w. \<exists>t recorder'. fst (env_load (pe_run E) load recorder w) = Some (t, recorder') \<and>
     lr_counters recorder' = (lr_counters recorder)\<lparr>ctr_failed := ctr_failed (lr_counters recorder) + of_nat (fails load)\<rparr>)"

lemma drive_only_fails:
  assumes "only_fails E fails"
  shows "\<exists>recorder' s'. drive E loads recorder s = (Inr recorder', s') \<and>
    lr_counters recorder' = (lr_counters recorder)\<lparr>ctr_failed := ctr_failed (lr_counters recorder) + of_nat (\<Sum>load\<leftarrow>loads. fails load)\<rparr>"
proof (induction loads arbitrary: recorder s)
  case (Cons load loads)
  obtain t w where s: "s = (t, w)" by (cases s)
  obtain x recorder1 where load: "fst (env_load (pe_run E) load recorder w) = Some (x, recorder1)"
    "lr_counters recorder1 = (lr_counters recorder)\<lparr>ctr_failed := ctr_failed (lr_counters recorder) + of_nat (fails load)\<rparr>"
    using assms unfolding only_fails_def by blast
  obtain recorder' s' where "drive E loads recorder1 (t @ [Pgo_Load load], snd (env_load (pe_run E) load recorder w)) = (Inr recorder', s')"
    "lr_counters recorder' = (lr_counters recorder1)\<lparr>ctr_failed := ctr_failed (lr_counters recorder1) + of_nat (\<Sum>load\<leftarrow>loads. fails load)\<rparr>"
    using Cons.IH by blast
  then show ?case by (simp add: s run_bind_def run_basics load ac_simps)
qed (simp add: run_basics)

lemma collect_only_fails:
  assumes "fst (env_probe (pe_run E) w) = Some upstream" "launch_listens (pe_run E)"
    and "\<forall>spec w. \<exists>running. fst (env_launch (pe_run E) spec w) = Inr running" "only_fails E fails"
    and "tally = (\<Sum>load\<leftarrow>collect_loads cfg (own_url candidate). fails load)" "0 < tally" "tally < 2 ^ 64"
  shows "fst (collect_profile E cfg candidate (trace, w)) = Inr tally"
proof -
  let ?spec = "\<lambda>h. collect_spec E cfg candidate upstream h" and ?loads = "collect_loads cfg (own_url candidate)"
  have launched: "fst (collect_launched E cfg (?spec h) s) = Inr tally" for h s
  proof -
    obtain t w1 where s: "s = (t, w1)" by (cases s)
    obtain running where r: "fst (env_launch (pe_run E) (?spec h) w1) = Inr running" using assms(3) by blast
    have "rc_listen_addr running = (''127.0.0.1'', default_port candidate)"
      using assms(2) r unfolding launch_listens_def by (simp add: collect_spec_def launch_spec_new_def)
    then have base: "base_url running = own_url candidate" by (simp only: base_url_def own_url_def)
    obtain recorder s' where d: "drive E ?loads (recorder_new (env_hist (pe_run E))) (t @ [Pgo_Launch (?spec h)], snd (env_launch (pe_run E) (?spec h) w1)) = (Inr recorder, s')"
      "lr_counters recorder = (lr_counters (recorder_new (env_hist (pe_run E))))
         \<lparr>ctr_failed := ctr_failed (lr_counters (recorder_new (env_hist (pe_run E)))) + of_nat (\<Sum>load\<leftarrow>?loads. fails load)\<rparr>"
      using drive_only_fails [OF assms(4)] by blast
    have n: "unat (recorder_completed recorder) = tally"
      unfolding recorder_completed_def d(2) assms(5) [symmetric] using assms(7) by (simp add: recorder_new_def unat_of_nat_small)
    obtain t' w' where s': "s' = (t', w')" by (cases s')
    show ?thesis
      unfolding collect_launched_def s
      by (simp add: run_bind_def run_basics r base d(1) collect_finish_def n s' Let_def) (use assms(6) in simp)
  qed
  show ?thesis
    unfolding collect_profile_def look_def by (simp add: run_bind_def run_basics assms(1) launched)
qed

text \<open>
  the guard against an empty profile does not see failed requests.  \<open>collect_profile\<close> refuses to go on
  when no request was completed, but \<open>completed\<close> counts transport failures as well: if every request of the
  workload fails, it still returns their number and the pipeline goes on to merge.
\<close>

theorem collect_counts_failures:
  assumes "fst (env_probe (pe_run E) w) = Some upstream" "launch_listens (pe_run E)"
    and "\<forall>spec w. \<exists>running. fst (env_launch (pe_run E) spec w) = Inr running" "only_fails E fails"
    and "tally = (\<Sum>load\<leftarrow>collect_loads cfg (own_url candidate). fails load)" "0 < tally" "tally < 2 ^ 64"
  shows "fst (collect_profile E cfg candidate (trace, w)) = Inr tally"
  by (rule collect_only_fails [OF assms])

section \<open>Examples\<close>

definition example_pgo :: "(nat list, unit) PgoEnv" where
  "example_pgo =
     \<lparr>pe_run = example_env\<lparr>env_load := (\<lambda>cfg r w. (Some (1, record_failure r), w))\<rparr>, pe_create = (\<lambda>w. (True, w)), pe_absolute = Some,
      pe_cargo = (\<lambda>args flags w. (Some True, w)), pe_exists = (\<lambda>w p. True), pe_sysroot = (\<lambda>w. (Some (True, Some ''/rust''), w)),
      pe_which = (\<lambda>w. (None, w)), pe_read_dir = (\<lambda>w d. Some [d @ ''/a.profraw'']), pe_merge = (\<lambda>tool out w. (Some True, w))\<rparr>"

lemma example_pgo_listens: "launch_listens (pe_run example_pgo)"
  by (simp add: launch_listens_def example_pgo_def example_env_def)

lemma example_pgo_env:
  "fst (env_probe (pe_run example_pgo) ()) = Some (''127.0.0.1'', 40000)"
  "\<forall>spec w. \<exists>running. fst (env_launch (pe_run example_pgo) spec w) = Inr running"
  "only_fails example_pgo (\<lambda>_. 1)"
  by (simp_all add: example_pgo_def example_env_def only_fails_def record_failure_def Let_def)

lemma example_tally: "(6 :: nat) = (\<Sum>load\<leftarrow>collect_loads pgo_config_default (own_url Monoio). 1)"
  by (simp add: collect_loads_def pgo_config_default_def)

lemma example_pgo_fields:
  "pe_cargo example_pgo args flags w = (Some True, w)" "pe_create example_pgo w = (True, w)" "pe_absolute example_pgo p = Some p"
  "pe_read_dir example_pgo w d = Some [d @ ''/a.profraw'']" "pe_merge example_pgo tool out w = (Some True, w)"
  by (simp_all add: example_pgo_def)

lemma example_build:
  "\<exists>t1. build_instrumented example_pgo pgo_config_default Monoio ([], ()) = (Inr (), (t1, ()))"
  "\<exists>t1. build_optimized example_pgo pgo_config_default Monoio m (t, ()) = (Inr (), (t1, ()))"
  by (simp_all only: build_instrumented_def build_optimized_def run_cargo_def run_bind_def run_basics example_pgo_fields
      binary_name.simps option.case prod.case sum.case if_True not_True_eq_False if_False fst_conv snd_conv) (intro exI, rule refl)+

lemma example_collect: "\<exists>t2. collect_profile example_pgo pgo_config_default Monoio (t, ()) = (Inr 6, (t2, ()))"
proof -
  have "fst (collect_profile example_pgo pgo_config_default Monoio (t, ())) = Inr 6"
    by (rule collect_only_fails [OF example_pgo_env(1) example_pgo_listens example_pgo_env(2,3) example_tally]) simp_all
  then show ?thesis by (metis prod.collapse old.unit.exhaust)
qed

lemma example_merge: "\<exists>m t2. merge_profiles example_pgo pgo_config_default (t, ()) = (Inr m, (t2, ()))"
proof -
  have "extension (''target/pgo-profiles'' @ ''/a.profraw'') = Some ''profraw''" by code_simp
  then have raw: "extension (pg_profile_dir pgo_config_default @ ''/a.profraw'') = Some ''profraw''"
    by (simp only: pgo_config_default_def PgoConfig.select_convs)
  have tool: "\<exists>tool. find_llvm_profdata example_pgo (t, ()) = (Inr (Some tool), (t, ()))"
    by (simp add: find_llvm_profdata_def look_def stdout_of_def run_bind_def run_basics example_pgo_def)
  from tool show ?thesis
    by (elim exE) (simp only: merge_profiles_def run_bind_def prod.case sum.case option.case Let_def look_def run_basics example_pgo_fields
        raw filter.simps if_True list.size fst_conv snd_conv, simp add: run_basics example_pgo_fields)
qed

lemma example_pgo_succeeds: "\<exists>b t. pgo_run example_pgo pgo_config_default Monoio ([], ()) = (Inr b, (t, ()))"
proof -
  obtain t1 where build: "build_instrumented example_pgo pgo_config_default Monoio ([], ()) = (Inr (), (t1, ()))" using example_build(1) by blast
  obtain t2 where collect: "collect_profile example_pgo pgo_config_default Monoio (t1, ()) = (Inr 6, (t2, ()))" using example_collect by blast
  obtain m t3 where merge: "merge_profiles example_pgo pgo_config_default (t2, ()) = (Inr m, (t3, ()))" using example_merge by blast
  obtain t4 where opt: "build_optimized example_pgo pgo_config_default Monoio m (t3, ()) = (Inr (), (t4, ()))" using example_build(2) by blast
  show ?thesis by (simp only: pgo_run_def run_bind_def build collect merge opt prod.case sum.case run_basics) (intro exI, rule refl)
qed

theorem pgo_run_ordered_witness:
  "\<exists>log. snd (pgo_run example_pgo pgo_config_default Monoio ([], ())) = (log, ()) \<and> log \<noteq> [] \<and> hd log = Remove_Profiles"
proof -
  obtain b t where out: "pgo_run example_pgo pgo_config_default Monoio ([], ()) = (Inr b, (t, ()))"
    using example_pgo_succeeds by blast
  from pgo_run_ordered [OF example_pgo_listens out] obtain rest where "t = instrumented_log example_pgo pgo_config_default Monoio @ rest"
    unfolding sum.case append_Nil by blast
  then show ?thesis unfolding out by (simp add: instrumented_log_def)
qed

theorem collect_counts_failures_witness:
  "fst (collect_profile example_pgo pgo_config_default Monoio ([], ())) = Inr 6"
  by (rule collect_counts_failures [OF example_pgo_env(1) example_pgo_listens example_pgo_env(2,3) example_tally]) simp_all

end
