(* ===== verification/Markdown.thy ===== *)
theory Markdown
  imports Report Hardware Runner
begin

text \<open>
  The Markdown report and the run directory (\<open>report/markdown.rs\<close> and \<open>report/hardware_report.rs\<close> of the bench
  crate), with the environment snapshot they print (\<open>HardwareSpec\<close> of \<open>metrics/hardware.rs\<close>).  A reader of
  Markdown tables recovers every cell from the report.  \<open>fmt\<close> is the formatting of floating point numbers as in \<open>Report\<close>, \<open>fmt_signed\<close>
  that of \<open>{:+.k}\<close>.
\<close>

section \<open>Lines and rows\<close>

definition newline :: byte where "newline = CHR 0x0A"

text \<open>A text as its lines, each ended by a line feed.\<close>

definition unlines :: "bytes list \<Rightarrow> bytes" where
  "unlines ls = concat (map (\<lambda>l. l @ [newline]) ls)"

definition md_line :: "bytes list \<Rightarrow> bytes" where
  "md_line cells = ''| '' @ join '' | '' cells @ '' |''"

section \<open>The environment snapshot\<close>

record HardwareSpec =
  cpu_model :: bytes
  cpu_cores_physical :: nat
  cpu_cores_logical :: nat
  cpu_frequency_mhz :: nat
  ram_total_gb :: rat
  hw_os :: bytes
  hw_kernel :: bytes
  hw_arch :: bytes
  rust_version :: bytes
  docker_version :: bytes
  kind_version :: bytes
  target_cpu :: bytes
  build_profile :: bytes
  timestamp_utc :: bytes

text \<open>What sysinfo, the probed tools, the build and the clock answer.\<close>

record Machine =
  m_cpus :: "(bytes \<times> nat) list"  \<comment> \<open>brand and frequency of every logical CPU\<close>
  m_physical :: "nat option"
  m_num_cpus :: nat
  m_num_physical :: nat
  m_total_memory :: nat
  m_name :: "bytes option"
  m_os_version :: "bytes option"
  m_kernel :: "bytes option"
  m_arch :: bytes
  m_tool :: "bytes \<Rightarrow> (bool \<times> bytes option) option"
  m_enabled :: "bytes \<Rightarrow> bool"
  m_debug :: bool
  m_unix_secs :: nat

definition detect :: "Machine \<Rightarrow> HardwareSpec" where
  "detect m =
     \<lparr>cpu_model = (case m_cpus m of [] \<Rightarrow> ''Unknown CPU''
                   | (brand, _) # _ \<Rightarrow> if str_trim brand = [] then ''Unknown CPU'' else str_trim brand),
      cpu_cores_physical = (case m_physical m of Some n \<Rightarrow> n | None \<Rightarrow> m_num_physical m),
      cpu_cores_logical = max (length (m_cpus m)) (m_num_cpus m),
      cpu_frequency_mhz = (case m_cpus m of [] \<Rightarrow> 0 | (_, mhz) # _ \<Rightarrow> mhz),
      ram_total_gb = f64_div (f64_of_nat (m_total_memory m)) (1024 * 1024 * 1024),
      hw_os = (case m_name m of Some n \<Rightarrow> n | None \<Rightarrow> ''Unknown'') @ '' '' @ (case m_os_version m of Some v \<Rightarrow> v | None \<Rightarrow> ''?''),
      hw_kernel = (case m_kernel m of Some k \<Rightarrow> k | None \<Rightarrow> ''Unknown''),
      hw_arch = m_arch m,
      rust_version = tool_version (m_tool m ''rustc''),
      docker_version = tool_version (m_tool m ''docker''),
      kind_version = tool_version (m_tool m ''kind''),
      target_cpu = detect_target_cpu (m_arch m) (m_enabled m),
      build_profile = (if m_debug m then ''debug'' else ''release''),
      timestamp_utc = format_iso8601 (m_unix_secs m)\<rparr>"

definition hardware_rows :: "(nat \<Rightarrow> rat \<Rightarrow> bytes) \<Rightarrow> HardwareSpec \<Rightarrow> bytes list list" where
  "hardware_rows fmt hw =
     [[''CPU'', cpu_model hw],
      [''Cores'', show_nat (cpu_cores_physical hw) @ '' physical / '' @ show_nat (cpu_cores_logical hw) @ '' logical''],
      [''CPU frequency'', show_nat (cpu_frequency_mhz hw) @ '' MHz''],
      [''RAM'', fmt 2 (ram_total_gb hw) @ '' GB''],
      [''OS'', hw_os hw],
      [''Kernel'', hw_kernel hw],
      [''Architecture'', hw_arch hw],
      [''Vector features'', target_cpu hw],
      [''Rust toolchain'', rust_version hw],
      [''Build profile'', build_profile hw],
      [''Docker'', docker_version hw],
      [''kind'', kind_version hw],
      [''Captured'', timestamp_utc hw]]"

definition hardware_markdown :: "(nat \<Rightarrow> rat \<Rightarrow> bytes) \<Rightarrow> HardwareSpec \<Rightarrow> bytes" where
  "hardware_markdown fmt hw =
     unlines ([''### Hardware & Environment'', '''', ''| Property | Value |'', ''| :--- | :--- |''] @
              map md_line (hardware_rows fmt hw) @ [''''])"

section \<open>The tables\<close>

definition human_bytes :: "nat \<Rightarrow> bytes" where
  "human_bytes b =
     (if b = 0 then ''-''
      else if 1024 * 1024 \<le> b then show_nat (b div (1024 * 1024)) @ '' MiB''
      else if 1024 \<le> b then show_nat (b div 1024) @ '' KiB''
      else show_nat b @ '' B'')"

definition micros :: "(nat \<Rightarrow> rat \<Rightarrow> bytes) \<Rightarrow> u64 \<Rightarrow> bytes" where
  "micros fmt us =
     (if 1000000 \<le> unat us then fmt 2 (f64_div (f64_of_nat (unat us)) 1000000) @ '' s''
      else if 1000 \<le> unat us then fmt 2 (f64_div (f64_of_nat (unat us)) 1000) @ '' ms''
      else show_u64 us @ [CHR '' '', CHR 0xC2, CHR 0xB5] @ ''s'')"

definition summary_row :: "(nat \<Rightarrow> rat \<Rightarrow> bytes) \<Rightarrow> BenchmarkResult \<Rightarrow> bytes list" where
  "summary_row fmt r =
     [''**'' @ br_candidate_name r @ ''**'', br_http_version r, human_bytes (br_payload_bytes r), show_nat (br_concurrency r),
      ''**'' @ fmt 0 (br_rps r) @ ''**'', fmt 1 (br_throughput_mib_s r) @ '' MiB/s'', micros fmt (br_latency_p50_us r),
      micros fmt (br_latency_p99_us r), micros fmt (br_latency_p999_us r)]"

definition summary_table :: "(nat \<Rightarrow> rat \<Rightarrow> bytes) \<Rightarrow> BenchmarkResult list \<Rightarrow> bytes" where
  "summary_table fmt results =
     unlines ([''## Throughput & Latency'', '''',
               ''| Candidate | Proto | Payload | Conn | RPS | Throughput | p50 | p99 | p99.9 |'',
               ''| :--- | :--- | ---: | ---: | ---: | ---: | ---: | ---: | ---: |''] @
              map (\<lambda>r. md_line (summary_row fmt r)) results @ [''''])"

definition tail_row :: "(nat \<Rightarrow> rat \<Rightarrow> bytes) \<Rightarrow> BenchmarkResult \<Rightarrow> bytes list" where
  "tail_row fmt r =
     [br_candidate_name r, show_nat (br_concurrency r), micros fmt (br_latency_p99_us r), micros fmt (br_co_corrected_p99_us r),
      micros fmt (br_latency_p999_us r), micros fmt (br_co_corrected_p999_us r), micros fmt (br_latency_p9999_us r),
      micros fmt (br_latency_max_us r)]"

definition em_dash :: bytes where "em_dash = [CHR 0xE2, CHR 0x80, CHR 0x94]"

definition tail_text :: "bytes list" where
  "tail_text =
     [''## Tail Latency (raw vs. coordinated-omission corrected)'', '''',
      ''A closed-loop generator cannot observe the requests it failed to send while '' @
      ''blocked on a slow response. The corrected columns apply HdrHistogram's '' @
      ''`record_correct` back-fill against the run's pacing interval, which '' @
      ''reconstructs those missing samples.'', '''',
      ''Correction moves the tail *up* when slowness is bursty '' @ em_dash @ '' a few long stalls '' @
      ''hide many requests that were never issued '' @ em_dash @ '' and *down* when the whole run is '' @
      ''uniformly saturated, because then the back-filled samples are spread below the '' @
      ''observed latency rather than piled at it. Both are the same computation; the '' @
      ''direction tells you which regime the candidate was in.'', '''',
      ''Raw and corrected are identical for closed-loop runs (no `--target-rps`), '' @
      ''where there is no pacing interval to correct against.'', '''']"

definition tail_latency_table :: "(nat \<Rightarrow> rat \<Rightarrow> bytes) \<Rightarrow> BenchmarkResult list \<Rightarrow> bytes" where
  "tail_latency_table fmt results =
     unlines (tail_text @
              [''| Candidate | Conn | p99 raw | p99 corrected | p99.9 raw | p99.9 corrected | p99.99 | max |'',
               ''| :--- | ---: | ---: | ---: | ---: | ---: | ---: | ---: |''] @
              map (\<lambda>r. md_line (tail_row fmt r)) results @ [''''])"

definition rss_per_1k :: "BenchmarkResult \<Rightarrow> rat" where
  "rss_per_1k r =
     (if 0 < br_concurrency r then f64_div (br_rss_memory_mb r) (f64_div (f64_of_nat (br_concurrency r)) 1000) else 0)"

definition resource_row :: "(nat \<Rightarrow> rat \<Rightarrow> bytes) \<Rightarrow> BenchmarkResult \<Rightarrow> bytes list" where
  "resource_row fmt r =
     [br_candidate_name r, show_nat (br_concurrency r), fmt 1 (br_cpu_usage_pct r) @ ''%'', fmt 1 (br_rss_memory_mb r) @ '' MiB'',
      fmt 2 (rss_per_1k r) @ '' MiB'']"

definition resource_table :: "(nat \<Rightarrow> rat \<Rightarrow> bytes) \<Rightarrow> BenchmarkResult list \<Rightarrow> bytes" where
  "resource_table fmt results =
     unlines ([''## Resource Footprint'', '''',
               ''Sampled from the candidate's own process (and its children), not from the '' @ ''benchmark harness.'', '''',
               ''| Candidate | Conn | CPU (mean) | Peak RSS | RSS per 1k conn |'',
               ''| :--- | ---: | ---: | ---: | ---: |''] @
              map (\<lambda>r. md_line (resource_row fmt r)) results @ [''''])"

definition failure_share :: "BenchmarkResult \<Rightarrow> rat" where
  "failure_share r =
     (if 0 < br_total_requests r
      then f64_mul (f64_div (f64_of_nat (unat (br_failed_requests r + br_error_responses r))) (f64_of_nat (unat (br_total_requests r)))) 100
      else 0)"

definition integrity_row :: "(nat \<Rightarrow> rat \<Rightarrow> bytes) \<Rightarrow> BenchmarkResult \<Rightarrow> bytes list" where
  "integrity_row fmt r =
     [br_candidate_name r, show_nat (br_concurrency r), show_u64 (br_failed_requests r), show_u64 (br_error_responses r),
      fmt 2 (failure_share r) @ ''%'']"

definition integrity_section :: "(nat \<Rightarrow> rat \<Rightarrow> bytes) \<Rightarrow> BenchmarkResult list \<Rightarrow> bytes" where
  "integrity_section fmt results =
     (let dirty = filter (\<lambda>r. \<not> is_clean r) results
      in if dirty = []
         then unlines [''## Run Integrity'', '''',
                ''All measurements completed with zero transport failures '' @ ''and zero error responses.'', '''']
         else unlines ([''## Run Integrity'', '''', ''> [!WARNING]'',
                ''> The runs below recorded failures or error responses. Their '' @
                ''throughput figures are not comparable with clean runs, because a request that '' @
                ''404s costs the proxy far less than one it forwards.'', '''',
                ''| Candidate | Conn | Failed | 4xx/5xx | Share |'', ''| :--- | ---: | ---: | ---: | ---: |''] @
                map (\<lambda>r. md_line (integrity_row fmt r)) dirty @ ['''']))"

definition generate_markdown_report :: "(nat \<Rightarrow> rat \<Rightarrow> bytes) \<Rightarrow> HardwareSpec \<Rightarrow> BenchmarkResult list \<Rightarrow> bytes" where
  "generate_markdown_report fmt hw results =
     unlines [''# Reverse Proxy Benchmark Report'', ''''] @ hardware_markdown fmt hw @
     (if results = [] then unlines [''_No measurements were collected._'']
      else summary_table fmt results @ tail_latency_table fmt results @ resource_table fmt results @ integrity_section fmt results)"

section \<open>The comparison of two builds and the flamegraphs\<close>

definition pgo_row :: "(nat \<Rightarrow> rat \<Rightarrow> bytes) \<Rightarrow> (nat \<Rightarrow> rat \<Rightarrow> bytes) \<Rightarrow> BenchmarkResult \<times> BenchmarkResult \<times> rat \<Rightarrow> bytes list" where
  "pgo_row fmt fmt_signed = (\<lambda>(standard, pgo, delta).
     [''c'' @ show_nat (br_concurrency standard) @ '' / '' @ human_bytes (br_payload_bytes standard) @ '' / '' @ br_http_version standard,
      fmt 0 (br_rps standard), fmt 0 (br_rps pgo), ''**'' @ fmt_signed 1 delta @ ''%**'', micros fmt (br_latency_p99_us standard),
      micros fmt (br_latency_p99_us pgo)])"

text \<open>\<open>Sum\<close> of floating point numbers adds from the left, to minus zero.\<close>

definition mean_delta :: "rat list \<Rightarrow> rat" where
  "mean_delta ds = f64_signed (foldl (\<lambda>s d. f64_signed (s + d)) 0 ds / f64_of_nat (length ds))"

definition pgo_delta_section :: "(nat \<Rightarrow> rat \<Rightarrow> bytes) \<Rightarrow> (nat \<Rightarrow> rat \<Rightarrow> bytes) \<Rightarrow> BenchmarkResult list \<Rightarrow> bytes" where
  "pgo_delta_section fmt fmt_signed results =
     (let pairs = pair_pgo_results results
      in if pairs = [] then []
         else unlines ([''## PGO Impact Delta'', '''',
                ''| Workload | Standard RPS | PGO RPS | '' @ [CHR 0xCE, CHR 0x94] @ '' | Standard p99 | PGO p99 |'',
                ''| :--- | ---: | ---: | ---: | ---: | ---: |''] @
                map (\<lambda>p. md_line (pgo_row fmt fmt_signed p)) pairs @
                ['''', ''Mean throughput change from PGO: **'' @ fmt_signed 1 (mean_delta (map (\<lambda>(_, _, d). d) pairs)) @ ''%**'', '''']))"

definition relative_to_report :: "bytes \<Rightarrow> bytes" where
  "relative_to_report p = (case file_name p of Some n \<Rightarrow> ''flamegraphs/'' @ n | None \<Rightarrow> p)"

definition flamegraph_section :: "bytes list \<Rightarrow> bytes" where
  "flamegraph_section paths =
     (if paths = [] then []
      else unlines ([''## Flamegraphs'', ''''] @
             map (\<lambda>p. ''- ['' @ (case file_stem p of Some s \<Rightarrow> s | None \<Rightarrow> ''profile'') @ ''](''  @ relative_to_report p @ '')'') paths @ ['''']))"

section \<open>The run directory\<close>

definition run_directory :: "bytes \<Rightarrow> bytes \<Rightarrow> bytes" where
  "run_directory base timestamp = path_join base (''run_'' @ filter (\<lambda>c. c \<notin> {CHR '':'', CHR ''-'', CHR ''Z''}) timestamp)"

section \<open>Reading tables\<close>

text \<open>
  A reader of pipe tables: a line that starts with a bar is a row, its cells are between the bars with one blank around each,
  and a table is a maximal sequence of rows.
\<close>

definition md_cells :: "bytes \<Rightarrow> bytes list option" where
  "md_cells l =
     (if l \<noteq> [] \<and> hd l = CHR ''|'' then Some (map (\<lambda>c. butlast (tl c)) (butlast (tl (split_on (CHR ''|'') l)))) else None)"

fun md_read :: "bytes list list \<Rightarrow> bytes list \<Rightarrow> bytes list list list" where
  "md_read cur [] = (if cur = [] then [] else [cur])"
| "md_read cur (l # ls) =
     (case md_cells l of
        Some cells \<Rightarrow> md_read (cur @ [cells]) ls
      | None \<Rightarrow> (if cur = [] then [] else [cur]) @ md_read [] ls)"

definition md_tables :: "bytes \<Rightarrow> bytes list list list" where
  "md_tables doc = md_read [] (split_on newline doc)"

definition md_cell :: "bytes \<Rightarrow> bool" where
  "md_cell c = (CHR ''|'' \<notin> set c \<and> newline \<notin> set c)"

lemma md_cell_simps [simp]:
  "md_cell []" "md_cell (a # c) \<longleftrightarrow> a \<noteq> CHR ''|'' \<and> a \<noteq> newline \<and> md_cell c" "md_cell (c @ d) \<longleftrightarrow> md_cell c \<and> md_cell d"
  by (auto simp: md_cell_def)

lemma newline_neq [simp]: "newline \<noteq> CHR ''|''" "CHR ''|'' \<noteq> newline"
  by (simp_all add: newline_def)

lemma md_line_split:
  assumes "cells \<noteq> []" "list_all md_cell cells"
  shows "split_on (CHR ''|'') (md_line cells) = [] # map (\<lambda>c. '' '' @ c @ '' '') cells @ [[]]"
proof -
  have "split_on (CHR ''|'') ('' '' @ join '' | '' cells @ '' |'') = map (\<lambda>c. '' '' @ c @ '' '') cells @ [[]]"
    using assms
  proof (induction cells)
    case (Cons c cs)
    have absent: "CHR ''|'' \<notin> set ('' '' @ c @ '' '')" using Cons.prems(2) by (simp add: md_cell_def)
    show ?case
    proof (cases cs)
      case Nil
      then show ?thesis using split_on_append [OF absent, of "[]"] by simp
    next
      case (Cons d ds)
      have "'' '' @ join '' | '' (c # cs) @ '' |'' = ('' '' @ c @ '' '') @ CHR ''|'' # ('' '' @ join '' | '' cs @ '' |'')"
        unfolding Cons by simp
      then show ?thesis using split_on_append [OF absent] Cons.IH Cons.prems(2) Cons by simp
    qed
  qed simp
  then show ?thesis by (simp add: md_line_def)
qed

lemma md_cells_line: "cells \<noteq> [] \<Longrightarrow> list_all md_cell cells \<Longrightarrow> md_cells (md_line cells) = Some cells"
proof -
  assume a: "cells \<noteq> []" "list_all md_cell cells"
  have "md_line cells \<noteq> []" "hd (md_line cells) = CHR ''|''" by (simp_all add: md_line_def)
  then show ?thesis unfolding md_cells_def md_line_split [OF a] by (simp add: comp_def butlast_append)
qed

lemma join_line: "newline \<notin> set sep \<Longrightarrow> list_all (\<lambda>c. newline \<notin> set c) cells \<Longrightarrow> newline \<notin> set (join sep cells)"
  by (induction sep cells rule: join.induct) auto

lemma md_line_no_newline: "list_all md_cell cells \<Longrightarrow> newline \<notin> set (md_line cells)"
  using join_line [of "'' | ''" cells] by (auto simp: md_line_def md_cell_def list_all_iff newline_def)

lemma split_unlines:
  "list_all (\<lambda>l. newline \<notin> set l) ls \<Longrightarrow> split_on newline (unlines ls @ rest) = ls @ split_on newline rest"
  by (induction ls) (simp_all add: unlines_def split_on_append)

lemma md_read_rows:
  "list_all (\<lambda>cells. cells \<noteq> [] \<and> list_all md_cell cells) rows \<Longrightarrow> md_read cur (map md_line rows @ ls) = md_read (cur @ rows) ls"
  by (induction rows arbitrary: cur) (auto simp: md_cells_line)

lemma md_read_prose: "list_all (\<lambda>l. md_cells l = None) pre \<Longrightarrow> md_read [] (pre @ ls) = md_read [] ls"
  by (induction pre) auto

text \<open>A section: prose, a table and a line that is no row.\<close>

lemma md_section:
  assumes "list_all (\<lambda>l. newline \<notin> set l \<and> md_cells l = None) pre" "list_all (\<lambda>cells. cells \<noteq> [] \<and> list_all md_cell cells) rows"
    and "rows \<noteq> []" "list_all (\<lambda>l. newline \<notin> set l \<and> md_cells l = None) post" "post \<noteq> []"
  shows "md_tables (unlines (pre @ map md_line rows @ post) @ rest) = rows # md_tables rest"
proof -
  have lines: "list_all (\<lambda>l. newline \<notin> set l) (pre @ map md_line rows @ post)"
    using assms(1,2,4) md_line_no_newline by (auto simp: list_all_iff)
  obtain p ps where post: "post = p # ps" using assms(5) by (cases post) auto
  have "md_read [] (pre @ map md_line rows @ post @ split_on newline rest) = md_read rows (post @ split_on newline rest)"
    using md_read_prose [of pre] md_read_rows [OF assms(2), of "[]"] assms(1) by (simp add: list_all_iff)
  also have "\<dots> = rows # md_read [] (split_on newline rest)"
    using assms(3,4) md_read_prose [of ps] unfolding post by (simp add: list_all_iff)
  finally show ?thesis by (simp add: md_tables_def split_unlines [OF lines])
qed

lemma md_prose:
  assumes "list_all (\<lambda>l. newline \<notin> set l \<and> md_cells l = None) pre"
  shows "md_tables (unlines pre @ rest) = md_tables rest"
  using assms split_unlines [of pre rest] md_read_prose [of pre] by (simp add: md_tables_def list_all_iff)

section \<open>The report reads back\<close>

abbreviation "left_col \<equiv> '':---''"
abbreviation "right_col \<equiv> ''---:''"

definition hardware_cells :: "(nat \<Rightarrow> rat \<Rightarrow> bytes) \<Rightarrow> HardwareSpec \<Rightarrow> bytes list list" where
  "hardware_cells fmt hw = [''Property'', ''Value''] # [left_col, left_col] # hardware_rows fmt hw"

definition summary_cells :: "(nat \<Rightarrow> rat \<Rightarrow> bytes) \<Rightarrow> BenchmarkResult list \<Rightarrow> bytes list list" where
  "summary_cells fmt results =
     [''Candidate'', ''Proto'', ''Payload'', ''Conn'', ''RPS'', ''Throughput'', ''p50'', ''p99'', ''p99.9''] #
     ([left_col, left_col] @ replicate 7 right_col) # map (summary_row fmt) results"

definition tail_cells :: "(nat \<Rightarrow> rat \<Rightarrow> bytes) \<Rightarrow> BenchmarkResult list \<Rightarrow> bytes list list" where
  "tail_cells fmt results =
     [''Candidate'', ''Conn'', ''p99 raw'', ''p99 corrected'', ''p99.9 raw'', ''p99.9 corrected'', ''p99.99'', ''max''] #
     (left_col # replicate 7 right_col) # map (tail_row fmt) results"

definition resource_cells :: "(nat \<Rightarrow> rat \<Rightarrow> bytes) \<Rightarrow> BenchmarkResult list \<Rightarrow> bytes list list" where
  "resource_cells fmt results =
     [''Candidate'', ''Conn'', ''CPU (mean)'', ''Peak RSS'', ''RSS per 1k conn''] #
     (left_col # replicate 4 right_col) # map (resource_row fmt) results"

definition integrity_cells :: "(nat \<Rightarrow> rat \<Rightarrow> bytes) \<Rightarrow> BenchmarkResult list \<Rightarrow> bytes list list" where
  "integrity_cells fmt results =
     [''Candidate'', ''Conn'', ''Failed'', ''4xx/5xx'', ''Share''] #
     (left_col # replicate 4 right_col) # map (integrity_row fmt) (filter (\<lambda>r. \<not> is_clean r) results)"

definition pgo_cells :: "(nat \<Rightarrow> rat \<Rightarrow> bytes) \<Rightarrow> (nat \<Rightarrow> rat \<Rightarrow> bytes) \<Rightarrow> BenchmarkResult list \<Rightarrow> bytes list list" where
  "pgo_cells fmt fmt_signed results =
     [''Workload'', ''Standard RPS'', ''PGO RPS'', [CHR 0xCE, CHR 0x94], ''Standard p99'', ''PGO p99''] #
     (left_col # replicate 5 right_col) # map (pgo_row fmt fmt_signed) (pair_pgo_results results)"

text \<open>Texts from outside the report that its tables carry: no bar and no line feed in them.\<close>

definition hardware_plain :: "HardwareSpec \<Rightarrow> bool" where
  "hardware_plain hw = list_all md_cell
     [cpu_model hw, hw_os hw, hw_kernel hw, hw_arch hw, target_cpu hw, rust_version hw, build_profile hw, docker_version hw,
      kind_version hw, timestamp_utc hw]"

definition result_plain :: "BenchmarkResult \<Rightarrow> bool" where
  "result_plain r = (md_cell (br_candidate_name r) \<and> md_cell (br_http_version r))"

definition fmt_plain :: "(nat \<Rightarrow> rat \<Rightarrow> bytes) \<Rightarrow> bool" where
  "fmt_plain fmt = (\<forall>k q. md_cell (fmt k q))"

lemma digits_cell [simp]: "md_cell (show_nat n)" "md_cell (show_u64 w)"
proof -
  show d: "md_cell (show_nat n)" for n
    using show_nat_digits [of n] by (auto simp: md_cell_def list_all_iff newline_def is_digit_def)
  show "md_cell (show_u64 w)" by (simp add: show_u64_def d)
qed

lemma units_cell [simp]: "md_cell (human_bytes b)" "fmt_plain fmt \<Longrightarrow> md_cell (micros fmt us)" "fmt_plain fmt \<Longrightarrow> md_cell (fmt k q)"
  by (simp_all add: human_bytes_def micros_def fmt_plain_def newline_def)

lemma stamp_cell [simp]: "md_cell (format_iso8601 n)"
  by (auto simp: format_iso8601_def iso_text_def pad_zeros_def Let_def newline_def split: prod.split) (simp_all add: md_cell_def newline_def)

lemma rows_plain:
  assumes "fmt_plain fmt" "result_plain r"
  shows "list_all md_cell (summary_row fmt r)" "list_all md_cell (tail_row fmt r)" "list_all md_cell (resource_row fmt r)"
    "list_all md_cell (integrity_row fmt r)"
  using assms by (simp_all add: summary_row_def tail_row_def resource_row_def integrity_row_def result_plain_def newline_def)

lemma pair_pgo_members: "(s, p, d) \<in> set (pair_pgo_results results) \<Longrightarrow> s \<in> set results"
  by (auto simp: pair_pgo_results_def List.map_filter_def Let_def)

lemma pgo_row_plain:
  assumes "fmt_plain fmt" "fmt_plain fmt_signed" "result_plain s"
  shows "list_all md_cell (pgo_row fmt fmt_signed (s, p, d))"
  using assms by (simp add: pgo_row_def result_plain_def newline_def)

lemma prose_line: "l = [] \<or> hd l \<noteq> CHR ''|'' \<Longrightarrow> md_cells l = None"
  by (auto simp: md_cells_def)

lemma hardware_reads:
  assumes "fmt_plain fmt" "hardware_plain hw"
  shows "md_tables (hardware_markdown fmt hw @ rest) = hardware_cells fmt hw # md_tables rest"
proof -
  have "hardware_markdown fmt hw = unlines ([''### Hardware & Environment'', ''''] @ map md_line (hardware_cells fmt hw) @ [''''])"
    by (simp add: hardware_markdown_def hardware_cells_def md_line_def)
  then show ?thesis
    using md_section [of "[''### Hardware & Environment'', '''']" "hardware_cells fmt hw" "['''']"] assms
    by (simp add: hardware_cells_def hardware_rows_def hardware_plain_def prose_line newline_def)
qed

lemma summary_reads:
  assumes "fmt_plain fmt" "list_all result_plain results"
  shows "md_tables (summary_table fmt results @ rest) = summary_cells fmt results # md_tables rest"
proof -
  have "summary_table fmt results = unlines ([''## Throughput & Latency'', ''''] @ map md_line (summary_cells fmt results) @ [''''])"
    by (simp add: summary_table_def summary_cells_def md_line_def numeral_eq_Suc comp_def)
  moreover have "list_all (\<lambda>cells. cells \<noteq> [] \<and> list_all md_cell cells) (summary_cells fmt results)"
    using assms rows_plain(1) [OF assms(1)] by (auto simp: summary_cells_def list_all_iff newline_def numeral_eq_Suc summary_row_def)
  ultimately show ?thesis
    using md_section [of "[''## Throughput & Latency'', '''']" "summary_cells fmt results" "['''']"]
    by (simp add: summary_cells_def prose_line newline_def)
qed

lemma tail_text_prose: "list_all (\<lambda>l. newline \<notin> set l \<and> md_cells l = None) tail_text"
  by (simp add: tail_text_def em_dash_def prose_line newline_def)

lemma tail_reads:
  assumes "fmt_plain fmt" "list_all result_plain results"
  shows "md_tables (tail_latency_table fmt results @ rest) = tail_cells fmt results # md_tables rest"
proof -
  have "tail_latency_table fmt results = unlines (tail_text @ map md_line (tail_cells fmt results) @ [''''])"
    by (simp add: tail_latency_table_def tail_cells_def md_line_def numeral_eq_Suc comp_def)
  moreover have "list_all (\<lambda>cells. cells \<noteq> [] \<and> list_all md_cell cells) (tail_cells fmt results)"
    using assms rows_plain(2) [OF assms(1)] by (auto simp: tail_cells_def list_all_iff newline_def numeral_eq_Suc tail_row_def)
  ultimately show ?thesis
    using md_section [OF tail_text_prose, of "tail_cells fmt results" "['''']"] by (simp add: tail_cells_def prose_line)
qed

lemma resource_reads:
  assumes "fmt_plain fmt" "list_all result_plain results"
  shows "md_tables (resource_table fmt results @ rest) = resource_cells fmt results # md_tables rest"
proof -
  let ?pre = "[''## Resource Footprint'', '''',
     ''Sampled from the candidate's own process (and its children), not from the '' @ ''benchmark harness.'', '''']"
  have "resource_table fmt results = unlines (?pre @ map md_line (resource_cells fmt results) @ [''''])"
    by (simp add: resource_table_def resource_cells_def md_line_def numeral_eq_Suc comp_def)
  moreover have "list_all (\<lambda>cells. cells \<noteq> [] \<and> list_all md_cell cells) (resource_cells fmt results)"
    using assms rows_plain(3) [OF assms(1)] by (auto simp: resource_cells_def list_all_iff newline_def numeral_eq_Suc resource_row_def)
  ultimately show ?thesis
    using md_section [of ?pre "resource_cells fmt results" "['''']"] by (simp add: resource_cells_def prose_line newline_def)
qed

lemma integrity_reads:
  assumes "fmt_plain fmt" "list_all result_plain results"
  shows "md_tables (integrity_section fmt results @ rest) =
    (if list_all is_clean results then [] else [integrity_cells fmt results]) @ md_tables rest"
proof (cases "list_all is_clean results")
  case True
  then have "filter (\<lambda>r. \<not> is_clean r) results = []" by (simp add: filter_empty_conv list_all_iff)
  with True show ?thesis by (simp add: integrity_section_def md_prose prose_line newline_def)
next
  case False
  then have dirty: "filter (\<lambda>r. \<not> is_clean r) results \<noteq> []" by (simp add: filter_empty_conv list_all_iff)
  let ?pre = "[''## Run Integrity'', '''', ''> [!WARNING]'',
     ''> The runs below recorded failures or error responses. Their '' @
     ''throughput figures are not comparable with clean runs, because a request that '' @
     ''404s costs the proxy far less than one it forwards.'', '''']"
  have "integrity_section fmt results = unlines (?pre @ map md_line (integrity_cells fmt results) @ [''''])"
    using dirty by (simp add: integrity_section_def integrity_cells_def md_line_def numeral_eq_Suc comp_def Let_def)
  moreover have "list_all (\<lambda>cells. cells \<noteq> [] \<and> list_all md_cell cells) (integrity_cells fmt results)"
    using assms rows_plain(4) [OF assms(1)] by (auto simp: integrity_cells_def list_all_iff newline_def numeral_eq_Suc integrity_row_def)
  ultimately show ?thesis
    using md_section [of ?pre "integrity_cells fmt results" "['''']"] False by (simp add: integrity_cells_def prose_line newline_def)
qed

lemma pgo_reads:
  assumes "fmt_plain fmt" "fmt_plain fmt_signed" "list_all result_plain results"
  shows "md_tables (pgo_delta_section fmt fmt_signed results @ rest) =
    (if pair_pgo_results results = [] then [] else [pgo_cells fmt fmt_signed results]) @ md_tables rest"
proof (cases "pair_pgo_results results = []")
  case True
  then show ?thesis by (simp add: pgo_delta_section_def)
next
  case False
  let ?pre = "[''## PGO Impact Delta'', '''']"
  let ?post = "['''', ''Mean throughput change from PGO: **'' @ fmt_signed 1 (mean_delta (map (\<lambda>(_, _, d). d) (pair_pgo_results results))) @ ''%**'', '''']"
  have "pgo_delta_section fmt fmt_signed results = unlines (?pre @ map md_line (pgo_cells fmt fmt_signed results) @ ?post)"
    using False by (simp add: pgo_delta_section_def pgo_cells_def md_line_def numeral_eq_Suc comp_def Let_def)
  moreover have "list_all md_cell (pgo_row fmt fmt_signed x)" if "x \<in> set (pair_pgo_results results)" for x
  proof -
    obtain s p d where x: "x = (s, p, d)" by (cases x)
    have "result_plain s" using pair_pgo_members that assms(3) unfolding x by (auto simp: list_all_iff)
    then show ?thesis unfolding x by (rule pgo_row_plain [OF assms(1,2)])
  qed
  then have "list_all (\<lambda>cells. cells \<noteq> [] \<and> list_all md_cell cells) (pgo_cells fmt fmt_signed results)"
    by (auto simp: pgo_cells_def list_all_iff newline_def numeral_eq_Suc pgo_row_def)
  moreover have "newline \<notin> set (fmt_signed k q)" for k q using assms(2) by (simp add: fmt_plain_def md_cell_def)
  ultimately show ?thesis
    using md_section [of ?pre "pgo_cells fmt fmt_signed results" ?post] False by (simp add: pgo_cells_def prose_line newline_def)
qed

lemma flamegraphs_read:
  assumes "list_all (\<lambda>p. newline \<notin> set p) paths"
  shows "md_tables (flamegraph_section paths @ rest) = md_tables rest"
proof -
  have name: "newline \<notin> set n" if "file_name p = Some n" "newline \<notin> set p" for p n
    using that by (auto simp: file_name_def Let_def split: if_splits dest!: set_takeWhileD set_dropWhileD)
  have stem: "newline \<notin> set s" if "file_stem p = Some s" "newline \<notin> set p" for p s
    using that name by (auto simp: file_stem_def Let_def split: if_splits dest!: list.set_sel(2) [rotated] set_dropWhileD)
  have rel: "newline \<notin> set (relative_to_report p)" if "newline \<notin> set p" for p
    using that name [of p] by (auto simp: relative_to_report_def newline_def split: option.split)
  have "list_all (\<lambda>l. newline \<notin> set l \<and> md_cells l = None) ([''## Flamegraphs'', ''''] @
      map (\<lambda>p. ''- ['' @ (case file_stem p of Some s \<Rightarrow> s | None \<Rightarrow> ''profile'') @ ''](''  @ relative_to_report p @ '')'') paths @ [''''])"
    using assms stem rel by (auto simp: list_all_iff prose_line newline_def split: option.split)
  from md_prose [OF this] show ?thesis by (simp add: flamegraph_section_def)
qed

text \<open>The report as \<open>main\<close> writes it.\<close>

definition full_report :: "(nat \<Rightarrow> rat \<Rightarrow> bytes) \<Rightarrow> (nat \<Rightarrow> rat \<Rightarrow> bytes) \<Rightarrow> HardwareSpec \<Rightarrow> BenchmarkResult list \<Rightarrow> bytes list \<Rightarrow> bytes" where
  "full_report fmt fmt_signed hw results paths =
     generate_markdown_report fmt hw results @ pgo_delta_section fmt fmt_signed results @ flamegraph_section paths"

text \<open>
  C30: the Markdown report reads back.  When no name contains a bar or a line feed, a reader of Markdown
  tables finds exactly the tables of the report: the environment, and for every result in order a row of
  throughput, of tail latency and of resources, then a row for exactly the runs with failures or error
  responses, if there are any, and a row for every pair of builds, each with all its cells.
\<close>

theorem report_reads_back:
  assumes "fmt_plain fmt" "fmt_plain fmt_signed" "hardware_plain hw" "list_all result_plain results"
    and "list_all (\<lambda>p. newline \<notin> set p) paths"
  shows "md_tables (full_report fmt fmt_signed hw results paths) =
    [hardware_cells fmt hw] @
    (if results = [] then [] else [summary_cells fmt results, tail_cells fmt results, resource_cells fmt results]) @
    (if list_all is_clean results then [] else [integrity_cells fmt results]) @
    (if pair_pgo_results results = [] then [] else [pgo_cells fmt fmt_signed results])"
proof -
  let ?ends = "pgo_delta_section fmt fmt_signed results @ flamegraph_section paths"
  have ends: "md_tables ?ends = (if pair_pgo_results results = [] then [] else [pgo_cells fmt fmt_signed results])"
    using pgo_reads [OF assms(1,2,4)] flamegraphs_read [OF assms(5), of "[]"] by (simp add: md_tables_def md_cells_def)
  have title: "md_tables (unlines [''# Reverse Proxy Benchmark Report'', ''''] @ rest) = md_tables rest" for rest
    by (rule md_prose) (simp add: prose_line newline_def)
  have none: "md_tables (unlines [''_No measurements were collected._''] @ rest) = md_tables rest" for rest
    by (rule md_prose) (simp add: prose_line newline_def)
  show ?thesis
  proof (cases "results = []")
    case True
    then show ?thesis using ends [unfolded True]
      by (simp only: full_report_def generate_markdown_report_def append_assoc title none hardware_reads [OF assms(1,3)]
          if_True append.simps list.pred_inject simp_thms)
  next
    case False
    then show ?thesis
      by (simp only: full_report_def generate_markdown_report_def append_assoc title hardware_reads [OF assms(1,3)]
          summary_reads [OF assms(1,4)] tail_reads [OF assms(1,4)] resource_reads [OF assms(1,4)] integrity_reads [OF assms(1,4)]
          ends if_False append.simps)
  qed
qed

definition example_machine :: Machine where
  "example_machine =
     \<lparr>m_cpus = [('' Example CPU '', 3000)], m_physical = None, m_num_cpus = 2, m_num_physical = 1, m_total_memory = 2 ^ 33,
      m_name = Some ''Linux'', m_os_version = None, m_kernel = None, m_arch = ''riscv64'', m_tool = (\<lambda>_. None),
      m_enabled = (\<lambda>_. False), m_debug = False, m_unix_secs = 0\<rparr>"

theorem report_reads_back_witness:
  "let tables = md_tables (full_report (\<lambda>k q. ''1.0'') (\<lambda>k q. ''+1.0'') (detect example_machine) [example_row] [])
   in length tables = 4 \<and> tables ! 0 ! 2 = [''CPU'', ''Example CPU''] \<and> length (tables ! 3 ! 2) = 5"
proof -
  have fmt: "fmt_plain (\<lambda>k q. ''1.0'')" "fmt_plain (\<lambda>k q. ''+1.0'')" by (simp_all add: fmt_plain_def newline_def)
  have cpu: "str_trim '' Example CPU '' = ''Example CPU''" by code_simp

  have hw: "hardware_plain (detect example_machine)"
    by (simp add: hardware_plain_def detect_def example_machine_def cpu tool_version_def detect_target_cpu_def newline_def)
  have row: "br_candidate_name example_row = ''lb, the proxy''" "br_http_version example_row = ''HTTP/1.1''"
    by (simp_all add: example_row_def summarize_def Let_def)
  have plain: "list_all result_plain [example_row]" by (simp add: result_plain_def row newline_def)
  have clean: "is_clean example_row" by (simp add: is_clean_def example_row_def summarize_def Let_def recorder_new_def)
  have pairs: "pair_pgo_results [example_row] = []"
    by (simp add: pair_pgo_results_def row ends_with_def List.map_filter_def suffix_def Let_def)
  show ?thesis
    using report_reads_back [OF fmt hw plain, of "[]"] clean pairs
    by (simp add: hardware_cells_def hardware_rows_def resource_cells_def resource_row_def detect_def example_machine_def cpu)
qed

end
