(* ===== verification/Shell.thy ===== *)
theory Shell
  imports Logged_Run Rust_Str
begin

text \<open>
  Commands the bench crate runs: a command is the list of its program and arguments.  What it answers is an argument: whether
  it succeeded and what it printed, or nothing when it cannot be started.  Commands and sleeps are logged.
\<close>

record 'w Shell =
  sh_output :: "bytes list \<Rightarrow> 'w \<Rightarrow> (bool \<times> bytes) option \<times> 'w"
  sh_exists :: "'w \<Rightarrow> bytes \<Rightarrow> bool"
  sh_create_dir :: "bytes \<Rightarrow> 'w \<Rightarrow> bool \<times> 'w"
  sh_read_dir :: "'w \<Rightarrow> bytes \<Rightarrow> bytes list option"

datatype ShellAction = Ran "bytes list" | Slept nat

datatype ShellError = Missing bytes | Not_Started | Failed bytes

type_synonym ('w, 'a) shell = "(ShellError, ShellAction, 'w, 'a) logged"

definition tool_output :: "'w Shell \<Rightarrow> bytes list \<Rightarrow> ('w, (bool \<times> bytes) option) shell" where
  "tool_output sh cmd = run_bind (run_log (Ran cmd)) (\<lambda>_. run_ask (sh_output sh cmd))"

text \<open>\<open>run_checked\<close>: a command that has to succeed; the error names what was done.\<close>

definition run_checked :: "'w Shell \<Rightarrow> bytes list \<Rightarrow> bytes \<Rightarrow> ('w, unit) shell" where
  "run_checked sh cmd what =
     run_bind (tool_output sh cmd) (\<lambda>r.
       case r of None \<Rightarrow> run_fail Not_Started | Some (ok, _) \<Rightarrow> if ok then run_return () else run_fail (Failed what))"

text \<open>A failed command leaves nothing to clean up.\<close>

interpretation sh: planned_run "{[]} :: ShellAction list set"
  by unfold_locales simp

lemma follows_output: "appends (tool_output sh cmd) (follows {[]} {[Ran cmd]} (\<lambda>_. True))"
  unfolding tool_output_def using sh.follows_bind_log [of "\<lambda>_. run_ask (sh_output sh cmd)" "{[]}" "\<lambda>_. True" "Ran cmd"]
  by (simp add: sh.follows_ask)

lemma follows_checked: "appends (run_checked sh cmd what) (follows {[]} {[Ran cmd]} (\<lambda>_. True))"
proof -
  have "appends (run_checked sh cmd what) (follows {[]} (concs {[Ran cmd]} {[]}) (\<lambda>_. True))"
    unfolding run_checked_def
    by (rule sh.follows_bind [OF follows_output]) (auto split: option.split intro: sh.follows_return sh.follows_fail)
  then show ?thesis by simp
qed

text \<open>A run that follows one list of commands has run a beginning of it, and all of it when it succeeds.\<close>

lemma follows_commands:
  assumes "appends m (follows {[]} {map Ran plan} Q)" "m (t, w) = (r, (t', w'))"
  shows "\<exists>n. t' = t @ map Ran (take n plan) \<and> (\<forall>x. r = Inr x \<longrightarrow> take n plan = plan)"
proof -
  obtain u where u: "t' = t @ u" "follows {[]} {map Ran plan} Q r u" by (rule appendsE [OF assms])
  show ?thesis
  proof (cases r)
    case (Inl e)
    then have "prefix u (map Ran plan)" using u(2) by (auto simp: follows_def)
    then have "u = take (length u) (map Ran plan)" by (auto simp: prefix_def)
    then show ?thesis using u(1) Inl by (auto simp: take_map)
  next
    case (Inr x)
    then have "u = map Ran plan" using u(2) by (simp add: follows_def)
    then show ?thesis using u(1) by (intro exI [of _ "length plan"]) simp
  qed
qed

end
