(* ===== verification/Flamegraph.thy ===== *)
theory Flamegraph
  imports Shell Rust_Path Bench_Scenario
begin

text \<open>
  CPU profiles of the candidates (\<open>profiling/flamegraph.rs\<close> of the bench crate): the commands that capture one, with
  every way to come back without, and the list of captured files for the report.  A profile is never an
  error: the results are options.
\<close>

record FlamegraphConfig =
  fl_output_dir :: bytes
  fl_duration :: nat
  fl_frequency :: nat

definition flamegraph_config_default :: FlamegraphConfig where
  "flamegraph_config_default = \<lparr>fl_output_dir = ''results/flamegraphs'', fl_duration = from_secs 30, fl_frequency = 997\<rparr>"

definition as_secs :: "nat \<Rightarrow> nat" where "as_secs d = d div 1000000000"

definition succeeded :: "(bool \<times> bytes) option \<Rightarrow> bool" where
  "succeeded r = (case r of Some (ok, _) \<Rightarrow> ok | None \<Rightarrow> False)"

definition profiler_available :: "'w Shell \<Rightarrow> bool \<Rightarrow> ('w, bool) shell" where
  "profiler_available sh macos =
     run_bind (tool_output sh [''which'', if macos then ''dtrace'' else ''perf'']) (\<lambda>r. run_return (succeeded r))"

definition output_path :: "FlamegraphConfig \<Rightarrow> Candidate \<Rightarrow> nat \<Rightarrow> bytes" where
  "output_path cfg candidate concurrency =
     path_join (fl_output_dir cfg) (display_name candidate @ ''-c'' @ show_nat concurrency @ ''.svg'')"

text \<open>The end of both captures: the file counts only when the command succeeded and has written it.\<close>

definition captured :: "'w Shell \<Rightarrow> bytes list \<Rightarrow> bytes \<Rightarrow> ('w, bytes option) shell" where
  "captured sh cmd target =
     run_bind (tool_output sh cmd) (\<lambda>r.
       look (\<lambda>w. if succeeded r \<and> sh_exists sh w target then Some target else None))"

definition flamegraph_command :: "FlamegraphConfig \<Rightarrow> nat \<Rightarrow> bytes \<Rightarrow> bytes list" where
  "flamegraph_command cfg pid target =
     [''flamegraph'', ''--pid'', show_nat pid, ''--freq'', show_nat (fl_frequency cfg), ''--output'', target, ''--'', ''sleep'',
      show_nat (as_secs (fl_duration cfg))]"

definition capture_process :: "'w Shell \<Rightarrow> bool \<Rightarrow> FlamegraphConfig \<Rightarrow> Candidate \<Rightarrow> nat \<Rightarrow> nat \<Rightarrow> ('w, bytes option) shell" where
  "capture_process sh macos cfg candidate pid concurrency =
     run_bind (profiler_available sh macos) (\<lambda>available.
       if \<not> available then run_return None
       else run_bind (run_ask (sh_create_dir sh (fl_output_dir cfg))) (\<lambda>created.
         if \<not> created then run_return None
         else let target = output_path cfg candidate concurrency in captured sh (flamegraph_command cfg pid target) target))"

definition pprof_command :: "FlamegraphConfig \<Rightarrow> bytes \<Rightarrow> bytes \<Rightarrow> bytes list" where
  "pprof_command cfg pprof_url target =
     [''go'', ''tool'', ''pprof'', ''-svg'', ''-output'', target,
      pprof_url @ ''/debug/pprof/profile?seconds='' @ show_nat (as_secs (fl_duration cfg))]"

definition capture_traefik_pprof :: "'w Shell \<Rightarrow> FlamegraphConfig \<Rightarrow> bytes \<Rightarrow> nat \<Rightarrow> ('w, bytes option) shell" where
  "capture_traefik_pprof sh cfg pprof_url concurrency =
     run_bind (run_ask (sh_create_dir sh (fl_output_dir cfg))) (\<lambda>created.
       if \<not> created then run_return None
       else let target = output_path cfg Traefik concurrency in captured sh (pprof_command cfg pprof_url target) target)"

text \<open>\<open>collected\<close>, of the listing of the output directory.\<close>

definition collected :: "bytes list option \<Rightarrow> bytes list" where
  "collected entries =
     (case entries of
        None \<Rightarrow> []
      | Some paths \<Rightarrow> sort_by bytes_le (filter (\<lambda>p. extension p = Some ''svg'') paths))"

definition has_symbols :: "(bool \<times> bytes) option \<Rightarrow> bool" where
  "has_symbols nm = (case nm of None \<Rightarrow> True | Some (ok, out) \<Rightarrow> ok \<and> 1024 < length out)"

section \<open>Captured files are collected\<close>

lemma takeWhile_rev_dir: "c \<notin> set n \<Longrightarrow> takeWhile (\<lambda>x. x \<noteq> c) (rev n @ c # d) = rev n"
  by (subst takeWhile_append2) auto

lemma takeWhile_rev_all: "c \<notin> set n \<Longrightarrow> takeWhile (\<lambda>x. x \<noteq> c) (rev n) = rev n"
  by (auto simp: takeWhile_eq_all_conv)

lemma path_join_name:
  assumes "CHR ''/'' \<notin> set n"
  shows "rev (takeWhile (\<lambda>c. c \<noteq> CHR ''/'') (rev (path_join d n))) = n"
proof (cases "d = []")
  case True
  then show ?thesis by (simp add: path_join_def takeWhile_rev_all [OF assms])
next
  case False
  have "\<exists>d'. rev (path_join d n) = rev n @ CHR ''/'' # d'"
  proof (cases "last d = CHR ''/''")
    case True
    then have "d = butlast d @ [CHR ''/'']" using False append_butlast_last_id [of d] by simp
    then have "rev d = CHR ''/'' # rev (butlast d)" by (metis rev.simps(2) rev_append rev_rev_ident rev_singleton_conv append_Cons append_Nil)
    moreover have "path_join d n = d @ n" using True False by (simp add: path_join_def)
    ultimately have "rev (path_join d n) = rev n @ CHR ''/'' # rev (butlast d)" by (simp only: rev_append)
    then show ?thesis by (rule exI)
  qed (use False in \<open>simp add: path_join_def\<close>)
  then show ?thesis using takeWhile_rev_dir [OF assms] by auto
qed

lemma output_path_svg: "extension (output_path cfg candidate concurrency) = Some ''svg''"
proof -
  let ?name = "display_name candidate @ ''-c'' @ show_nat concurrency @ ''.svg''"
  have "CHR ''/'' \<notin> set ?name"
    using show_nat_digits [of concurrency] by (cases candidate) (auto simp: list_all_iff is_digit_def)
  then have "rev (takeWhile (\<lambda>c. c \<noteq> CHR ''/'') (rev (output_path cfg candidate concurrency))) = ?name"
    unfolding output_path_def by (rule path_join_name)
  then show ?thesis by (simp add: extension_def Let_def)
qed

text \<open>
  A capture never fails the run, and what it returns is a path that the report then finds: whenever the listing of the
  output directory has the file, it is among the collected ones, which are all the SVG files in order.
\<close>

theorem captured_is_collected:
  assumes "capture_process sh macos cfg candidate pid concurrency (trace, w) = (r, (trace', w'))"
  shows "\<exists>result. r = Inr result \<and> (\<forall>p. result = Some p \<longrightarrow> p = output_path cfg candidate concurrency \<and> sh_exists sh w' p \<and>
    (\<forall>paths. p \<in> set paths \<longrightarrow> p \<in> set (collected (Some paths)) \<and> sorted_wrt bytes_le (collected (Some paths))))"
proof -
  have "\<exists>result. r = Inr result \<and> (\<forall>p. result = Some p \<longrightarrow> p = output_path cfg candidate concurrency \<and> sh_exists sh w' p)"
    using assms
    by (auto simp: capture_process_def profiler_available_def tool_output_def captured_def look_def run_bind_def run_basics Let_def split: if_splits)
  then show ?thesis using output_path_svg names.sort_by_sorted by (auto simp: collected_def)
qed

end
