(* ===== verification/Bench_Cli.thy ===== *)
theory Bench_Cli
  imports Markdown Pgo_Pipeline Flamegraph
begin

text \<open>
  The command line of the benchmark (\<open>main.rs\<close> of the bench crate): durations, the scenario and the
  candidates the arguments ask for, the configuration of the runner, and the run itself up to the sorted
  results, and the files it leaves.  clap, the parser of socket addresses, serde and the environment are arguments.
\<close>

section \<open>Durations\<close>

text \<open>
  \<open>str::parse::<f64>\<close> on a text without letters, which excludes exponents, infinities and \<open>nan\<close>: an optional sign,
  digits and at most one dot, with at least one digit.  The result is the sign and the rounded magnitude.
\<close>

definition parse_decimal :: "bytes \<Rightarrow> (bool \<times> rat) option" where
  "parse_decimal s =
     (let neg = (s \<noteq> [] \<and> hd s = CHR ''-'');
          body = (if s \<noteq> [] \<and> (hd s = CHR ''-'' \<or> hd s = CHR ''+'') then tl s else s);
          whole = takeWhile is_digit body;
          rest = dropWhile is_digit body;
          frac = (case rest of c # cs \<Rightarrow> if c = CHR ''.'' then cs else rest | [] \<Rightarrow> [])
      in if (rest = [] \<or> hd rest = CHR ''.'') \<and> list_all is_digit frac \<and> whole @ frac \<noteq> []
         then Some (neg, f64_round (of_nat (digits_val (whole @ frac)) / 10 ^ length frac)) else None)"

datatype CliError =
    Invalid_Duration bytes | Unknown_Unit bytes bytes | Unknown_Scenario bytes | Unknown_Payload bytes | Unknown_Version bytes
  | Unknown_Candidate bytes | Bad_Target bytes

definition is_ascii_alphabetic :: "byte \<Rightarrow> bool" where
  "is_ascii_alphabetic c = (let n = (of_char c :: nat) in 97 \<le> n \<and> n \<le> 122 \<or> 65 \<le> n \<and> n \<le> 90)"

definition parse_duration :: "bytes \<Rightarrow> (CliError + nat) option" where
  "parse_duration arg =
     (let txt = str_trim arg;
          value = takeWhile (\<lambda>c. \<not> is_ascii_alphabetic c) txt;
          rest = dropWhile (\<lambda>c. \<not> is_ascii_alphabetic c) txt;
          unit = (if rest = [] then ''s'' else rest)
      in case parse_decimal value of
           None \<Rightarrow> Some (Inl (Invalid_Duration txt))
         | Some (neg, v) \<Rightarrow>
             (case (if unit = ''ms'' then Some (f64_div v 1000)
                    else if unit = ''s'' then Some v
                    else if unit = ''m'' then Some (f64_mul v 60)
                    else if unit = ''h'' then Some (f64_mul v 3600) else None) of
                None \<Rightarrow> Some (Inl (Unknown_Unit unit txt))
              | Some secs \<Rightarrow> map_option Inr (from_secs_f64 (neg, secs))))"

section \<open>Arguments\<close>

datatype Mode = Local_Mode | K8s_Mode

record Args =
  a_mode :: Mode
  a_candidate :: "bytes list"
  a_all :: bool
  a_scenario :: bytes
  a_concurrency :: "nat list"
  a_payload_sizes :: "bytes list"
  a_http :: "bytes list"
  a_duration :: bytes
  a_warmup :: bytes
  a_target_rps :: "nat option"
  a_churn_rate :: nat
  a_upstream_delay_ms :: nat
  a_workers :: "nat option"
  a_binary_dir :: "bytes option"
  a_config :: "bytes option"
  a_target :: "bytes option"
  a_output_dir :: bytes
  a_flamegraph :: bool
  a_pgo :: bool
  a_quick :: bool

text \<open>The values clap gives to options that are left out.\<close>

definition bench_args_default :: Args where
  "bench_args_default =
     \<lparr>a_mode = Local_Mode, a_candidate = [], a_all = False, a_scenario = ''throughput'', a_concurrency = [], a_payload_sizes = [],
      a_http = [], a_duration = ''30s'', a_warmup = ''15s'', a_target_rps = None, a_churn_rate = 0, a_upstream_delay_ms = 0,
      a_workers = None, a_binary_dir = None, a_config = None, a_target = None, a_output_dir = ''results'', a_flamegraph = False,
      a_pgo = False, a_quick = False\<rparr>"

text \<open>\<open>collect::<Result<Vec<_>, _>>\<close>: the values, or the first error.\<close>

fun parse_each :: "('b \<Rightarrow> 'a option) \<Rightarrow> ('b \<Rightarrow> 'e) \<Rightarrow> 'b list \<Rightarrow> 'e + 'a list" where
  "parse_each p err [] = Inr []"
| "parse_each p err (s # ss) =
     (case p s of None \<Rightarrow> Inl (err s) | Some x \<Rightarrow> (case parse_each p err ss of Inl e \<Rightarrow> Inl e | Inr xs \<Rightarrow> Inr (x # xs)))"

definition base_scenario :: "Args \<Rightarrow> ScenarioKind \<Rightarrow> ScenarioConfig" where
  "base_scenario args kind =
     (if a_quick args then sc_quick
      else case kind of
             Throughput \<Rightarrow> sc_throughput
           | ConnectionDensity \<Rightarrow> sc_connection_density
           | RouteChurn \<Rightarrow> sc_route_churn (max (a_churn_rate args) 10)
           | PgoDelta \<Rightarrow> sc_pgo_delta)"

definition override_with :: "'e + 'a list \<Rightarrow> 'a list \<Rightarrow> 'e + 'a list" where
  "override_with given dflt = (case given of Inl e \<Rightarrow> Inl e | Inr [] \<Rightarrow> Inr dflt | Inr xs \<Rightarrow> Inr xs)"

definition scenario_duration :: "Args \<Rightarrow> ScenarioConfig \<Rightarrow> (CliError + nat) option" where
  "scenario_duration args s = (if a_quick args then Some (Inr (sc_duration s)) else parse_duration (a_duration args))"

definition build_scenario :: "Args \<Rightarrow> (CliError + ScenarioConfig) option" where
  "build_scenario args =
     (case kind_parse (a_scenario args) of
        None \<Rightarrow> Some (Inl (Unknown_Scenario (a_scenario args)))
      | Some kind \<Rightarrow>
          (let s = base_scenario args kind;
               s = (if a_concurrency args \<noteq> [] then s\<lparr>sc_concurrencies := a_concurrency args\<rparr> else s)
           in case override_with (parse_each payload_parse Unknown_Payload (a_payload_sizes args)) (sc_payloads s) of
                Inl e \<Rightarrow> Some (Inl e)
              | Inr payloads \<Rightarrow>
                  (case override_with (parse_each version_parse Unknown_Version (a_http args)) (sc_http_versions s) of
                     Inl e \<Rightarrow> Some (Inl e)
                   | Inr versions \<Rightarrow>
                       (case scenario_duration args s of
                          None \<Rightarrow> None
                        | Some (Inl e) \<Rightarrow> Some (Inl e)
                        | Some (Inr d) \<Rightarrow>
                            (let s = s\<lparr>sc_payloads := payloads, sc_http_versions := versions, sc_duration := d\<rparr>;
                                 s = (case a_target_rps args of Some rps \<Rightarrow> s\<lparr>sc_target_rps := Some rps\<rparr> | None \<Rightarrow> s);
                                 s = (if 0 < a_churn_rate args then s\<lparr>sc_route_churn_rate_hz := a_churn_rate args\<rparr> else s)
                             in Some (Inr s))))))"

definition selected_candidates :: "Args \<Rightarrow> CliError + Candidate list" where
  "selected_candidates args =
     (if a_all args then Inr candidate_all
      else if a_candidate args = [] then Inr [Hyper]
      else parse_each candidate_parse Unknown_Candidate (a_candidate args))"

definition deployment_of :: "(bytes \<Rightarrow> SocketAddr option) \<Rightarrow> bytes \<Rightarrow> Args \<Rightarrow> CliError + Deployment" where
  "deployment_of parse_addr binary_dir args =
     (case a_target args of
        Some addr \<Rightarrow> (case parse_addr addr of None \<Rightarrow> Inl (Bad_Target addr) | Some a \<Rightarrow> Inr (External a None))
      | None \<Rightarrow> (case a_mode args of
          Local_Mode \<Rightarrow> Inr (Local binary_dir (a_workers args))
        | K8s_Mode \<Rightarrow> Inr (External (''127.0.0.1'', 0) None)))"

definition warmup_of :: "Args \<Rightarrow> (CliError + WarmupProtocol) option" where
  "warmup_of args =
     (if a_quick args then Some (Inr warmup_quick)
      else case parse_duration (a_warmup args) of
             None \<Rightarrow> None
           | Some (Inl e) \<Rightarrow> Some (Inl e)
           | Some (Inr d) \<Rightarrow> Some (Inr (warmup_default\<lparr>traffic := d\<rparr>)))"

section \<open>Durations are read exactly\<close>

definition unit_ns :: "bytes \<Rightarrow> nat option" where
  "unit_ns u = map_of [(''ms'', 1000000), (''s'', 1000000000), (''m'', 60000000000), (''h'', 3600000000000)] u"

lemma round_half_even_near:
  assumes "\<bar>q - of_int k\<bar> < 1 / 2"
  shows "round_half_even q = k"
proof -
  have "\<bar>of_int (round_half_even q) - (of_int k :: rat)\<bar> < 1"
    using assms round_half_even_error [of q] by linarith
  then have "of_int \<bar>round_half_even q - k\<bar> < (of_int 1 :: rat)" by simp
  then have "\<bar>round_half_even q - k\<bar> < 1" by (simp only: of_int_less_iff)
  then show ?thesis by simp
qed

lemma ms_exact:
  assumes "n < 2 ^ 32"
  shows "round_half_even (f64_div (of_nat n) 1000 * 1000000000) = int (n * 1000000)"
proof (cases "n = 0")
  case True
  then show ?thesis by (simp add: f64_div_def f64_round_def round_half_even_def)
next
  case False
  define q :: rat where "q = of_nat n / 1000"
  have n: "(of_nat n :: rat) \<le> 2 ^ 32" using assms by (metis less_imp_le of_nat_le_iff of_nat_numeral of_nat_power)
  have "(1 :: rat) \<le> of_nat n" using False by simp
  then have "1 / 2 ^ 64 \<le> q" by (simp add: q_def)
  from f64_round_error [OF powi_small [OF this]] have err: "\<bar>f64_round q - q\<bar> \<le> q / 2 ^ 53" .
  have "f64_round q * 1000000000 - of_int (int (n * 1000000)) = (f64_round q - q) * 1000000000"
    by (simp add: q_def left_diff_distrib)
  then have "\<bar>f64_round q * 1000000000 - of_int (int (n * 1000000))\<bar> = \<bar>f64_round q - q\<bar> * 1000000000"
    by (simp only: abs_mult abs_numeral)
  also have "\<dots> \<le> q / 2 ^ 53 * 1000000000" using err by (rule mult_right_mono) simp
  also have "\<dots> \<le> 2 ^ 32 * 1000000 / 2 ^ 53" using n by (simp add: q_def)
  also have "\<dots> < 1 / 2" by simp
  finally show ?thesis unfolding f64_div_def q_def [symmetric] by (rule round_half_even_near)
qed

lemma int_exact:
  assumes "n < 2 ^ 53"
  shows "f64_round (of_nat n) = of_nat n" "round_half_even (of_nat n * 1000000000) = int (n * 1000000000)"
proof -
  show "f64_round (of_nat n) = of_nat n" by (rule f64_of_nat_exact [OF assms])
  have "(of_nat n * 1000000000 :: rat) = of_int (int (n * 1000000000))" by simp
  then show "round_half_even (of_nat n * 1000000000) = int (n * 1000000000)" by (simp only: round_half_even_int)
qed

lemma parse_decimal_show: "parse_decimal (show_nat n) = Some (False, f64_round (of_nat n))"
proof -
  obtain c cs where s: "show_nat n = c # cs" "list_all is_digit (c # cs)"
    using show_nat_digits [of n] by (cases "show_nat n") auto
  have c: "c \<noteq> CHR ''-''" "c \<noteq> CHR ''+''" using s(2) by (auto simp: is_digit_def)
  have ds: "is_digit c" "takeWhile is_digit cs = cs" "dropWhile is_digit cs = []" "\<forall>x\<in>set cs. is_digit x"
    using s(2) by (auto simp: list_all_iff takeWhile_eq_all_conv dropWhile_eq_Nil_conv)
  have "digits_val (c # cs) = n" using digits_val_show_nat [of n] s(1) by simp
  then show ?thesis using c by (simp add: parse_decimal_def s(1) ds Let_def)
qed

lemma digit_not_alphabetic: "is_digit c \<Longrightarrow> \<not> is_ascii_alphabetic c \<and> plain_edge c"
  by (auto simp: is_digit_def is_ascii_alphabetic_def plain_edge_def Let_def)

lemma duration_text:
  assumes "u \<noteq> []" "is_ascii_alphabetic (hd u)" "plain_edge (last u)"
  shows "str_trim (show_nat n @ u) = show_nat n @ u"
    "takeWhile (\<lambda>c. \<not> is_ascii_alphabetic c) (show_nat n @ u) = show_nat n"
    "dropWhile (\<lambda>c. \<not> is_ascii_alphabetic c) (show_nat n @ u) = u"
proof -
  have digits: "\<forall>c\<in>set (show_nat n). is_digit c" "show_nat n \<noteq> []" using show_nat_digits [of n] by (auto simp: list_all_iff)
  then have "plain_edge (hd (show_nat n))" using digit_not_alphabetic by auto
  then show "str_trim (show_nat n @ u) = show_nat n @ u"
    using str_trim_spaces [of "[]" "[]" "show_nat n @ u"] digits(2) assms(1,3) by simp
  obtain c cs where u: "u = c # cs" using assms(1) by (cases u) auto
  show "takeWhile (\<lambda>c. \<not> is_ascii_alphabetic c) (show_nat n @ u) = show_nat n"
    "dropWhile (\<lambda>c. \<not> is_ascii_alphabetic c) (show_nat n @ u) = u"
    using digits(1) digit_not_alphabetic assms(2) by (simp_all add: u takeWhile_append dropWhile_append)
qed

lemma unit_text: "unit_ns u = Some k \<Longrightarrow> u \<noteq> [] \<and> is_ascii_alphabetic (hd u) \<and> plain_edge (last u)"
  by (auto simp: unit_ns_def is_ascii_alphabetic_def plain_edge_def Let_def split: if_splits)

text \<open>
  durations are read exactly.  Although the value goes through \<open>f64\<close> arithmetic, a whole number of
  milliseconds, seconds, minutes or hours below \<open>2^32\<close> is read as exactly that many nanoseconds; any other
  unit is an error that names it.
\<close>

theorem duration_round_trip:
  assumes "n < 2 ^ 32"
  shows "(\<forall>k. unit_ns u = Some k \<longrightarrow> parse_duration (show_nat n @ u) = Some (Inr (n * k))) \<and>
    (unit_ns u = None \<and> u \<noteq> [] \<and> list_all is_ascii_alphabetic u \<longrightarrow>
       parse_duration (show_nat n @ u) = Some (Inl (Unknown_Unit u (show_nat n @ u))))"
proof -
  have big: "n < 2 ^ 53" "n * 60 < 2 ^ 53" "n * 3600 < 2 ^ 53" using assms by simp_all
  have le: "(of_nat m :: rat) < 2 ^ 64" if "m < 2 ^ 53" for m :: nat
  proof -
    have "of_nat m < (of_nat (2 ^ 64) :: rat)" using that by (simp only: of_nat_less_iff) simp
    then show ?thesis by simp
  qed
  note dtext = duration_text [of u n]
  have secs: "from_secs_f64 (False, of_nat m) = Some (m * 1000000000)" if "m < 2 ^ 53" for m
    using int_exact(2) [OF that] le [OF that] by (simp add: from_secs_f64_def)
  have ms: "from_secs_f64 (False, f64_div (of_nat n) 1000) = Some (n * 1000000)"
  proof -
    have "f64_div (of_nat n) 1000 \<le> f64_round (of_nat n)" unfolding f64_div_def by (rule f64_round_mono) simp
    then have "f64_div (of_nat n) 1000 < 2 ^ 64" using int_exact(1) [OF big(1)] le [OF big(1)] by simp
    then show ?thesis using ms_exact [OF assms] by (simp add: from_secs_f64_def)
  qed
  have mul: "f64_mul (of_nat n) 60 = of_nat (n * 60)" "f64_mul (of_nat n) 3600 = of_nat (n * 3600)"
    using int_exact(1) [OF big(2)] int_exact(1) [OF big(3)] by (simp_all add: f64_mul_def)
  have good: "parse_duration (show_nat n @ u) = Some (Inr (n * k))" if u: "unit_ns u = Some k" for k
  proof -
    note t = dtext [OF unit_text [OF u, THEN conjunct1] unit_text [OF u, THEN conjunct2, THEN conjunct1] unit_text [OF u, THEN conjunct2, THEN conjunct2]]
    consider "u = ''ms''" "k = 1000000" | "u = ''s''" "k = 1000000000" | "u = ''m''" "k = 60000000000" | "u = ''h''" "k = 3600000000000"
      using u by (auto simp: unit_ns_def split: if_splits)
    then show ?thesis
      unfolding parse_duration_def Let_def t parse_decimal_show int_exact(1) [OF big(1)]
      by cases (simp_all add: ms mul secs [OF big(1)] secs [OF big(2), simplified] secs [OF big(3), simplified])
  qed
  have bad: "parse_duration (show_nat n @ u) = Some (Inl (Unknown_Unit u (show_nat n @ u)))"
    if "unit_ns u = None" "u \<noteq> []" "list_all is_ascii_alphabetic u"
  proof -
    have "is_ascii_alphabetic (hd u)" "is_ascii_alphabetic (last u)" using that(2,3) by (auto simp: list_all_iff)
    then have "plain_edge (last u)" by (auto simp: plain_edge_def is_ascii_alphabetic_def Let_def)
    note t = dtext [OF that(2) \<open>is_ascii_alphabetic (hd u)\<close> this]
    have "u \<noteq> ''ms''" "u \<noteq> ''s''" "u \<noteq> ''m''" "u \<noteq> ''h''" using that(1) by (auto simp: unit_ns_def split: if_splits)
    then show ?thesis unfolding parse_duration_def Let_def t parse_decimal_show using that(2) by simp
  qed
  from good bad show ?thesis by blast
qed

theorem duration_round_trip_witness:
  "parse_duration (show_nat 1500 @ ''ms'') = Some (Inr (1500 * 1000000)) \<and>
   parse_duration (show_nat 2 @ ''w'') = Some (Inl (Unknown_Unit ''w'' (show_nat 2 @ ''w'')))"
proof -
  have units: "unit_ns ''ms'' = Some 1000000" "unit_ns ''w'' = None" "list_all is_ascii_alphabetic ''w''"
    by (simp_all add: unit_ns_def is_ascii_alphabetic_def)
  show ?thesis
    using duration_round_trip [of 1500 "''ms''", THEN conjunct1] duration_round_trip [of 2 "''w''", THEN conjunct2] units by simp
qed

section \<open>The run\<close>

text \<open>Results are sorted by candidate name, then concurrency; \<open>sort_by\<close> is stable.\<close>

definition result_le :: "BenchmarkResult \<Rightarrow> BenchmarkResult \<Rightarrow> bool" where
  "result_le a b =
     (if br_candidate_name a = br_candidate_name b then br_concurrency a \<le> br_concurrency b
      else bytes_le (br_candidate_name a) (br_candidate_name b))"

definition sort_results :: "BenchmarkResult list \<Rightarrow> BenchmarkResult list" where
  "sort_results = sort_by result_le"

datatype BenchError = Cli_Error CliError | Baseline_Failed | Pgo_Failed PgoError | Run_Failed RunError | Write_Failed

record BenchPlan =
  plan_scenario :: ScenarioConfig
  plan_candidates :: "Candidate list"
  plan_runner :: RunnerConfig
  plan_binary_dir :: bytes

definition bench_plan :: "(bytes \<Rightarrow> SocketAddr option) \<Rightarrow> bytes \<Rightarrow> Args \<Rightarrow> (CliError + BenchPlan) option" where
  "bench_plan parse_addr default_dir args =
     (case build_scenario args of
        None \<Rightarrow> None
      | Some (Inl e) \<Rightarrow> Some (Inl e)
      | Some (Inr scenario) \<Rightarrow>
          (case selected_candidates args of
             Inl e \<Rightarrow> Some (Inl e)
           | Inr candidates \<Rightarrow>
               (let binary_dir = (case a_binary_dir args of Some d \<Rightarrow> d | None \<Rightarrow> default_dir)
                in case deployment_of parse_addr binary_dir args of
                     Inl e \<Rightarrow> Some (Inl e)
                   | Inr deployment \<Rightarrow>
                       (case warmup_of args of
                          None \<Rightarrow> None
                        | Some (Inl e) \<Rightarrow> Some (Inl e)
                        | Some (Inr warmup) \<Rightarrow>
                            Some (Inr \<lparr>plan_scenario = scenario, plan_candidates = candidates,
                              plan_runner = \<lparr>rcfg_warmup = warmup, rcfg_deployment = deployment, rcfg_upstream_addr = None,
                                rcfg_upstream_delay_ms = a_upstream_delay_ms args, rcfg_config_path = a_config args\<rparr>,
                              plan_binary_dir = binary_dir\<rparr>)))))"

text \<open>
  The measurements: the PGO comparison of the first candidate, after keeping a copy of its standard build (\<open>baseline\<close>
  answers whether that works), or all candidates in turn.  The logs of the pipeline and of the runner are separate.
\<close>

definition bench_measure ::
  "('h, 'w) PgoEnv \<Rightarrow> bool \<Rightarrow> (Candidate \<Rightarrow> bytes \<Rightarrow> 'w \<Rightarrow> bool \<times> 'w) \<Rightarrow> Args \<Rightarrow> BenchPlan \<Rightarrow> 'w
     \<Rightarrow> (BenchError + BenchmarkResult list) \<times> PgoAction list \<times> Action list \<times> 'w" where
  "bench_measure E k8s baseline args plan w =
     (if \<not> a_pgo args
      then (case run_all (pe_run E) k8s (plan_runner plan) (plan_candidates plan) (plan_scenario plan) ([], w) of
              (rs, (trace, w)) \<Rightarrow> (Inr rs, [], trace, w))
      else (let candidate = (case plan_candidates plan of c # _ \<Rightarrow> c | [] \<Rightarrow> Hyper);
                cfg = pgo_config_default\<lparr>pg_route_config := (case a_config args of Some c \<Rightarrow> c | None \<Rightarrow> ''examples/pgo_routes.yaml'')\<rparr>;
                standard_dir = path_join (case path_parent (plan_binary_dir plan) of Some d \<Rightarrow> d | None \<Rightarrow> plan_binary_dir plan) ''pgo-baseline''
            in case baseline candidate standard_dir w of
                 (False, w) \<Rightarrow> (Inl Baseline_Failed, [], [], w)
               | (True, w) \<Rightarrow>
                   (case pgo_run E cfg candidate ([], w) of
                      (Inl e, (steps, w)) \<Rightarrow> (Inl (Pgo_Failed e), steps, [], w)
                    | (Inr binary, (steps, w)) \<Rightarrow>
                        (case run_pgo_delta (pe_run E) k8s (plan_runner plan) candidate standard_dir (plan_binary_dir plan) ([], w) of
                           (Inl e, (trace, w)) \<Rightarrow> (Inl (Run_Failed e), steps, trace, w)
                         | (Inr rs, (trace, w)) \<Rightarrow> (Inr rs, steps, trace, w)))))"

definition bench_results ::
  "('h, 'w) PgoEnv \<Rightarrow> bool \<Rightarrow> (Candidate \<Rightarrow> bytes \<Rightarrow> 'w \<Rightarrow> bool \<times> 'w) \<Rightarrow> (bytes \<Rightarrow> SocketAddr option) \<Rightarrow> Args \<Rightarrow> 'w
     \<Rightarrow> (BenchError + BenchmarkResult list) option" where
  "bench_results E k8s baseline parse_addr args w =
     (case bench_plan parse_addr (env_binary_dir (pe_run E)) args of
        None \<Rightarrow> None
      | Some (Inl e) \<Rightarrow> Some (Inl (Cli_Error e))
      | Some (Inr plan) \<Rightarrow>
          (case bench_measure E k8s baseline args plan w of
             (Inl e, _) \<Rightarrow> Some (Inl e)
           | (Inr rs, _) \<Rightarrow> Some (Inr (sort_results rs))))"

section \<open>The files of a run\<close>

text \<open>The soft limit of descriptors that \<open>raise_fd_limit\<close> sets, from the limits it reads.\<close>

definition raise_fd_limit :: "(nat \<times> nat) option \<Rightarrow> nat option" where
  "raise_fd_limit limits =
     (case limits of
        None \<Rightarrow> None
      | Some (soft, hard) \<Rightarrow> (let target = min hard 1048576 in if soft < target then Some target else None))"

text \<open>
  The machine, the listing of the flamegraph directory, whether directories and files can be written, the JSON of serde
  and the formatting of floating point numbers.
\<close>

record BenchIo =
  io_machine :: Machine
  io_entries :: "bytes list option"
  io_create :: "bytes \<Rightarrow> bool"
  io_write :: "bytes \<Rightarrow> bytes \<Rightarrow> bool"
  io_hardware_json :: "HardwareSpec \<Rightarrow> bytes"
  io_results_json :: "BenchmarkResult list \<Rightarrow> bytes"
  io_fmt :: "nat \<Rightarrow> rat \<Rightarrow> bytes"
  io_fmt_signed :: "nat \<Rightarrow> rat \<Rightarrow> bytes"

definition flamegraph_paths :: "BenchIo \<Rightarrow> Args \<Rightarrow> bytes list" where
  "flamegraph_paths io args = (if a_flamegraph args then collected (io_entries io) else [])"

definition run_files :: "BenchIo \<Rightarrow> Args \<Rightarrow> BenchmarkResult list \<Rightarrow> (bytes \<times> bytes) list" where
  "run_files io args results =
     (let hardware = detect (io_machine io);
          dir = run_directory (a_output_dir args) (timestamp_utc hardware)
      in [(path_join dir ''hardware_spec.json'', io_hardware_json io hardware),
          (path_join dir ''raw_metrics.json'', io_results_json io results),
          (path_join dir ''results.csv'', export_csv (io_fmt io) results),
          (path_join dir ''report.md'', full_report (io_fmt io) (io_fmt_signed io) hardware results (flamegraph_paths io args))])"

fun write_files :: "(bytes \<Rightarrow> bytes \<Rightarrow> bool) \<Rightarrow> (bytes \<times> bytes) list \<Rightarrow> bool \<times> (bytes \<times> bytes) list" where
  "write_files write [] = (True, [])"
| "write_files write ((path, content) # rest) =
     (if \<not> write path content then (False, [])
      else case write_files write rest of (ok, written) \<Rightarrow> (ok, (path, content) # written))"

definition bench_write :: "BenchIo \<Rightarrow> Args \<Rightarrow> BenchmarkResult list \<Rightarrow> bool \<times> (bytes \<times> bytes) list" where
  "bench_write io args results =
     (let dir = run_directory (a_output_dir args) (timestamp_utc (detect (io_machine io)))
      in if \<not> io_create io (path_join dir ''flamegraphs'') \<or> \<not> io_create io (path_join dir ''plots'') then (False, [])
         else write_files (io_write io) (run_files io args results))"

text \<open>\<open>main\<close>: the error it ends with or nothing, and the files it has written; \<open>None\<close> is a panic.\<close>

definition bench_main ::
  "('h, 'w) PgoEnv \<Rightarrow> BenchIo \<Rightarrow> bool \<Rightarrow> (Candidate \<Rightarrow> bytes \<Rightarrow> 'w \<Rightarrow> bool \<times> 'w) \<Rightarrow> (bytes \<Rightarrow> SocketAddr option) \<Rightarrow> Args \<Rightarrow> 'w
     \<Rightarrow> ((BenchError + unit) \<times> (bytes \<times> bytes) list) option" where
  "bench_main E io k8s baseline parse_addr args w =
     (case bench_results E k8s baseline parse_addr args w of
        None \<Rightarrow> None
      | Some (Inl e) \<Rightarrow> Some (Inl e, [])
      | Some (Inr results) \<Rightarrow>
          (case bench_write io args results of (ok, files) \<Rightarrow> Some (if ok then Inr () else Inl Write_Failed, files)))"

lemma write_files_all: "list_all (\<lambda>(path, content). write path content) files \<Longrightarrow> write_files write files = (True, files)"
  by (induction files) auto

interpretation results: sort_order result_le
proof
  show "result_le a b \<or> result_le b a" for a b using bytes_le_total by (auto simp: result_le_def)
  show "result_le a b \<Longrightarrow> result_le b c \<Longrightarrow> result_le a c" for a b c
    unfolding result_le_def by (metis bytes_le_trans bytes_le_antisym order_trans)
qed

lemma list_all2_partners:
  "list_all2 P xs ys \<Longrightarrow> (\<forall>y\<in>set ys. \<exists>x\<in>set xs. P x y) \<and> (\<forall>x\<in>set xs. \<exists>y\<in>set ys. P x y)"
  by (induction rule: list_all2_induct) auto

lemma run_all_complete:
  assumes "launch_listens E" "env_ok E"
  shows "\<exists>rss s'. run_all E k8s cfg cs scenario s = (concat rss, s') \<and>
    list_all2 (\<lambda>c rs. list_all2 (describes c scenario) (windows scenario) rs) cs rss"
proof (induction cs arbitrary: s)
  case (Cons c cs)
  obtain r s1 where run: "run_candidate E k8s cfg c scenario s = (r, s1)" by (cases "run_candidate E k8s cfg c scenario s") blast
  then obtain rs where rs: "r = Inr rs" "list_all2 (describes c scenario) (windows scenario) rs"
    using produces_run_candidate [OF assms(1), of k8s cfg c scenario] assms(2) unfolding produces_def by (cases r) fastforce+
  obtain rss s' where "run_all E k8s cfg cs scenario s1 = (concat rss, s')"
    "list_all2 (\<lambda>c rs. list_all2 (describes c scenario) (windows scenario) rs) cs rss" using Cons.IH by blast
  then show ?case using run rs by (intro exI [of _ "rs # rss"] exI [of _ s']) simp
qed (auto intro: exI [of _ "[]"])

lemma results_complete:
  assumes "launch_listens (pe_run E)" "env_ok (pe_run E)" "\<not> a_pgo args"
    and "bench_plan parse_addr (env_binary_dir (pe_run E)) args = Some (Inr plan)"
  shows "\<exists>rs. bench_results E k8s baseline parse_addr args w = Some (Inr rs) \<and> sorted_wrt result_le rs \<and>
    length rs = length (plan_candidates plan) * length (windows (plan_scenario plan)) \<and>
    (\<forall>row\<in>set rs. \<exists>c\<in>set (plan_candidates plan). \<exists>v\<in>set (windows (plan_scenario plan)). describes c (plan_scenario plan) v row) \<and>
    (\<forall>c\<in>set (plan_candidates plan). \<forall>v\<in>set (windows (plan_scenario plan)). \<exists>row\<in>set rs. describes c (plan_scenario plan) v row)"
proof -
  let ?s = "plan_scenario plan" and ?cs = "plan_candidates plan"
  obtain rss t w' where run: "run_all (pe_run E) k8s (plan_runner plan) ?cs ?s ([], w) = (concat rss, (t, w'))"
    and rows: "list_all2 (\<lambda>c rs. list_all2 (describes c ?s) (windows ?s) rs) ?cs rss"
    using run_all_complete [OF assms(1,2), of k8s "plan_runner plan" ?cs ?s "([], w)"] by (metis prod.collapse)
  have main: "bench_results E k8s baseline parse_addr args w = Some (Inr (sort_results (concat rss)))"
    using assms(3,4) run by (simp add: bench_results_def bench_measure_def)
  have sorted: "set (sort_results (concat rss)) = set (concat rss)" "length (sort_results (concat rss)) = length (concat rss)"
    "sorted_wrt result_le (sort_results (concat rss))" by (simp_all add: sort_results_def results.sort_by_sorted)
  have "length (concat rss) = length ?cs * length (windows ?s)"
    using rows by (induction rule: list_all2_induct) (auto dest: list_all2_lengthD)
  moreover have "\<forall>row\<in>set (concat rss). \<exists>c\<in>set ?cs. \<exists>v\<in>set (windows ?s). describes c ?s v row"
  proof
    fix row
    assume "row \<in> set (concat rss)"
    then obtain rs where "rs \<in> set rss" "row \<in> set rs" by auto
    then obtain c where c: "c \<in> set ?cs" "list_all2 (describes c ?s) (windows ?s) rs" using list_all2_partners [OF rows] by blast
    with list_all2_partners [OF c(2)] \<open>row \<in> set rs\<close> show "\<exists>c\<in>set ?cs. \<exists>v\<in>set (windows ?s). describes c ?s v row" by blast
  qed
  moreover have "\<forall>c\<in>set ?cs. \<forall>v\<in>set (windows ?s). \<exists>row\<in>set (concat rss). describes c ?s v row"
  proof (intro ballI)
    fix c v
    assume "c \<in> set ?cs" "v \<in> set (windows ?s)"
    then obtain rs where rs: "rs \<in> set rss" "list_all2 (describes c ?s) (windows ?s) rs" using list_all2_partners [OF rows] by blast
    then obtain row where "row \<in> set rs" "describes c ?s v row" using list_all2_partners [OF rs(2)] \<open>v \<in> set (windows ?s)\<close> by blast
    with rs(1) show "\<exists>row\<in>set (concat rss). describes c ?s v row" by (intro bexI [of _ row]) auto
  qed
  ultimately show ?thesis using main sorted by auto
qed


definition quick_args :: Args where
  "quick_args = bench_args_default\<lparr>a_quick := True\<rparr>"

definition example_io :: BenchIo where
  "example_io =
     \<lparr>io_machine = example_machine, io_entries = None, io_create = (\<lambda>_. True), io_write = (\<lambda>_ _. True), io_hardware_json = (\<lambda>_. ''{}''),
      io_results_json = (\<lambda>_. ''[]''), io_fmt = (\<lambda>k q. ''1.0''), io_fmt_signed = (\<lambda>k q. ''+1.0'')\<rparr>"


end
