(* ===== verification/Resource_Monitor.thy ===== *)
theory Resource_Monitor
  imports Runner
begin

text \<open>
  The sampler of CPU and memory (\<open>metrics/resources.rs\<close> of the bench crate).  What sysinfo reports at each refresh is an
  argument, with the processes in the order of its map; \<open>f32\<close> values are the rationals they denote, rounded to 24
  significant bits by every operation; memory is \<open>u64\<close>.
\<close>

section \<open>Model\<close>

definition f32_round :: "rat \<Rightarrow> rat" where
  "f32_round q =
     (if q \<le> 0 then 0
      else let u = 2 powi (max (f64_exp q) (-126) - 23) in of_int (round_half_even (q / u)) * u)"

record ProcessInfo =
  pr_pid :: nat
  pr_parent :: "nat option"
  pr_cpu :: rat
  pr_memory :: u64

record SystemView =
  sv_processes :: "ProcessInfo list"
  sv_global_cpu :: rat
  sv_used_memory :: u64

record ResourceSummary =
  cpu_mean_pct :: rat
  cpu_peak_pct :: rat
  rss_peak_mb :: rat
  rss_mean_mb :: rat
  rs_samples :: nat

definition resource_summary_default :: ResourceSummary where
  "resource_summary_default = \<lparr>cpu_mean_pct = 0, cpu_peak_pct = 0, rss_peak_mb = 0, rss_mean_mb = 0, rs_samples = 0\<rparr>"

definition mib :: "u64 \<Rightarrow> rat" where
  "mib n = f64_div (f64_of_nat (unat n)) (1024 * 1024)"

definition add_child :: "nat \<Rightarrow> ProcessInfo \<Rightarrow> rat \<times> u64 \<Rightarrow> rat \<times> u64" where
  "add_child pid pr = (\<lambda>(cpu, rss). if pr_parent pr = Some pid then (f32_round (cpu + pr_cpu pr), rss + pr_memory pr) else (cpu, rss))"

definition sample :: "MonitorTarget \<Rightarrow> SystemView \<Rightarrow> (rat \<times> rat) option" where
  "sample target view =
     (case target of
        Monitor_Process pid \<Rightarrow>
          (case find (\<lambda>pr. pr_pid pr = pid) (sv_processes view) of
             None \<Rightarrow> None
           | Some main \<Rightarrow>
               (case fold (add_child pid) (sv_processes view) (pr_cpu main, pr_memory main) of (cpu, rss) \<Rightarrow> Some (cpu, mib rss)))
      | Monitor_System \<Rightarrow> Some (sv_global_cpu view, mib (sv_used_memory view)))"

definition summary_of :: "(rat \<times> rat) list \<Rightarrow> ResourceSummary" where
  "summary_of samples =
     (let n = length samples
      in \<lparr>cpu_mean_pct = (if n = 0 then 0 else f32_round (foldl (\<lambda>s c. f32_round (s + c)) 0 (map fst samples) / f32_round (of_nat n))),
          cpu_peak_pct = foldl max 0 (map fst samples),
          rss_peak_mb = foldl max 0 (map snd samples),
          rss_mean_mb = (if n = 0 then 0 else f64_div (foldl f64_add 0 (map snd samples)) (f64_of_nat n)),
          rs_samples = n\<rparr>)"

text \<open>The loop of the task: each turn reads the flag and then refreshes; without a stop it does not return.\<close>

fun monitor_loop :: "MonitorTarget \<Rightarrow> (bool \<times> SystemView) list \<Rightarrow> (rat \<times> rat) list \<Rightarrow> ResourceSummary option" where
  "monitor_loop target [] samples = None"
| "monitor_loop target ((running, view) # turns) samples =
     (if \<not> running then Some (summary_of samples)
      else monitor_loop target turns (case sample target view of Some s \<Rightarrow> samples @ [s] | None \<Rightarrow> samples))"

text \<open>\<open>start\<close>: the first refresh is taken and discarded, since CPU usage is a difference to the one before.\<close>

definition monitor_start :: "MonitorTarget \<Rightarrow> SystemView \<Rightarrow> (bool \<times> SystemView) list \<Rightarrow> ResourceSummary option" where
  "monitor_start target first turns = (let _ = sample target first in monitor_loop target turns [])"

text \<open>\<open>stop\<close>: a task that panicked gives the default summary.\<close>

definition monitor_stop :: "ResourceSummary option \<Rightarrow> ResourceSummary" where
  "monitor_stop result = (case result of Some s \<Rightarrow> s | None \<Rightarrow> resource_summary_default)"

section \<open>What a summary says\<close>

lemma foldl_max: "foldl max (a :: rat) xs = Max (insert a (set xs))"
proof (induction xs arbitrary: a)
  case (Cons x xs)
  have "Max (insert (max a x) (set xs)) = max (max a x) (Max (insert a (set xs)))"
    by (cases "xs = []") (simp_all add: max.assoc max.left_commute max.commute)
  also have "\<dots> = Max (insert a (set (x # xs)))"
    by (cases "xs = []") (simp_all add: max.assoc max.left_commute max.commute)
  finally show ?case using Cons by simp
qed simp

lemma monitor_loop_result:
  "monitor_loop target turns samples =
     (if list_all fst turns then None
      else Some (summary_of (samples @ List.map_filter (\<lambda>(_, view). sample target view) (takeWhile fst turns))))"
  by (induction target turns samples rule: monitor_loop.induct) (auto simp: map_filter_simps split: option.split)

lemma map_map_filter: "map f (List.map_filter g xs) = List.map_filter (\<lambda>x. map_option f (g x)) xs"
  by (induction xs) (auto simp: map_filter_simps split: option.split)

lemma map_filter_if: "List.map_filter (\<lambda>x. if P x then Some (f x) else None) xs = map f (filter P xs)"
  by (induction xs) (auto simp: map_filter_simps)

lemma children_memory:
  "snd (fold (add_child pid) prs (cpu, rss)) = rss + sum_list (map pr_memory (filter (\<lambda>pr. pr_parent pr = Some pid) prs))"
  by (induction prs arbitrary: cpu rss) (simp_all add: add_child_def add.assoc)

text \<open>
  The monitor reports the process under test.  Stopped after some refreshes it returns the summary of exactly those that
  found the process: their number, and as peak memory the largest sum of the process and its children.  A
  process that is never seen gives the empty summary instead of a panic.
\<close>

theorem monitor_correct:
  assumes "monitor_start (Monitor_Process pid) first turns = Some s"
  shows "let seen = filter (\<lambda>view. \<exists>pr\<in>set (sv_processes view). pr_pid pr = pid) (map snd (takeWhile fst turns));
      memory = (\<lambda>view. case find (\<lambda>pr. pr_pid pr = pid) (sv_processes view) of None \<Rightarrow> 0 | Some main \<Rightarrow>
        pr_memory main + sum_list (map pr_memory (filter (\<lambda>pr. pr_parent pr = Some pid) (sv_processes view))))
    in rs_samples s = length seen \<and> rss_peak_mb s = Max (insert 0 (set (map (\<lambda>view. mib (memory view)) seen))) \<and>
       (seen = [] \<longrightarrow> s = resource_summary_default)"
proof -
  define memory where "memory view = (case find (\<lambda>pr. pr_pid pr = pid) (sv_processes view) of None \<Rightarrow> 0 | Some main \<Rightarrow>
    pr_memory main + sum_list (map pr_memory (filter (\<lambda>pr. pr_parent pr = Some pid) (sv_processes view))))" for view :: SystemView
  define found where "found view = (\<exists>pr\<in>set (sv_processes view). pr_pid pr = pid)" for view :: SystemView
  have one: "map_option snd (sample (Monitor_Process pid) view) = (if found view then Some (mib (memory view)) else None)" for view
  proof (cases "find (\<lambda>pr. pr_pid pr = pid) (sv_processes view)")
    case None
    then have "\<not> found view" unfolding found_def using find_None_iff [of "\<lambda>pr. pr_pid pr = pid" "sv_processes view"] by blast
    with None show ?thesis by (simp add: sample_def)
  next
    case (Some main)
    then have "found view" unfolding found_def find_Some_iff by (auto intro: nth_mem)
    with Some show ?thesis by (simp add: sample_def memory_def children_memory case_prod_unfold)
  qed
  let ?samples = "List.map_filter (\<lambda>(_, view). sample (Monitor_Process pid) view) (takeWhile fst turns)"
  have "map snd ?samples = List.map_filter (\<lambda>(_, view). map_option snd (sample (Monitor_Process pid) view)) (takeWhile fst turns)"
    by (simp add: map_map_filter case_prod_unfold)
  also have "\<dots> = map (\<lambda>view. mib (memory view)) (filter found (map snd (takeWhile fst turns)))"
    unfolding one by (simp add: case_prod_unfold map_filter_if filter_map comp_def)
  finally have seen: "map snd ?samples = map (\<lambda>view. mib (memory view)) (filter found (map snd (takeWhile fst turns)))" .
  have s: "s = summary_of ?samples"
    using assms by (simp add: monitor_start_def monitor_loop_result split: if_splits)
  have len: "length ?samples = length (filter found (map snd (takeWhile fst turns)))" using seen by (metis length_map)
  have none: "s = resource_summary_default" if "filter found (map snd (takeWhile fst turns)) = []"
  proof -
    have "?samples = []" using len that by simp
    then show ?thesis unfolding s by (simp add: summary_of_def resource_summary_default_def)
  qed
  have "rs_samples s = length (filter found (map snd (takeWhile fst turns)))"
    "rss_peak_mb s = Max (insert 0 (set (map (\<lambda>view. mib (memory view)) (filter found (map snd (takeWhile fst turns))))))"
    unfolding s summary_of_def Let_def using len seen foldl_max by (simp, metis ResourceSummary.select_convs(3))
  with none show ?thesis unfolding Let_def memory_def [symmetric] found_def [symmetric] by blast
qed

end
