(* ===== verification/Kind_Cluster.thy ===== *)
theory Kind_Cluster
  imports Shell Bench_Scenario
begin

text \<open>
  The benchmark's Kubernetes cluster: its life cycle (\<open>k8s/kind_cluster.rs\<close>) and what is deployed into it
  (\<open>k8s/deployer.rs\<close>, both of the bench crate).
\<close>

section \<open>The cluster\<close>

definition GATEWAY_API_CRD_URL :: bytes where
  "GATEWAY_API_CRD_URL =
     ''https://github.com/kubernetes-sigs/gateway-api/releases/download/v1.2.1/standard-install.yaml''"

record KindConfig =
  cluster_name :: bytes
  kind_config_path :: bytes

definition kind_config_default :: KindConfig where
  "kind_config_default = \<lparr>cluster_name = ''lb-bench'', kind_config_path = ''k8s/kind-cluster-config.yaml''\<rparr>"

definition kind_context :: "KindConfig \<Rightarrow> bytes" where
  "kind_context cfg = ''kind-'' @ cluster_name cfg"

definition kubectl :: "KindConfig \<Rightarrow> bytes list" where
  "kubectl cfg = [''kubectl'', ''--context'', ''kind-'' @ cluster_name cfg]"

definition kind_available :: "'w Shell \<Rightarrow> ('w, bool) shell" where
  "kind_available sh =
     run_bind (tool_output sh [''kind'', ''--version'']) (\<lambda>r.
       run_return (case r of Some (ok, _) \<Rightarrow> ok | None \<Rightarrow> False))"

definition cluster_exists :: "'w Shell \<Rightarrow> KindConfig \<Rightarrow> ('w, bool) shell" where
  "cluster_exists sh cfg =
     run_bind (tool_output sh [''kind'', ''get'', ''clusters'']) (\<lambda>r.
       case r of
         None \<Rightarrow> run_fail Not_Started
       | Some (_, listing) \<Rightarrow> run_return (list_ex (\<lambda>l. str_trim l = cluster_name cfg) (lines_of listing)))"

definition create_command :: "KindConfig \<Rightarrow> bytes list" where
  "create_command cfg =
     [''kind'', ''create'', ''cluster'', ''--name'', cluster_name cfg, ''--config'', kind_config_path cfg, ''--wait'', ''120s'']"

definition create_cluster :: "'w Shell \<Rightarrow> KindConfig \<Rightarrow> ('w, unit) shell" where
  "create_cluster sh cfg =
     run_bind (cluster_exists sh cfg) (\<lambda>there.
       if there then run_return ()
       else run_bind (look (\<lambda>w. sh_exists sh w (kind_config_path cfg))) (\<lambda>found.
         if \<not> found then run_fail (Missing (kind_config_path cfg))
         else run_checked sh (create_command cfg) ''kind create cluster''))"

definition install_gateway_api :: "'w Shell \<Rightarrow> KindConfig \<Rightarrow> ('w, unit) shell" where
  "install_gateway_api sh cfg =
     run_bind (look (\<lambda>w. sh_exists sh w ''k8s/gateway-api-crds.yaml'')) (\<lambda>vendored.
       run_checked sh (kubectl cfg @ [''apply'', ''-f'', if vendored then ''k8s/gateway-api-crds.yaml'' else GATEWAY_API_CRD_URL])
         ''kubectl apply gateway-api-crds'')"

definition load_image :: "'w Shell \<Rightarrow> KindConfig \<Rightarrow> bytes \<Rightarrow> ('w, unit) shell" where
  "load_image sh cfg img =
     run_checked sh [''kind'', ''load'', ''docker-image'', img, ''--name'', cluster_name cfg] ''kind load docker-image''"

definition destroy_cluster :: "'w Shell \<Rightarrow> KindConfig \<Rightarrow> ('w, unit) shell" where
  "destroy_cluster sh cfg = run_checked sh [''kind'', ''delete'', ''cluster'', ''--name'', cluster_name cfg] ''kind delete cluster''"

section \<open>The deployer\<close>

definition MOCK_BACKEND :: bytes where "MOCK_BACKEND = ''k8s/mock-backend/mock-upstream-deployment.yaml''"
definition TRAEFIK :: bytes where "TRAEFIK = ''k8s/traefik/deployment.yaml''"
definition TRAEFIK_GATEWAY :: bytes where "TRAEFIK_GATEWAY = ''k8s/traefik/gateway.yaml''"
definition BENCHMARK_ROUTE :: bytes where "BENCHMARK_ROUTE = ''k8s/routes/benchmark-httproute.yaml''"

fun manifest_for :: "Candidate \<Rightarrow> bytes option" where
  "manifest_for Hyper = Some ''k8s/rust-proxies/hyper-deployment.yaml''"
| "manifest_for Pingora = Some ''k8s/rust-proxies/pingora-deployment.yaml''"
| "manifest_for Monoio = Some ''k8s/rust-proxies/monoio-deployment.yaml''"
| "manifest_for Traefik = Some TRAEFIK"

fun deployment_ref :: "Candidate \<Rightarrow> bytes \<times> bytes" where
  "deployment_ref Hyper = (''default'', ''lb-proxy-hyper'')"
| "deployment_ref Pingora = (''default'', ''lb-proxy-pingora'')"
| "deployment_ref Monoio = (''default'', ''lb-proxy-monoio'')"
| "deployment_ref Traefik = (''traefik'', ''traefik'')"

fun candidate_gateway :: "Candidate \<Rightarrow> bytes" where
  "candidate_gateway Hyper = ''lb-gateway-hyper''"
| "candidate_gateway Pingora = ''lb-gateway-pingora''"
| "candidate_gateway Monoio = ''lb-gateway-monoio''"
| "candidate_gateway Traefik = ''traefik-gateway''"

definition apply_command :: "KindConfig \<Rightarrow> bytes \<Rightarrow> bytes list" where
  "apply_command cfg manifest = kubectl cfg @ [''apply'', ''-f'', manifest]"

definition apply_manifest :: "'w Shell \<Rightarrow> KindConfig \<Rightarrow> bytes \<Rightarrow> ('w, unit) shell" where
  "apply_manifest sh cfg manifest =
     run_bind (look (\<lambda>w. sh_exists sh w manifest)) (\<lambda>found.
       if \<not> found then run_fail (Missing manifest)
       else run_checked sh (apply_command cfg manifest) (''kubectl apply -f '' @ manifest))"

definition delete_manifest :: "'w Shell \<Rightarrow> KindConfig \<Rightarrow> bytes \<Rightarrow> ('w, unit) shell" where
  "delete_manifest sh cfg manifest =
     run_bind (look (\<lambda>w. sh_exists sh w manifest)) (\<lambda>found.
       if \<not> found then run_return ()
       else run_bind (tool_output sh (kubectl cfg @ [''delete'', ''-f'', manifest, ''--ignore-not-found''])) (\<lambda>r.
         case r of None \<Rightarrow> run_fail Not_Started | Some _ \<Rightarrow> run_return ()))"

definition rollout_command :: "KindConfig \<Rightarrow> bytes \<Rightarrow> bytes \<Rightarrow> nat \<Rightarrow> bytes list" where
  "rollout_command cfg ns deployment secs =
     kubectl cfg @ [''-n'', ns, ''rollout'', ''status'', ''deployment/'' @ deployment, ''--timeout='' @ show_nat secs @ ''s'']"

definition wait_for_rollout :: "'w Shell \<Rightarrow> KindConfig \<Rightarrow> bytes \<Rightarrow> bytes \<Rightarrow> nat \<Rightarrow> ('w, unit) shell" where
  "wait_for_rollout sh cfg ns deployment secs =
     run_checked sh (rollout_command cfg ns deployment secs) (''rollout status '' @ ns @ ''/'' @ deployment)"

definition deploy_baseline :: "'w Shell \<Rightarrow> KindConfig \<Rightarrow> ('w, unit) shell" where
  "deploy_baseline sh cfg =
     run_bind (install_gateway_api sh cfg) (\<lambda>_.
     run_bind (run_log (Slept (from_secs 3))) (\<lambda>_.
     run_bind (apply_manifest sh cfg MOCK_BACKEND) (\<lambda>_.
       wait_for_rollout sh cfg ''default'' ''mock-upstream'' 180)))"

definition deploy_candidate :: "'w Shell \<Rightarrow> KindConfig \<Rightarrow> Candidate \<Rightarrow> ('w, unit) shell" where
  "deploy_candidate sh cfg candidate =
     (case manifest_for candidate of
        None \<Rightarrow> run_fail (Missing (display_name candidate))
      | Some manifest \<Rightarrow>
          run_bind (apply_manifest sh cfg manifest) (\<lambda>_.
          run_bind (wait_for_rollout sh cfg (fst (deployment_ref candidate)) (snd (deployment_ref candidate)) 180) (\<lambda>_.
          run_bind (if candidate = Traefik then apply_manifest sh cfg TRAEFIK_GATEWAY else run_return ()) (\<lambda>_.
            apply_manifest sh cfg BENCHMARK_ROUTE))))"

definition remove_candidate :: "'w Shell \<Rightarrow> KindConfig \<Rightarrow> Candidate \<Rightarrow> ('w, unit) shell" where
  "remove_candidate sh cfg candidate =
     (case manifest_for candidate of None \<Rightarrow> run_return () | Some manifest \<Rightarrow> delete_manifest sh cfg manifest)"

section \<open>What a deployment does\<close>

definition candidate_commands :: "KindConfig \<Rightarrow> Candidate \<Rightarrow> bytes list list" where
  "candidate_commands cfg candidate =
     [apply_command cfg (the (manifest_for candidate)),
      rollout_command cfg (fst (deployment_ref candidate)) (snd (deployment_ref candidate)) 180] @
     (if candidate = Traefik then [apply_command cfg TRAEFIK_GATEWAY] else []) @ [apply_command cfg BENCHMARK_ROUTE]"

lemma follows_apply: "appends (apply_manifest sh cfg m) (follows {[]} {[Ran (apply_command cfg m)]} (\<lambda>_. True))"
  unfolding apply_manifest_def
  by (rule sh.follows_bind_quiet [OF sh.follows_look]) (auto intro: follows_checked sh.follows_fail)

lemma follows_rollout: "appends (wait_for_rollout sh cfg ns d secs) (follows {[]} {[Ran (rollout_command cfg ns d secs)]} (\<lambda>_. True))"
  unfolding wait_for_rollout_def by (rule follows_checked)

lemma follows_deploy:
  "appends (deploy_candidate sh cfg candidate) (follows {[]} {map Ran (candidate_commands cfg candidate)} (\<lambda>_. True))"
proof -
  obtain m where m: "manifest_for candidate = Some m" by (cases candidate) auto
  let ?gateway = "if candidate = Traefik then [Ran (apply_command cfg TRAEFIK_GATEWAY)] else []"
  have gateway: "appends (if candidate = Traefik then apply_manifest sh cfg TRAEFIK_GATEWAY else run_return ())
      (follows {[]} {?gateway} (\<lambda>_. True))"
    by (auto intro: follows_apply sh.follows_return)
  have "appends (deploy_candidate sh cfg candidate) (follows {[]}
      (concs {[Ran (apply_command cfg m)]} (concs {[Ran (rollout_command cfg (fst (deployment_ref candidate)) (snd (deployment_ref candidate)) 180)]}
        (concs {?gateway} {[Ran (apply_command cfg BENCHMARK_ROUTE)]}))) (\<lambda>_. True))"
    unfolding deploy_candidate_def m option.case
    by (rule sh.follows_bind [OF follows_apply], rule sh.follows_bind [OF follows_rollout], rule sh.follows_bind [OF gateway])
      (auto intro: follows_apply)
  then show ?thesis by (simp add: candidate_commands_def m split: if_splits)
qed

text \<open>
  Deploying a candidate runs its commands in order and stops at the first that fails; every one is bound to the context of
  the benchmark's own cluster, so that no other cluster of the user is touched.
\<close>

theorem deploy_in_order:
  assumes "deploy_candidate sh cfg candidate (trace, w) = (r, (trace', w'))"
  shows "\<exists>cmds. trace' = trace @ map Ran cmds \<and> prefix cmds (candidate_commands cfg candidate) \<and>
    (r = Inr () \<longrightarrow> cmds = candidate_commands cfg candidate) \<and> list_all (prefix (kubectl cfg)) cmds"
proof -
  let ?plan = "candidate_commands cfg candidate"
  obtain n where n: "trace' = trace @ map Ran (take n ?plan)" "\<forall>x. r = Inr x \<longrightarrow> take n ?plan = ?plan"
    using follows_commands [OF follows_deploy assms] by blast
  have "list_all (prefix (kubectl cfg)) ?plan" by (simp add: candidate_commands_def apply_command_def rollout_command_def)
  then have "list_all (prefix (kubectl cfg)) (take n ?plan)" unfolding list_all_iff by (blast dest: in_set_takeD)
  with n take_is_prefix [of n ?plan] show ?thesis by blast
qed

text \<open>Creating the cluster when it is listed does nothing but ask.\<close>

lemma create_idempotent:
  assumes "fst (sh_output sh [''kind'', ''get'', ''clusters''] w) = Some (ok, listing)"
    and "list_ex (\<lambda>l. str_trim l = cluster_name cfg) (lines_of listing)"
  shows "\<exists>w'. create_cluster sh cfg (t, w) = (Inr (), (t @ [Ran [''kind'', ''get'', ''clusters'']], w'))"
  using assms by (simp add: create_cluster_def cluster_exists_def tool_output_def run_bind_def run_basics)

text \<open>No two candidates share a gateway, a deployment or a manifest.\<close>

lemma candidates_apart: "inj candidate_gateway" "inj deployment_ref" "inj manifest_for"
proof -
  show "inj candidate_gateway" by (rule injI, case_tac x; case_tac y) simp_all
  show "inj deployment_ref" by (rule injI, case_tac x; case_tac y) simp_all
  show "inj manifest_for" by (rule injI, case_tac x; case_tac y) (simp_all add: TRAEFIK_def)
qed

end
