(* ===== verification/Churn.thy ===== *)
theory Churn
  imports Target Rust_Str
begin

text \<open>
  The route churn injector (\<open>k8s/churn.rs\<close> of the bench crate): it patches a route at a fixed rate, with the next of
  its backends each time, and counts what the API server answered.  The injector's stop flag and the answers
  are an argument, one pair per turn of the loop; the counters and the generation are \<open>u64\<close>.
\<close>

section \<open>Model\<close>

record ChurnConfig =
  ch_namespace :: bytes
  ch_route_name :: bytes
  ch_rate_hz :: nat
  ch_backends :: "bytes list"
  ch_backend_port :: int

definition churn_config_default :: ChurnConfig where
  "churn_config_default =
     \<lparr>ch_namespace = ''default'', ch_route_name = ''benchmark-route'', ch_rate_hz = 50,
      ch_backends = [''mock-upstream'', ''mock-upstream-b''], ch_backend_port = 80\<rparr>"

record ChurnStats =
  mutations_attempted :: u64
  mutations_succeeded :: u64
  mutations_failed :: u64

definition churn_stats_default :: ChurnStats where
  "churn_stats_default = \<lparr>mutations_attempted = 0, mutations_succeeded = 0, mutations_failed = 0\<rparr>"

definition snapshot :: "ChurnStats \<Rightarrow> u64 \<times> u64 \<times> u64" where
  "snapshot st = (mutations_attempted st, mutations_succeeded st, mutations_failed st)"

datatype Json = JStr bytes | JInt int | JArr "Json list" | JObj "(bytes \<times> Json) list"

definition churn_patch :: "ChurnConfig \<Rightarrow> u64 \<Rightarrow> bytes \<Rightarrow> Json" where
  "churn_patch cfg generation backend =
     JObj [(''apiVersion'', JStr ''gateway.networking.k8s.io/v1''),
           (''kind'', JStr ''HTTPRoute''),
           (''metadata'', JObj
             [(''name'', JStr (ch_route_name cfg)),
              (''annotations'', JObj [(''lb-bench/churn-generation'', JStr (show_nat (unat generation)))])]),
           (''spec'', JObj
             [(''rules'', JArr [JObj
                [(''matches'', JArr [JObj [(''path'', JObj [(''type'', JStr ''PathPrefix''), (''value'', JStr ''/'')])]]),
                 (''backendRefs'', JArr [JObj
                    [(''name'', JStr backend), (''port'', JInt (ch_backend_port cfg)), (''weight'', JInt 1)]])]])])]"

text \<open>The next generation and its backend; an empty list of backends panics (\<open>None\<close>).\<close>

definition next_backend :: "bytes list \<times> u64 \<Rightarrow> bytes option \<times> bytes list \<times> u64" where
  "next_backend = (\<lambda>(backends, generation).
     let generation = generation + 1
     in (if backends = [] then None else index_opt backends (unat generation mod length backends), (backends, generation)))"

datatype ChurnEnd = Stopped | Panicked | Still_Running

definition record_mutation :: "bool \<Rightarrow> ChurnStats \<Rightarrow> ChurnStats" where
  "record_mutation success st =
     (let st = st\<lparr>mutations_attempted := mutations_attempted st + 1\<rparr>
      in if success then st\<lparr>mutations_succeeded := mutations_succeeded st + 1\<rparr>
         else st\<lparr>mutations_failed := mutations_failed st + 1\<rparr>)"

fun churn_loop :: "ChurnConfig \<Rightarrow> (bool \<times> bool) list \<Rightarrow> u64 \<Rightarrow> ChurnStats \<Rightarrow> Json list \<Rightarrow> ChurnEnd \<times> ChurnStats \<times> Json list" where
  "churn_loop cfg [] generation st sent = (Still_Running, st, sent)"
| "churn_loop cfg ((running, success) # turns) generation st sent =
     (if \<not> running then (Stopped, st, sent)
      else case next_backend (ch_backends cfg, generation) of
             (None, _) \<Rightarrow> (Panicked, st, sent)
           | (Some backend, (_, generation)) \<Rightarrow>
               churn_loop cfg turns generation (record_mutation success st) (sent @ [churn_patch cfg generation backend]))"

text \<open>The pause between mutations; the timer panics when it is zero.\<close>

definition churn_interval :: "nat \<Rightarrow> nat option" where
  "churn_interval rate_hz = from_secs_f64 (False, f64_div 1 (f64_of_nat rate_hz))"

text \<open>\<open>run\<close>, where \<open>client\<close> says whether a Kubernetes client could be made; the error is \<open>Inl\<close>.\<close>

definition churn_run :: "bool \<Rightarrow> ChurnConfig \<Rightarrow> (bool \<times> bool) list \<Rightarrow> unit + ChurnEnd \<times> ChurnStats \<times> Json list" where
  "churn_run client cfg turns =
     (if ch_rate_hz cfg = 0 then Inr (Stopped, churn_stats_default, [])
      else if \<not> client then Inl ()
      else case churn_interval (ch_rate_hz cfg) of
             None \<Rightarrow> Inr (Panicked, churn_stats_default, [])
           | Some 0 \<Rightarrow> Inr (Panicked, churn_stats_default, [])
           | Some _ \<Rightarrow> Inr (churn_loop cfg turns 0 churn_stats_default []))"

text \<open>\<open>observe_propagation\<close>: what the watch delivers within ten seconds each, with the time since the start.\<close>

datatype Observed = Applied nat | Other_Event | No_Event

fun observe_propagation :: "nat \<Rightarrow> Observed list \<Rightarrow> nat list" where
  "observe_propagation 0 evs = []"
| "observe_propagation (Suc n) [] = []"
| "observe_propagation (Suc n) (Applied t # evs) = t # observe_propagation n evs"
| "observe_propagation (Suc n) (Other_Event # evs) = observe_propagation (Suc n) evs"
| "observe_propagation (Suc n) (No_Event # evs) = []"

section \<open>The rotation of backends\<close>

interpretation churn: balancer next_backend "\<lambda>(backends, _). backends \<noteq> []" fst "\<lambda>(_, generation). unat (generation + 1)"
proof
  fix g :: "bytes list \<times> u64"
  obtain bs n where g: "g = (bs, n)" by (cases g)
  assume ok: "case g of (backends, _) \<Rightarrow> backends \<noteq> []"
  then show "fst g \<noteq> []" "case snd (next_backend g) of (backends, _) \<Rightarrow> backends \<noteq> []" "fst (snd (next_backend g)) = fst g"
    "fst (next_backend g) = Some (fst g ! ((case g of (_, generation) \<Rightarrow> unat (generation + 1)) mod length (fst g)))"
    by (simp_all add: g next_backend_def Let_def index_opt_def)
  assume "(case g of (_, generation) \<Rightarrow> unat (generation + 1)) + 1 < 2 ^ 64"
  then have "unat (n + 1 + 1) = unat (n + 1) + 1" using unat_inc [of "n + 1"] unfolding g by simp
  then show "(case snd (next_backend g) of (_, generation) \<Rightarrow> unat (generation + 1)) mod length (fst g)
      = ((case g of (_, generation) \<Rightarrow> unat (generation + 1)) + 1) mod length (fst g) \<and>
      (case snd (next_backend g) of (_, generation) \<Rightarrow> unat (generation + 1)) \<le> (case g of (_, generation) \<Rightarrow> unat (generation + 1)) + 1"
    by (simp add: g next_backend_def Let_def)
qed

lemma next_backend_some:
  assumes "backends \<noteq> []"
  obtains backend where "next_backend (backends, generation) = (Some backend, (backends, generation + 1))"
  using assms by (auto simp: next_backend_def Let_def index_opt_def)

lemma churn_loop_result:
  assumes "ch_backends cfg \<noteq> []"
  shows "churn_loop cfg turns generation st sent =
    (if list_all fst turns then Still_Running else Stopped,
     fold record_mutation (map snd (takeWhile fst turns)) st,
     sent @ map2 (\<lambda>i b. churn_patch cfg (generation + of_nat (Suc i)) (the b)) [0..<length (takeWhile fst turns)]
       (pick_run next_backend (length (takeWhile fst turns)) (ch_backends cfg, generation)))"
proof (induction turns arbitrary: generation st sent)
  case (Cons turn turns)
  obtain running success where turn: "turn = (running, success)" by (cases turn)
  obtain b where b: "next_backend (ch_backends cfg, generation) = (Some b, (ch_backends cfg, generation + 1))"
    using next_backend_some [OF assms] by blast
  have shift: "zip [0..<Suc m] (x # xs) = (0, x) # map (\<lambda>(i, y). (Suc i, y)) (zip [0..<m] xs)" for m and x :: "bytes option" and xs
    by (simp add: upt_conv_Cons map_Suc_upt [symmetric] zip_map1 del: upt_Suc)
  show ?case
    by (cases running) (simp_all add: turn b Cons.IH shift comp_def case_prod_unfold add.assoc del: upt_Suc)
qed simp

lemma record_mutations:
  "mutations_attempted (fold record_mutation rs st) = mutations_attempted st + of_nat (length rs)"
  "mutations_succeeded (fold record_mutation rs st) = mutations_succeeded st + of_nat (length (filter id rs))"
  "mutations_failed (fold record_mutation rs st) = mutations_failed st + of_nat (length (filter Not rs))"
  by (induction rs arbitrary: st) (simp_all add: record_mutation_def Let_def)

lemma length_pick_run [simp]: "length (pick_run pick n g) = n"
  by (induction n arbitrary: g) (simp_all add: case_prod_unfold)

section \<open>The pause\<close>

lemma churn_interval_near:
  assumes "0 < rate" "rate \<le> 1000000000"
  shows "\<exists>i. churn_interval rate = Some i \<and> 0 < i \<and> \<bar>of_nat i - 1000000000 / of_nat rate :: rat\<bar> < 1"
proof -
  define q :: rat where "q = 1 / of_nat rate"
  have exact: "f64_of_nat rate = of_nat rate" unfolding f64_of_nat_def by (rule f64_of_nat_exact) (use assms in simp)
  have r: "(1 :: rat) \<le> of_nat rate" "(of_nat rate :: rat) \<le> 1000000000"
    using assms by (simp, metis of_nat_le_iff of_nat_numeral)
  have q: "1 / 1000000000 \<le> q" "q \<le> 1" unfolding q_def using r by (simp_all add: field_simps)
  from q(1) have "1 / 2 ^ 64 \<le> q" by (rule order_trans [rotated]) simp
  note bound = f64_round_error [OF powi_small [OF this]]
  define v where "v = f64_round q"
  have "\<bar>v - q\<bar> \<le> 1 / 2 ^ 53" using bound q(2) unfolding v_def by (simp add: field_simps)
  then have "v - q \<le> 1 / 9007199254740992" "q - v \<le> 1 / 9007199254740992" by (simp_all only: abs_le_iff) simp_all
  then have "v * 1000000000 - q * 1000000000 < 1 / 4" "- (v * 1000000000 - q * 1000000000) < 1 / 4" "v < 18446744073709551616"
    using q(2) by linarith+
  then have v: "\<bar>v * 1000000000 - q * 1000000000\<bar> < 1 / 4" "v < 2 ^ 64" by (simp only: abs_less_iff, simp)
  note half = round_half_even_error [of "v * 1000000000"]
  have near: "\<bar>of_int (round_half_even (v * 1000000000)) - 1000000000 / of_nat rate :: rat\<bar> < 1"
  proof -
    have "\<bar>of_int (round_half_even (v * 1000000000)) - q * 1000000000\<bar>
        \<le> \<bar>of_int (round_half_even (v * 1000000000)) - v * 1000000000\<bar> + \<bar>v * 1000000000 - q * 1000000000\<bar>"
      using abs_triangle_ineq [of "of_int (round_half_even (v * 1000000000)) - v * 1000000000" "v * 1000000000 - q * 1000000000"] by simp
    also have "\<dots> < 1 / 2 + 1 / 4" using half v(1) by (rule add_le_less_mono)
    finally show ?thesis by (simp add: q_def)
  qed
  have "(1 :: rat) \<le> 1000000000 / of_nat rate" using r by (simp add: field_simps)
  then have "0 < (of_int (round_half_even (v * 1000000000)) :: rat)" using near by (auto simp: abs_less_iff)
  then have pos: "0 < round_half_even (v * 1000000000)" by simp
  have "churn_interval rate = Some (nat (round_half_even (v * 1000000000)))"
    using v(2) by (simp add: churn_interval_def from_secs_f64_def f64_div_def exact v_def q_def)
  then show ?thesis using pos near by (intro exI [of _ "nat (round_half_even (v * 1000000000))"]) simp
qed

section \<open>What an injector run does\<close>

text \<open>
  C31: the churn injector mutates evenly and counts exactly.  At a rate of up to \<open>10^9\<close> per second with at
  least one backend it never panics and pauses within a nanosecond of the wanted interval.  Its \<open>n\<close>-th
  mutation carries generation \<open>n\<close>; after whole turns each backend has been written equally often; the
  counters are the attempts, the accepted and the rejected ones; and it ends exactly when it is told to stop.
\<close>

theorem churn_run_correct:
  assumes "0 < ch_rate_hz cfg" "ch_rate_hz cfg \<le> 1000000000" "ch_backends cfg \<noteq> []"
    and "n = length (takeWhile fst turns)" "n + 1 < 2 ^ 64"
  shows "(\<exists>i. churn_interval (ch_rate_hz cfg) = Some i \<and> 0 < i \<and> \<bar>of_nat i - 1000000000 / of_nat (ch_rate_hz cfg) :: rat\<bar> < 1) \<and>
    (\<exists>ending st names. churn_run True cfg turns =
      Inr (ending, st, map2 (\<lambda>i b. churn_patch cfg (of_nat i) b) [1..<Suc n] names) \<and>
    (ending = Stopped \<longleftrightarrow> False \<in> fst ` set turns) \<and> ending \<noteq> Panicked \<and>
    length names = n \<and> set names \<subseteq> set (ch_backends cfg) \<and>
    (\<forall>k. n = k * length (ch_backends cfg) \<longrightarrow> mset names = repeat_mset k (mset (ch_backends cfg))) \<and>
    unat (mutations_attempted st) = n \<and>
    unat (mutations_succeeded st) = length (filter id (map snd (take n turns))) \<and>
    unat (mutations_succeeded st) + unat (mutations_failed st) = n)"
proof -
  let ?run = "pick_run next_backend n (ch_backends cfg, 0)"
  let ?st = "fold record_mutation (map snd (takeWhile fst turns)) churn_stats_default"
  let ?oks = "map snd (take n turns)"
  have front: "takeWhile fst turns = take n turns" using assms(4) by (metis takeWhile_eq_take)
  obtain i where i: "churn_interval (ch_rate_hz cfg) = Some (Suc i)"
    using churn_interval_near [OF assms(1,2)] by (metis gr0_conv_Suc)
  have members: "set ?run \<subseteq> Some ` set (ch_backends cfg)"
    using churn.run_members [of "(ch_backends cfg, 0)" n] assms(3) by simp
  have patches: "map2 (\<lambda>i b. churn_patch cfg (0 + of_nat (Suc i)) (the b)) [0..<n] ?run
      = map2 (\<lambda>i b. churn_patch cfg (of_nat i) b) [1..<Suc n] (map the ?run)"
    by (simp add: map_Suc_upt [symmetric] zip_map1 zip_map2 comp_def case_prod_unfold del: upt_Suc)
  have run: "churn_run True cfg turns = Inr (if list_all fst turns then Still_Running else Stopped, ?st,
      map2 (\<lambda>i b. churn_patch cfg (of_nat i) b) [1..<Suc n] (map the ?run))"
    using assms(1) i patches unfolding churn_run_def churn_loop_result [OF assms(3)] assms(4) [symmetric] by (simp del: upt_Suc)
  have turns: "mset (map the ?run) = repeat_mset k (mset (ch_backends cfg))" if "n = k * length (ch_backends cfg)" for k
  proof -
    have "mset ?run = repeat_mset k (mset (map Some (ch_backends cfg)))"
      using churn.run_turns [of "(ch_backends cfg, 0)" k] assms(3,5) that by simp
    then have "image_mset the (mset ?run) = image_mset the (repeat_mset k (mset (map Some (ch_backends cfg))))" by simp
    then show ?thesis by (simp add: image_repeat_mset multiset.map_comp comp_def)
  qed
  have small: "length ?oks = n" "n < 2 ^ 64" using assms(4,5) front by (metis length_map, simp)
  have parts: "length (filter id ?oks) + length (filter Not ?oks) = n"
    using sum_length_filter_compl [of id ?oks] small(1) by simp
  have counts: "unat (mutations_attempted ?st) = n" "unat (mutations_succeeded ?st) = length (filter id ?oks)"
    "unat (mutations_failed ?st) = length (filter Not ?oks)"
    using small parts by (simp_all add: record_mutations churn_stats_default_def front unat_of_nat)
  have "(if list_all fst turns then Still_Running else Stopped) = Stopped \<longleftrightarrow> False \<in> fst ` set turns"
    by (auto simp: list_all_iff image_iff)
  moreover have "set (map the ?run) \<subseteq> set (ch_backends cfg)" using members by auto
  ultimately show ?thesis
    using turns counts parts
    by (intro conjI [OF churn_interval_near [OF assms(1,2)]] exI [of _ "if list_all fst turns then Still_Running else Stopped"] exI [of _ ?st] exI [of _ "map the ?run"] conjI run)
      (simp_all split: if_splits)
qed

theorem churn_run_correct_witness:
  "\<exists>st patches. churn_run True churn_config_default [(True, True), (True, False), (False, True)] = Inr (Stopped, st, patches) \<and>
     unat (mutations_attempted st) = 2 \<and> unat (mutations_succeeded st) = 1 \<and> length patches = 2"
proof -
  let ?turns = "[(True, True), (True, False), (False, True)]"
  have cfg: "0 < ch_rate_hz churn_config_default" "ch_rate_hz churn_config_default \<le> 1000000000" "ch_backends churn_config_default \<noteq> []"
    by (simp_all add: churn_config_default_def)
  have n: "2 = length (takeWhile fst ?turns)" "2 + 1 < (2 :: nat) ^ 64" by simp_all
  from churn_run_correct [OF cfg n] obtain ending st names where
    "churn_run True churn_config_default ?turns = Inr (ending, st, map2 (\<lambda>i b. churn_patch churn_config_default (of_nat i) b) [1..<Suc 2] names)"
    "ending = Stopped \<longleftrightarrow> False \<in> fst ` set ?turns" "length names = 2" "unat (mutations_attempted st) = 2"
    "unat (mutations_succeeded st) = length (filter id (map snd (take 2 ?turns)))" by blast
  then show ?thesis
    by (intro exI [of _ st] exI [of _ "map2 (\<lambda>i b. churn_patch churn_config_default (of_nat i) b) [1..<Suc 2] names"])
      (simp add: numeral_eq_Suc)
qed

end
