(* ===== verification/Spec2Isabelle.thy ===== *)
theory Spec2Isabelle
  imports Simd Fx_Hash Target Route_Filter Proxy_Hygiene Route_Table Route_Config Gateway Runtime_Support Http1 Pool Hyper_Server Http2 Pingora Monoio_Server
    Bench_Scenario Latency Mock_Upstream Load_Gen Candidate_Proc Runner Hardware System_Limits Report End_To_End
    Supervisor Supervised_Planes Proxy_Main Pgo_Pipeline Bench_Cli Markdown Resource_Monitor Kind_Cluster Churn Flamegraph
begin

text \<open>
  Verification of tuletorn: a Kubernetes Gateway API reverse proxy with three data planes on one core,
  and the benchmark that compares them.  All paths below are under \<open>src/crates/\<close>.

  \<^bold>\<open>The program and its parts.\<close>  The crate \<open>core\<close> holds what the proxies share.  A control plane
  (\<open>gateway.rs\<close>) watches HTTPRoutes and EndpointSlices, keeps them in a cluster state and compiles that into a
  route table; a file (\<open>config.rs\<close>) compiles into the same table.  The table (\<open>route_table.rs\<close>) is swapped
  atomically; a data plane loads it for a request, looks up host and path, takes an endpoint from the group
  of the route (\<open>target.rs\<close>), applies its filters (\<open>filter.rs\<close>) and the header hygiene of a proxy
  (\<open>proxy.rs\<close>), and exchanges the request with the endpoint.  The three data planes are \<open>proxy-hyper\<close>,
  \<open>proxy-pingora\<close> and \<open>proxy-monoio\<close>, the last with an HTTP/1 codec, connection pool and relay of its own.
  The crate \<open>bench\<close> launches the proxies, drives load at them and reports.

  \<^bold>\<open>Theories of the core.\<close>
  \<^item> \<open>Prelude\<close>, \<open>Rust_Str\<close>, \<open>Rust_Path\<close>, \<open>F64\<close>: bytes, the functions of \<open>str\<close>, \<open>Path\<close>, \<open>sort_by\<close> (locale \<open>sort_order\<close>) and
    \<open>f64\<close> the program calls, the simplification collections, and the locale \<open>step_invariant\<close> of an invariant of a transition system.
  \<^item> \<open>Simd\<close> (\<open>simd.rs\<close>): the NEON, AVX2 and SSE2 routines lane by lane, and that each equals its scalar routine
    on every input (locales \<open>lane_compare\<close> and \<open>lane_fold\<close>, one interpretation per instruction set).
  \<^item> \<open>Fx_Hash\<close> (\<open>hash.rs\<close>): the hasher on 64-bit words; a round is a bijection.
  \<^item> \<open>Target\<close> (\<open>target.rs\<close>): endpoints, weight tables and the selection policies.  Any window of selections as long as
    the table serves each endpoint exactly its share, also where the cursor wraps; the table is bounded and its
    smooth expansion terminates with the exact counts (locale \<open>balancer\<close>).
  \<^item> \<open>Http_Lib\<close>, \<open>Http_Msg\<close>: the \<open>http\<close> crate as a parameter with its documented laws, requests and responses, and
    the locale \<open>forwarding_plane\<close>, the header contract all data planes share.
  \<^item> \<open>Route_Filter\<close> (\<open>filter.rs\<close>), \<open>Proxy_Hygiene\<close> (\<open>proxy.rs\<close>): compiled modifiers refine the Gateway API's,
    URL rewrites, removal of hop-by-hop and nominated headers, the forwarding headers.
  \<^item> \<open>Route_Table\<close> (\<open>route_table.rs\<close>), \<open>Route_Config\<close> (\<open>config.rs\<close>): builder, lookup and swap.  The built table
    refines the list of added routes read as a specification; host precedence; the \<open>matchit\<close> router is a parameter.
  \<^item> \<open>Gateway\<close> (\<open>gateway.rs\<close>): wire types, compilation, and the two watch tasks with the rebuild task as a step
    relation.  The compiled table refines the attached routes; in every interleaving no update is lost, and a
    due rebuild catches up.
  \<^item> \<open>Runtime_Support\<close> (\<open>alloc.rs\<close>, \<open>cycles.rs\<close>): the allocator's name and tick conversion.

  \<^bold>\<open>Theories of the data planes.\<close>
  \<^item> \<open>Hyper_Server\<close> (\<open>proxy-hyper/src/server.rs\<close>, \<open>client.rs\<close>), \<open>Http2\<close> (\<open>proxy-monoio/src/http2.rs\<close>), \<open>Pingora\<close>
    (\<open>proxy-pingora/src/proxy_service.rs\<close>): the handlers and callbacks; what each sends upstream and returns, its
    local answers, and that each meets the forwarding contract.
  \<^item> \<open>Async_Io\<close>, \<open>Http1\<close>, \<open>Pool\<close>, \<open>Monoio_Relay\<close>, \<open>Monoio_Server\<close> (\<open>http1.rs\<close>, \<open>pool.rs\<close>, \<open>server.rs\<close> of
    \<open>proxy-monoio\<close>): byte streams cut into any segments (locale \<open>byte_reader\<close>), head parsing and writing as round
    trips, the pool (locale \<open>conn_pool\<close>), the relay loops, and the connection loop with pipelining: each
    request goes over a connection to its endpoint, its body exactly once, and the response returns as its framing says.
    The table each request of a connection loads is chosen by the environment (a rely of \<open>serve_loop_log\<close>).
  \<^item> \<open>End_To_End\<close>: a request, from the objects in the cluster to the wire, and the agreement of the data planes.
  \<^item> \<open>Supervisor\<close> (\<open>gateway::run\<close>, \<open>k8s_controller.rs\<close> of each proxy): the restart loop with detached tasks of earlier
    runs, beside the requests.  The active table always comes from the seed or a watched state, and a restart can
    replace a newer table by an older one.
  \<^item> \<open>Supervised_Planes\<close>: the data planes on that table, which every request loads anew.  What they rely on is
    the locale \<open>loaded_tables\<close>, and the supervised tables keep it: no request of any plane panics, each goes to an
    endpoint of a route of the seed or of the watched cluster, and a Monoio connection does so whatever the
    environment publishes between its requests.
  \<^item> \<open>Proxy_Main\<close> (the three \<open>main.rs\<close>): arguments, the seeded table and what is started.

  \<^bold>\<open>Theories of the benchmark.\<close>
  \<^item> \<open>Bench_Scenario\<close> (payloads, versions, candidates, scenarios), \<open>Latency\<close> (\<open>metrics/latency.rs\<close>), \<open>Mock_Upstream\<close>
    (\<open>mock/upstream.rs\<close>), \<open>Load_Gen\<close> (\<open>load/generator.rs\<close>): every attempt of a run is counted once, and percentiles
    are those of the answered latencies.
  \<^item> \<open>Candidate_Proc\<close> (\<open>harness/candidate.rs\<close>), \<open>Logged_Run\<close>, \<open>Runner\<close> (\<open>harness/runner.rs\<close>), \<open>Pgo_Pipeline\<close>
    (\<open>profiling/pgo.rs\<close>), \<open>Bench_Cli\<close> (\<open>main.rs\<close>): effectful code as a monad with a log, an error and a world; what was
    done in which order on success and on every early return (locale \<open>planned_run\<close>), and that a run reports each
    measurement once, in files that read back.
  \<^item> \<open>Shell\<close>, \<open>Kind_Cluster\<close> (\<open>k8s/kind_cluster.rs\<close>, \<open>k8s/deployer.rs\<close>), \<open>Flamegraph\<close> (\<open>profiling/flamegraph.rs\<close>): the commands
    these run, in order and bound to the benchmark's own cluster, and that a captured profile is found by the report.
  \<^item> \<open>Churn\<close> (\<open>k8s/churn.rs\<close>), \<open>Resource_Monitor\<close> (\<open>metrics/resources.rs\<close>): mutations rotate evenly over the backends (the
    locale \<open>balancer\<close> again) and are counted exactly; a summary is that of the samples which saw the process.
  \<^item> \<open>Hardware\<close>, \<open>System_Limits\<close>, \<open>Report\<close>, \<open>Markdown\<close> (\<open>metrics/hardware.rs\<close>, \<open>harness/preflight.rs\<close>, \<open>report/csv.rs\<close>,
    \<open>report/markdown.rs\<close>, \<open>report/hardware_report.rs\<close>): calendar arithmetic, the search for the supported concurrency, and a CSV and a
    Markdown report from which a reader recovers every cell.

  \<^bold>\<open>Conventions.\<close>  A struct is a record, an enum a datatype, \<open>Result\<close> a sum with the error on the left, and a
  panic \<open>None\<close>.  Machine integers are words where wrap-around is reachable (hashes, cursors, counters) and natural
  numbers or integers where the theory gives the bound that excludes it.  A \<open>HashMap\<close> is an association list with distinct keys,
  and its iteration order a parameter.  An \<open>f64\<close> is the rational it denotes, each operation rounding once.

  \<^bold>\<open>Termination.\<close>  Loops over data are total functions with their measures.  The relay and head loops recurse over
  the segments a connection still delivers and end in \<open>Pending\<close> when the peer sends nothing more, so no fuel is used;
  the wait for a candidate (\<open>ready_loop\<close>) is a \<open>partial_function\<close> whose return is proved.  The controller and its supervisor are step relations,
  since they do not end.

  \<^bold>\<open>Parameters.\<close>  Third-party code is an argument with its documented behaviour as a named hypothesis: the \<open>http\<close> crate
  (\<open>http_spec\<close>), \<open>matchit\<close> (\<open>router_spec\<close>), \<open>memchr\<close>, \<open>httparse\<close>, Pingora's header types (\<open>pingora_spec\<close>), \<open>hdrhistogram\<close>
  (\<open>hist_spec\<close>), Hyper's client, the Kubernetes client, serde, and the operating system.  Each hypothesis has a concrete
  instance, on which the witnesses evaluate.

  \<^bold>\<open>Not modelled.\<close>  HTTP parsing inside Hyper and Pingora, TLS, runtimes, sockets and logging are third-party or pure
  input and output.  Constructors that only copy a configuration, socket options, the wiring of runtimes and threads,
  and the Criterion micro-benchmarks of \<open>core/benches\<close> have no model: there is no decision in them to state a property about.
\<close>

end
